(* ===== verification/Prelude.thy ===== *)
theory Prelude
  imports Main "HOL-Library.Word" "HOL-Library.AList" "HOL-Library.Multiset" "HOL-Library.Monad_Syntax"
begin

text \<open>
  Shared vocabulary of the development: the names of the Go types, the collections of
  simplification and introduction rules the component theories extend, generic lemmas on
  association lists and options, and the two notions every stateful component uses:
  a labelled transition system (\<open>run\<close>, \<open>reachable\<close>) and the locale
  \<open>invariant_system\<close> that turns one-step preservation into an invariant of all runs.
\<close>

section \<open>Types and collections\<close>

type_synonym u8 = "8 word"
type_synonym u16 = "16 word"
type_synonym u32 = "32 word"
type_synonym u64 = "64 word"
type_synonym bytes = "u8 list"

named_theorems go_simps \<open>equations of the Go runtime operations\<close>
named_theorems inv_intros \<open>one-step preservation of component invariants\<close>

section \<open>Association lists as Go maps\<close>

text \<open>
  A Go map is an association list with distinct keys. The order of the list stands for the
  iteration order of a \<open>range\<close> loop, which the Go runtime chooses freely.
\<close>

abbreviation gwf :: "('k \<times> 'v) list \<Rightarrow> bool" where
  "gwf m \<equiv> distinct (map fst m)"

lemma map_of_filter_key:
  "map_of (filter (\<lambda>(k, _). P k) m) = (\<lambda>k. if P k then map_of m k else None)"
  by (induction m) (auto simp: fun_eq_iff)

lemma map_of_filter_distinct:
  assumes "gwf m"
  shows "map_of (filter P m) k =
    (case map_of m k of None \<Rightarrow> None | Some v \<Rightarrow> if P (k, v) then Some v else None)"
  using assms
  by (induction m) (auto split: option.splits dest: map_of_SomeD simp: image_iff)

lemma gwf_filter [simp, intro]: "gwf m \<Longrightarrow> gwf (filter P m)"
  by (simp add: distinct_map_filter)

lemma lookup_delete [simp]: "map_of (AList.delete k m) = (map_of m)(k := None)"
  by (rule AList.delete_conv')

lemma lookup_update [simp]: "map_of (AList.update k v m) = (map_of m)(k \<mapsto> v)"
  by (rule AList.update_conv')

lemma gwf_update [simp, intro]: "gwf m \<Longrightarrow> gwf (AList.update k v m)"
  by (rule AList.distinct_update)

lemma gwf_delete [simp, intro]: "gwf m \<Longrightarrow> gwf (AList.delete k m)"
  by (rule AList.distinct_delete)

lemma length_update_new: "map_of m k = None \<Longrightarrow> length (AList.update k v m) = Suc (length m)"
  by (induction m) (auto split: if_splits)

lemma update_fresh: "map_of m k = None \<Longrightarrow> AList.update k v m = m @ [(k, v)]"
  by (induction m) (auto split: if_splits)

lemma length_delete_present:
  "gwf m \<Longrightarrow> map_of m k = Some v \<Longrightarrow> Suc (length (AList.delete k m)) = length m"
  by (induction m) (auto split: if_splits)

lemma set_delete_iff: "p \<in> set (AList.delete k m) \<longleftrightarrow> p \<in> set m \<and> fst p \<noteq> k"
  by (induction m) auto

lemma gwf_map_of_iff: "gwf m \<Longrightarrow> map_of m k = Some v \<longleftrightarrow> (k, v) \<in> set m"
  by (rule map_of_eq_Some_iff)

lemma set_update_iff:
  assumes "gwf m"
  shows "p \<in> set (AList.update k v m) \<longleftrightarrow> p = (k, v) \<or> (p \<in> set m \<and> fst p \<noteq> k)"
  using assms by (induction m) (auto simp: image_iff)

lemma filter_update_key:
  "(\<And>v. P (k, v) \<longleftrightarrow> False) \<Longrightarrow> filter P (AList.update k v m) = filter P m"
  by (induction m) auto

section \<open>Labelled transition systems\<close>

inductive run :: "('s \<Rightarrow> 'e \<Rightarrow> 's \<Rightarrow> bool) \<Rightarrow> 's \<Rightarrow> 'e list \<Rightarrow> 's \<Rightarrow> bool"
  for step :: "'s \<Rightarrow> 'e \<Rightarrow> 's \<Rightarrow> bool" where
  run_nil: "run step s [] s"
| run_snoc: "run step s es t \<Longrightarrow> step t e u \<Longrightarrow> run step s (es @ [e]) u"

definition reachable :: "('s \<Rightarrow> bool) \<Rightarrow> ('s \<Rightarrow> 'e \<Rightarrow> 's \<Rightarrow> bool) \<Rightarrow> 's \<Rightarrow> bool" where
  "reachable init step t \<longleftrightarrow> (\<exists>s es. init s \<and> run step s es t)"

lemma run_append: "run step t fs u \<Longrightarrow> run step s es t \<Longrightarrow> run step s (es @ fs) u"
  by (induction rule: run.induct) (auto intro: run_snoc simp flip: append_assoc)

lemma run_one: "step s e t \<Longrightarrow> run step s [e] t"
  using run_snoc [OF run_nil, of step s e t] by simp

lemma run_cons: "step s e t \<Longrightarrow> run step t es u \<Longrightarrow> run step s (e # es) u"
  using run_append [OF _ run_one, of step t es u s e] by simp

text \<open>
  The contract of a component whose invariant every step keeps. The client lemmas are
  proved once; every stateful component interprets the locale on its own step relation.
\<close>

locale invariant_system =
  fixes init :: "'s \<Rightarrow> bool"
    and step :: "'s \<Rightarrow> 'e \<Rightarrow> 's \<Rightarrow> bool"
    and inv :: "'s \<Rightarrow> bool"
  assumes inv_init: "init s \<Longrightarrow> inv s"
    and inv_step: "step s e t \<Longrightarrow> inv s \<Longrightarrow> inv t"
begin

lemma run_inv: "run step s es t \<Longrightarrow> inv s \<Longrightarrow> inv t"
  by (induction rule: run.induct) (auto intro: inv_step)

lemma reachable_inv: "reachable init step t \<Longrightarrow> inv t"
  by (auto simp: reachable_def intro: run_inv inv_init)

lemma reachable_run: "reachable init step s \<Longrightarrow> run step s es t \<Longrightarrow> reachable init step t"
  unfolding reachable_def by (blast intro: run_append)

end

end
