(* ===== verification/Go_Runtime.thy ===== *)
theory Go_Runtime
  imports Prelude
begin

text \<open>
  The parts of the Go language and of its standard library that the repository's code runs
  on: byte slices with their bounds checks (a failed check is \<open>None\<close>, the run-time panic),
  \<open>copy\<close>, \<open>encoding/binary.BigEndian\<close>, \<open>time.Time\<close> and \<open>time.Duration\<close>, maps and
  buffered channels. Maps and channels are stated as locales and interpreted on the
  definitions the components use.
\<close>

unbundle bit_operations_syntax

section \<open>Slices\<close>

definition go_index :: "'a list \<Rightarrow> nat \<Rightarrow> 'a option" where
  "go_index xs i = (if i < length xs then Some (xs ! i) else None)"

definition go_from :: "'a list \<Rightarrow> nat \<Rightarrow> 'a list option" where
  "go_from xs i = (if i \<le> length xs then Some (drop i xs) else None)"

definition go_slice :: "'a list \<Rightarrow> nat \<Rightarrow> nat \<Rightarrow> 'a list option" where
  "go_slice xs i j = (if i \<le> j \<and> j \<le> length xs then Some (take (j - i) (drop i xs)) else None)"

definition go_set :: "'a list \<Rightarrow> nat \<Rightarrow> 'a \<Rightarrow> 'a list option" where
  "go_set xs i v = (if i < length xs then Some (xs[i := v]) else None)"

text \<open>\<open>copy(xs[i:], src)\<close>: as many bytes as fit; only the slice expression can panic.\<close>

definition go_copy_at :: "nat \<Rightarrow> 'a list \<Rightarrow> 'a list \<Rightarrow> 'a list option" where
  "go_copy_at i src xs =
     (if i \<le> length xs
      then Some (take i xs @ take (length xs - i) src @ drop (i + length src) xs)
      else None)"

text \<open>Overwriting a whole run of bytes in range, the effect of every in-bounds store below.\<close>

definition overwrite :: "nat \<Rightarrow> 'a list \<Rightarrow> 'a list \<Rightarrow> 'a list" where
  "overwrite i src xs = take i xs @ src @ drop (i + length src) xs"

lemma length_overwrite [simp]: "i + length src \<le> length xs \<Longrightarrow> length (overwrite i src xs) = length xs"
  by (simp add: overwrite_def)

lemma go_copy_at_fits [go_simps]:
  "i + length src \<le> length xs \<Longrightarrow> go_copy_at i src xs = Some (overwrite i src xs)"
  by (simp add: go_copy_at_def overwrite_def)

lemma go_set_overwrite [go_simps]: "i < length xs \<Longrightarrow> go_set xs i v = Some (overwrite i [v] xs)"
  by (simp add: go_set_def overwrite_def upd_conv_take_nth_drop)

lemma overwrite_take_drop_same:
  "i + length src \<le> length xs \<Longrightarrow> take (length src) (drop i (overwrite i src xs)) = src"
  by (simp add: overwrite_def)

lemma overwrite_take_drop_before:
  "i + length src \<le> length xs \<Longrightarrow> j + n \<le> i \<Longrightarrow> take n (drop j (overwrite i src xs)) = take n (drop j xs)"
  by (simp add: overwrite_def take_drop)

lemma overwrite_take_drop_after:
  "i + length src \<le> length xs \<Longrightarrow> i + length src \<le> j \<Longrightarrow>
    take n (drop j (overwrite i src xs)) = take n (drop j xs)"
  by (simp add: overwrite_def)

lemma take_overwrite_before: "i + length src \<le> length xs \<Longrightarrow> n \<le> i \<Longrightarrow> take n (overwrite i src xs) = take n xs"
  using overwrite_take_drop_before [of i src xs 0 n] by simp

lemma nth_overwrite:
  "i + length src \<le> length xs \<Longrightarrow> k < length xs \<Longrightarrow>
    overwrite i src xs ! k = (if i \<le> k \<and> k < i + length src then src ! (k - i) else xs ! k)"
  by (auto simp: overwrite_def nth_append min_def)

section \<open>encoding/binary.BigEndian\<close>

definition be64_bytes :: "u64 \<Rightarrow> bytes" where
  "be64_bytes v =
     [ucast (drop_bit 56 v), ucast (drop_bit 48 v), ucast (drop_bit 40 v), ucast (drop_bit 32 v),
      ucast (drop_bit 24 v), ucast (drop_bit 16 v), ucast (drop_bit 8 v), ucast v]"

fun be64_val :: "bytes \<Rightarrow> u64 option" where
  "be64_val (b0 # b1 # b2 # b3 # b4 # b5 # b6 # b7 # _) =
     Some (ucast b7 OR push_bit 8 (ucast b6) OR push_bit 16 (ucast b5) OR push_bit 24 (ucast b4) OR
       push_bit 32 (ucast b3) OR push_bit 40 (ucast b2) OR push_bit 48 (ucast b1) OR push_bit 56 (ucast b0))"
| "be64_val _ = None"

text \<open>\<open>binary.BigEndian.PutUint64(xs[i:], v)\<close> and \<open>binary.BigEndian.Uint64(xs[i:])\<close>.\<close>

definition put_u64 :: "bytes \<Rightarrow> nat \<Rightarrow> u64 \<Rightarrow> bytes option" where
  "put_u64 xs i v = (if i + 8 \<le> length xs then Some (overwrite i (be64_bytes v) xs) else None)"

definition get_u64 :: "bytes \<Rightarrow> nat \<Rightarrow> u64 option" where
  "get_u64 xs i = do { ys \<leftarrow> go_from xs i; be64_val ys }"

lemma length_be64_bytes [simp]: "length (be64_bytes v) = 8"
  by (simp add: be64_bytes_def)

lemma take_bit_split8:
  fixes v :: u64
  shows "take_bit k v OR push_bit k (take_bit 8 (drop_bit k v)) = take_bit (k + 8) v"
  by (rule bit_word_eqI) (auto simp: bit_simps)

lemma ucast_u8_u64: "(ucast (ucast (w :: u64) :: u8) :: u64) = take_bit 8 w"
  by (rule bit_word_eqI) (auto simp: bit_simps)

lemma be64_round_trip [simp]: "be64_val (be64_bytes v @ xs) = Some v"
proof -
  have "take_bit 64 v = v" by (rule bit_word_eqI) (simp add: bit_simps)
  then show ?thesis
    using take_bit_split8 [of 8 v] take_bit_split8 [of 16 v] take_bit_split8 [of 24 v]
      take_bit_split8 [of 32 v] take_bit_split8 [of 40 v] take_bit_split8 [of 48 v]
      take_bit_split8 [of 56 v]
    by (simp add: be64_bytes_def ucast_u8_u64 or.assoc [symmetric])
qed

lemma bit_u8_beyond: "8 \<le> m \<Longrightarrow> \<not> bit (b :: u8) m"
  by (auto dest: bit_imp_le_length)

lemma be64_val_bytes:
  assumes "be64_val xs = Some v"
  shows "be64_bytes v = take 8 xs"
  using assms
  by (cases xs rule: be64_val.cases)
    (auto simp: be64_bytes_def bit_simps bit_u8_beyond intro!: bit_word_eqI)

lemma be64_bytes_inject [simp]: "be64_bytes v = be64_bytes w \<longleftrightarrow> v = w"
  by (metis be64_round_trip option.inject)

lemma be64_val_None_iff: "be64_val xs = None \<longleftrightarrow> length xs < 8"
  by (cases xs rule: be64_val.cases) auto

lemma be64_val_take: "8 \<le> n \<Longrightarrow> be64_val (take n xs) = be64_val xs"
  by (cases xs rule: be64_val.cases) (auto simp: numeral_eq_Suc take_Cons split: nat.splits)

lemma get_u64_take_drop: "get_u64 xs i = be64_val (take 8 (drop i xs))"
proof (cases "i \<le> length xs")
  case True
  then show ?thesis by (simp add: get_u64_def go_from_def be64_val_take)
next
  case False
  then show ?thesis by (simp add: get_u64_def go_from_def)
qed

lemma get_u64_Some: "i + 8 \<le> length xs \<Longrightarrow> \<exists>v. get_u64 xs i = Some v"
  using be64_val_None_iff [of "take 8 (drop i xs)"] by (cases "get_u64 xs i") (auto simp: get_u64_take_drop)

lemma get_u64_bytes: "take 8 (drop i xs) = be64_bytes v \<Longrightarrow> get_u64 xs i = Some v"
  using be64_round_trip [of v "[]"] by (simp add: get_u64_take_drop)

section \<open>Time\<close>

text \<open>
  A \<open>time.Time\<close> is the number of nanoseconds since the Unix epoch, a \<open>time.Duration\<close> a
  number of nanoseconds; \<open>Sub\<close> saturates at the range of a signed 64-bit integer and
  \<open>UnixMilli\<close> yields a signed 64-bit integer, here as its two's complement word.
\<close>

type_synonym time = int
type_synonym duration = int

abbreviation max_duration :: duration where "max_duration \<equiv> 2 ^ 63 - 1"
abbreviation min_duration :: duration where "min_duration \<equiv> - (2 ^ 63)"

abbreviation millisecond :: duration where "millisecond \<equiv> 1000000"
abbreviation second :: duration where "second \<equiv> 1000000000"
abbreviation minute :: duration where "minute \<equiv> 60000000000"

definition time_sub :: "time \<Rightarrow> time \<Rightarrow> duration" where
  "time_sub t u = max min_duration (min max_duration (t - u))"

definition unix_milli :: "time \<Rightarrow> u64" where
  "unix_milli t = word_of_int (t div millisecond)"

text \<open>\<open>time.UnixMilli(int64(ms))\<close> for a \<open>uint64\<close>: the conversion reinterprets the bits.\<close>

definition time_of_unix_milli :: "u64 \<Rightarrow> time" where
  "time_of_unix_milli ms = sint ms * millisecond"

lemma unix_milli_of_time [simp]: "unix_milli (time_of_unix_milli ms) = ms"
  by (simp add: unix_milli_def time_of_unix_milli_def)

lemma time_sub_le_iff: "d \<le> max_duration \<Longrightarrow> min_duration \<le> d \<Longrightarrow> d < time_sub t u \<longleftrightarrow> d < t - u \<and> d < max_duration"
  by (auto simp: time_sub_def)

lemma time_sub_exact: "min_duration \<le> t - u \<Longrightarrow> t - u \<le> max_duration \<Longrightarrow> time_sub t u = t - u"
  by (simp add: time_sub_def)

section \<open>Maps\<close>

locale go_map =
  fixes empty :: "'m"
    and lookup :: "'m \<Rightarrow> 'k \<Rightarrow> 'v option"
    and put :: "'k \<Rightarrow> 'v \<Rightarrow> 'm \<Rightarrow> 'm"
    and del :: "'k \<Rightarrow> 'm \<Rightarrow> 'm"
    and len :: "'m \<Rightarrow> nat"
    and invar :: "'m \<Rightarrow> bool"
  assumes lookup_empty: "lookup empty k = None"
    and lookup_put: "invar m \<Longrightarrow> lookup (put k v m) k' = (if k' = k then Some v else lookup m k')"
    and lookup_del: "invar m \<Longrightarrow> lookup (del k m) k' = (if k' = k then None else lookup m k')"
    and len_empty: "len empty = 0"
    and len_put_new: "invar m \<Longrightarrow> lookup m k = None \<Longrightarrow> len (put k v m) = Suc (len m)"
    and len_del_present: "invar m \<Longrightarrow> lookup m k = Some v \<Longrightarrow> Suc (len (del k m)) = len m"
    and invar_empty: "invar empty"
    and invar_put: "invar m \<Longrightarrow> invar (put k v m)"
    and invar_del: "invar m \<Longrightarrow> invar (del k m)"
begin

lemma put_then_del: "invar m \<Longrightarrow> lookup m k = None \<Longrightarrow> lookup (del k (put k v m)) k' = lookup m k'"
  by (simp add: lookup_del invar_put lookup_put)

lemma len_put_bound:
  "invar m \<Longrightarrow> lookup m k = None \<Longrightarrow> len m < n \<Longrightarrow> len (put k v m) \<le> n"
  by (simp add: len_put_new)

lemma evict_then_put_bound:
  "invar m \<Longrightarrow> lookup m k = None \<Longrightarrow> lookup m j = Some w \<Longrightarrow> len m \<le> n \<Longrightarrow> len (put k v (del j m)) \<le> n"
  by (metis Suc_le_lessD invar_del len_del_present len_put_bound lookup_del)

end

interpretation gm: go_map "[]" map_of AList.update AList.delete length gwf
  by unfold_locales (auto simp: length_update_new length_delete_present)

section \<open>Buffered channels\<close>

text \<open>
  A buffered channel used only through \<open>select\<close> with a \<open>default\<close> branch: a send on a full
  channel and a receive on an empty one take the default branch (\<open>None\<close>).
\<close>

record 'a chan =
  chan_cap :: nat
  chan_buf :: "'a list"

definition make_chan :: "nat \<Rightarrow> 'a chan" where
  "make_chan n = \<lparr>chan_cap = n, chan_buf = []\<rparr>"

definition try_send :: "'a chan \<Rightarrow> 'a \<Rightarrow> 'a chan option" where
  "try_send c x =
     (if length (chan_buf c) < chan_cap c then Some (c\<lparr>chan_buf := chan_buf c @ [x]\<rparr>) else None)"

definition try_recv :: "'a chan \<Rightarrow> ('a \<times> 'a chan) option" where
  "try_recv c = (case chan_buf c of [] \<Rightarrow> None | x # xs \<Rightarrow> Some (x, c\<lparr>chan_buf := xs\<rparr>))"

text \<open>The loop \<open>for { select { case <-c: default: break } }\<close>.\<close>

function drain :: "'a chan \<Rightarrow> 'a chan" where
  "drain c = (case try_recv c of None \<Rightarrow> c | Some (_, c') \<Rightarrow> drain c')"
  by pat_completeness auto
termination
  by (relation "measure (\<lambda>c. length (chan_buf c))") (auto simp: try_recv_def split: list.splits)

declare drain.simps [simp del]

lemma drain_eq: "drain c = c\<lparr>chan_buf := []\<rparr>"
proof (induction c rule: drain.induct)
  case (1 c)
  then show ?case
    by (subst drain.simps) (auto simp: try_recv_def split: list.splits)
qed

locale bounded_queue =
  fixes make :: "nat \<Rightarrow> 'q"
    and send :: "'q \<Rightarrow> 'a \<Rightarrow> 'q option"
    and recv :: "'q \<Rightarrow> ('a \<times> 'q) option"
    and clear :: "'q \<Rightarrow> 'q"
    and contents :: "'q \<Rightarrow> 'a list"
    and cap :: "'q \<Rightarrow> nat"
  assumes contents_make: "contents (make n) = []"
    and cap_make: "cap (make n) = n"
    and send_None: "send q x = None \<longleftrightarrow> cap q \<le> length (contents q)"
    and send_Some: "send q x = Some q' \<Longrightarrow> contents q' = contents q @ [x] \<and> cap q' = cap q"
    and recv_None: "recv q = None \<longleftrightarrow> contents q = []"
    and recv_Some: "recv q = Some (x, q') \<Longrightarrow> contents q = x # contents q' \<and> cap q' = cap q"
    and contents_clear: "contents (clear q) = []"
    and cap_clear: "cap (clear q) = cap q"
begin

definition bounded :: "'q \<Rightarrow> bool" where
  "bounded q \<longleftrightarrow> length (contents q) \<le> cap q"

lemma bounded_make: "bounded (make n)"
  by (simp add: bounded_def contents_make)

lemma bounded_send: "send q x = Some q' \<Longrightarrow> bounded q'"
  using send_None [of q x] send_Some [of q x q'] by (auto simp: bounded_def)

lemma bounded_recv: "bounded q \<Longrightarrow> recv q = Some (x, q') \<Longrightarrow> bounded q'"
  using recv_Some [of q x q'] by (auto simp: bounded_def)

lemma bounded_clear: "bounded (clear q)"
  by (simp add: bounded_def contents_clear)

lemma send_recv_fifo:
  "contents q = [] \<Longrightarrow> send q x = Some q' \<Longrightarrow> recv q' = Some (y, q'') \<Longrightarrow> y = x \<and> contents q'' = []"
  using send_Some [of q x q'] recv_Some [of q' y q''] by auto

end

interpretation ch: bounded_queue make_chan try_send try_recv drain chan_buf chan_cap
  by unfold_locales
    (auto simp: make_chan_def try_send_def try_recv_def drain_eq split: list.splits if_splits)

end
