(* ===== verification/Go_Crypto.thy ===== *)
theory Go_Crypto
  imports Go_Runtime
begin

text \<open>
  \<open>crypto/sha256\<close> and \<open>crypto/hmac\<close> of the Go standard library, as FIPS 180-4 and
  RFC 2104 define them, and the contract of a message authentication code that the packet
  codec relies on (locale \<open>mac_scheme\<close>), interpreted on \<open>hmac_sha256\<close>.
\<close>

unbundle bit_operations_syntax

section \<open>SHA-256\<close>

text \<open>The round constants and the initial state of FIPS 180-4, in decimal.\<close>

definition sha256_K :: "u32 list" where
  "sha256_K = [
    1116352408, 1899447441, 3049323471, 3921009573, 961987163, 1508970993, 2453635748, 2870763221,
    3624381080, 310598401, 607225278, 1426881987, 1925078388, 2162078206, 2614888103, 3248222580,
    3835390401, 4022224774, 264347078, 604807628, 770255983, 1249150122, 1555081692, 1996064986,
    2554220882, 2821834349, 2952996808, 3210313671, 3336571891, 3584528711, 113926993, 338241895,
    666307205, 773529912, 1294757372, 1396182291, 1695183700, 1986661051, 2177026350, 2456956037,
    2730485921, 2820302411, 3259730800, 3345764771, 3516065817, 3600352804, 4094571909, 275423344,
    430227734, 506948616, 659060556, 883997877, 958139571, 1322822218, 1537002063, 1747873779,
    1955562222, 2024104815, 2227730452, 2361852424, 2428436474, 2756734187, 3204031479, 3329325298]"

type_synonym sha_state = "u32 \<times> u32 \<times> u32 \<times> u32 \<times> u32 \<times> u32 \<times> u32 \<times> u32"

definition sha256_init :: sha_state where
  "sha256_init = (1779033703, 3144134277, 1013904242, 2773480762,
                  1359893119, 2600822924, 528734635, 1541459225)"

definition small_sigma0 :: "u32 \<Rightarrow> u32" where
  "small_sigma0 x = word_rotr 7 x XOR word_rotr 18 x XOR drop_bit 3 x"

definition small_sigma1 :: "u32 \<Rightarrow> u32" where
  "small_sigma1 x = word_rotr 17 x XOR word_rotr 19 x XOR drop_bit 10 x"

definition big_sigma0 :: "u32 \<Rightarrow> u32" where
  "big_sigma0 x = word_rotr 2 x XOR word_rotr 13 x XOR word_rotr 22 x"

definition big_sigma1 :: "u32 \<Rightarrow> u32" where
  "big_sigma1 x = word_rotr 6 x XOR word_rotr 11 x XOR word_rotr 25 x"

text \<open>The message schedule: the first sixteen words come from the block.\<close>

fun sha256_extend :: "nat \<Rightarrow> u32 list \<Rightarrow> u32 list" where
  "sha256_extend 0 ws = ws"
| "sha256_extend (Suc n) ws =
     (let t = length ws in
      sha256_extend n (ws @ [small_sigma1 (ws ! (t - 2)) + ws ! (t - 7) +
        small_sigma0 (ws ! (t - 15)) + ws ! (t - 16)]))"

definition sha256_round :: "sha_state \<Rightarrow> u32 \<times> u32 \<Rightarrow> sha_state" where
  "sha256_round s kw =
     (let (a, b, c, d, e, f, g, h) = s; (k, w) = kw;
          t1 = h + big_sigma1 e + ((e AND f) XOR (NOT e AND g)) + k + w;
          t2 = big_sigma0 a + ((a AND b) XOR (a AND c) XOR (b AND c))
      in (t1 + t2, a, b, c, d + t1, e, f, g))"

definition sha256_block :: "sha_state \<Rightarrow> u32 list \<Rightarrow> sha_state" where
  "sha256_block s ws =
     (let (a, b, c, d, e, f, g, h) = s;
          (a', b', c', d', e', f', g', h') = foldl sha256_round s (zip sha256_K (sha256_extend 48 ws))
      in (a + a', b + b', c + c', d + d', e + e', f + f', g + g', h + h'))"

definition be32_bytes :: "u32 \<Rightarrow> bytes" where
  "be32_bytes v = [ucast (drop_bit 24 v), ucast (drop_bit 16 v), ucast (drop_bit 8 v), ucast v]"

fun be32_words :: "bytes \<Rightarrow> u32 list" where
  "be32_words (b0 # b1 # b2 # b3 # bs) =
     (push_bit 24 (ucast b0) OR push_bit 16 (ucast b1) OR push_bit 8 (ucast b2) OR ucast b3) # be32_words bs"
| "be32_words _ = []"

text \<open>Padding to a multiple of 64 bytes: a one bit, zeros and the bit length.\<close>

definition sha256_pad :: "bytes \<Rightarrow> bytes" where
  "sha256_pad m =
     m @ 0x80 # replicate ((119 - length m mod 64) mod 64) 0 @ be64_bytes (of_nat (8 * length m))"

function sha256_blocks :: "sha_state \<Rightarrow> bytes \<Rightarrow> sha_state" where
  "sha256_blocks s bs =
     (if bs = [] then s else sha256_blocks (sha256_block s (be32_words (take 64 bs))) (drop 64 bs))"
  by pat_completeness auto
termination
  by (relation "measure (\<lambda>(s, bs). length bs)") auto

declare sha256_blocks.simps [simp del]

definition sha256 :: "bytes \<Rightarrow> bytes" where
  "sha256 m =
     (let (a, b, c, d, e, f, g, h) = sha256_blocks sha256_init (sha256_pad m)
      in be32_bytes a @ be32_bytes b @ be32_bytes c @ be32_bytes d @
         be32_bytes e @ be32_bytes f @ be32_bytes g @ be32_bytes h)"

lemma length_sha256 [simp]: "length (sha256 m) = 32"
  by (simp add: sha256_def be32_bytes_def split: prod.split)

lemma length_sha256_pad: "64 dvd length (sha256_pad m)"
proof -
  define r where "r = length m mod 64"
  have "r < 64" by (simp add: r_def)
  then have "r + (119 - r) mod 64 + 9 = 64 \<or> r + (119 - r) mod 64 + 9 = 128"
    by (cases "r \<le> 55") (auto simp: mod_if)
  then have "64 dvd 64 * (length m div 64) + (r + (119 - r) mod 64 + 9)"
    by (elim disjE) simp_all
  then have "64 dvd length m + (119 - r) mod 64 + 9"
    by (simp add: r_def add.assoc [symmetric])
  then show ?thesis
    by (simp add: sha256_pad_def r_def algebra_simps)
qed

section \<open>HMAC\<close>

definition hmac_sha256 :: "bytes \<Rightarrow> bytes \<Rightarrow> bytes" where
  "hmac_sha256 key m =
     (let k0 = (if 64 < length key then sha256 key else key);
          k = k0 @ replicate (64 - length k0) 0
      in sha256 (map (\<lambda>b. b XOR 0x5c) k @ sha256 (map (\<lambda>b. b XOR 0x36) k @ m)))"

lemma length_hmac_sha256 [simp]: "length (hmac_sha256 key m) = 32"
  by (simp add: hmac_sha256_def Let_def)

text \<open>
  What a packet codec needs of its authentication code: tags have one length. A message is
  sealed by appending its tag; the check \<open>drop n p = mac k (take n p)\<close> accepts exactly the
  sealed messages, and the sealed form determines the message.
\<close>

locale mac_scheme =
  fixes mac :: "bytes \<Rightarrow> bytes \<Rightarrow> bytes"
    and mac_len :: nat
  assumes length_mac: "length (mac k m) = mac_len"
begin

lemma check_iff_sealed:
  assumes "n \<le> length p"
  shows "drop n p = mac k (take n p) \<longleftrightarrow> (\<exists>m. length m = n \<and> p = m @ mac k m)"
proof
  assume "drop n p = mac k (take n p)"
  then show "\<exists>m. length m = n \<and> p = m @ mac k m"
    using assms by (metis append_take_drop_id length_take min_absorb2)
qed auto

lemma sealed_inject: "m @ mac k m = m' @ mac k' m' \<longleftrightarrow> m = m' \<and> mac k m = mac k' m"
  by (auto simp: append_eq_append_conv length_mac)

lemma tampered_rejected:
  assumes "drop n p = mac k (take n p)" "n \<le> length p" "take n p' = take n p" "drop n p' \<noteq> drop n p"
  shows "drop n p' \<noteq> mac k (take n p')"
  using assms by metis

end

interpretation hm: mac_scheme hmac_sha256 32
  by unfold_locales simp

end
