(* ===== verification/Ingress_Types.thy ===== *)
theory Ingress_Types
  imports Go_Crypto
begin

text \<open>
  The data the verified-ingress components share: the sentinel errors and the message
  structs of \<^verbatim>\<open>go/ingress.go\<close>, and the constants of the external module
  \<^verbatim>\<open>go.minekube.com/connect/geyserliteabi\<close>. That module is not part of the
  repository, so its constants are a parameter \<open>A :: abi\<close> of every definition that uses
  them; \<open>abi_ok\<close> states what the code relies on (fields do not overlap, packet sizes are the
  sums of their parts, codes are distinct). The repository's own peer of the protocol, the
  Java class \<^verbatim>\<open>VerifiedIngressSubprocess\<close>, fixes concrete values, transcribed as
  \<open>abi_v1\<close>.
\<close>

section \<open>The frozen ABI\<close>

record abi =
  MaxIngressLifetime :: duration
  VerifiedIngressVersion :: u64
  CorrelationBytes :: nat
  MinIngressFrameBytes :: nat
  MaxIngressFrameBytes :: nat
  SubprocessIPCKeyBytes :: nat
  SubprocessBootstrapPacketBytes :: nat
  SubprocessVersionOffset :: nat
  SubprocessTypeOffset :: nat
  SubprocessGenerationOffset :: nat
  SubprocessSequenceOffset :: nat
  SubprocessConnectionHandleOffset :: nat
  SubprocessCorrelationOffset :: nat
  SubprocessAssignmentExpiresOffset :: nat
  SubprocessAssignmentMACOffset :: nat
  SubprocessAssignmentPacketBytes :: nat
  SubprocessAssignmentACKStatusOffset :: nat
  SubprocessAssignmentACKMACOffset :: nat
  SubprocessAssignmentACKPacketBytes :: nat
  SubprocessVerifiedIngressPayloadOffset :: nat
  SubprocessConnectionOpenMACOffset :: nat
  SubprocessConnectionOpenPacketBytes :: nat
  SubprocessMACBytes :: nat
  MaxAuthenticatedPacketBytes :: nat
  MinSubprocessVerifiedIngressPacketBytes :: nat
  MaxSubprocessVerifiedIngressPacketBytes :: nat
  SubprocessFrameVersion :: u8
  SubprocessAssignment :: u8
  SubprocessAssignmentACK :: u8
  SubprocessVerifiedIngress :: u8
  SubprocessConnectionOpen :: u8
  SubprocessACKPositive :: u8
  SubprocessACKNegative :: u8
  AssignmentOK :: int
  AssignmentUnknownOrClosedHandle :: int
  AssignmentDuplicateHandleOrCorrelation :: int
  AssignmentInvalidOrExpiredTime :: int
  AssignmentWrongConnectionState :: int
  CallbackRegistrationOK :: int

type_synonym correlation = bytes

text \<open>
  What the Go code relies on: the header fields come first and do not overlap, the
  correlation fills the bytes up to the next field, every MAC is a SHA-256 tag at the end
  of its packet, and the codes the code tells apart differ.
\<close>

definition abi_ok :: "abi \<Rightarrow> bool" where
  "abi_ok A \<longleftrightarrow>
     0 < MaxIngressLifetime A \<and> MaxIngressLifetime A < max_duration \<and>
     0 < CorrelationBytes A \<and> 1 \<le> MinIngressFrameBytes A \<and> MinIngressFrameBytes A \<le> MaxIngressFrameBytes A \<and>
     SubprocessMACBytes A = 32 \<and>
     SubprocessBootstrapPacketBytes A = 9 + SubprocessIPCKeyBytes A \<and>
     SubprocessVersionOffset A \<noteq> SubprocessTypeOffset A \<and>
     SubprocessVersionOffset A < SubprocessGenerationOffset A \<and>
     SubprocessTypeOffset A < SubprocessGenerationOffset A \<and>
     SubprocessGenerationOffset A + 8 \<le> SubprocessSequenceOffset A \<and>
     SubprocessSequenceOffset A + 8 \<le> SubprocessConnectionHandleOffset A \<and>
     SubprocessConnectionHandleOffset A + 8 \<le> SubprocessCorrelationOffset A \<and>
     SubprocessConnectionHandleOffset A + 8 \<le> SubprocessConnectionOpenMACOffset A \<and>
     SubprocessConnectionHandleOffset A + 8 \<le> SubprocessVerifiedIngressPayloadOffset A \<and>
     SubprocessCorrelationOffset A + CorrelationBytes A = SubprocessAssignmentExpiresOffset A \<and>
     SubprocessCorrelationOffset A + CorrelationBytes A = SubprocessAssignmentACKStatusOffset A \<and>
     SubprocessAssignmentExpiresOffset A + 8 \<le> SubprocessAssignmentMACOffset A \<and>
     SubprocessAssignmentACKStatusOffset A < SubprocessAssignmentACKMACOffset A \<and>
     SubprocessAssignmentMACOffset A + SubprocessMACBytes A = SubprocessAssignmentPacketBytes A \<and>
     SubprocessAssignmentACKMACOffset A + SubprocessMACBytes A = SubprocessAssignmentACKPacketBytes A \<and>
     SubprocessConnectionOpenMACOffset A + SubprocessMACBytes A = SubprocessConnectionOpenPacketBytes A \<and>
     SubprocessVerifiedIngressPayloadOffset A + MinIngressFrameBytes A + SubprocessMACBytes A
       = MinSubprocessVerifiedIngressPacketBytes A \<and>
     SubprocessVerifiedIngressPayloadOffset A + MaxIngressFrameBytes A + SubprocessMACBytes A
       = MaxSubprocessVerifiedIngressPacketBytes A \<and>
     SubprocessConnectionOpenPacketBytes A \<le> SubprocessAssignmentPacketBytes A \<and>
     SubprocessConnectionOpenPacketBytes A \<le> SubprocessAssignmentACKPacketBytes A \<and>
     SubprocessConnectionOpenPacketBytes A \<le> MinSubprocessVerifiedIngressPacketBytes A \<and>
     SubprocessAssignmentPacketBytes A \<le> MaxAuthenticatedPacketBytes A \<and>
     SubprocessAssignmentACKPacketBytes A \<le> MaxAuthenticatedPacketBytes A \<and>
     MaxSubprocessVerifiedIngressPacketBytes A \<le> MaxAuthenticatedPacketBytes A \<and>
     distinct [SubprocessAssignment A, SubprocessAssignmentACK A,
       SubprocessVerifiedIngress A, SubprocessConnectionOpen A] \<and>
     SubprocessACKPositive A \<noteq> SubprocessACKNegative A \<and>
     AssignmentOK A \<notin> {AssignmentUnknownOrClosedHandle A, AssignmentDuplicateHandleOrCorrelation A,
       AssignmentInvalidOrExpiredTime A, AssignmentWrongConnectionState A, - (2 ^ 31)} \<and>
     - (2 ^ 31) \<notin> {AssignmentUnknownOrClosedHandle A, AssignmentDuplicateHandleOrCorrelation A,
       AssignmentInvalidOrExpiredTime A, AssignmentWrongConnectionState A}"

text \<open>
  The frozen layout has no gaps: the fields are contiguous from byte 0. Only the theorems
  that reconstruct a packet from its fields need this.
\<close>

definition abi_tight :: "abi \<Rightarrow> bool" where
  "abi_tight A \<longleftrightarrow>
     SubprocessVersionOffset A = 0 \<and> SubprocessTypeOffset A = 1 \<and>
     SubprocessGenerationOffset A = 2 \<and> SubprocessSequenceOffset A = 10 \<and>
     SubprocessConnectionHandleOffset A = 18 \<and> SubprocessCorrelationOffset A = 26 \<and>
     SubprocessConnectionOpenMACOffset A = 26 \<and> SubprocessVerifiedIngressPayloadOffset A = 26 \<and>
     SubprocessAssignmentExpiresOffset A + 8 = SubprocessAssignmentMACOffset A \<and>
     SubprocessAssignmentACKStatusOffset A + 1 = SubprocessAssignmentACKMACOffset A"

text \<open>The values the Java peer declares.\<close>

definition abi_v1 :: abi where
  "abi_v1 = \<lparr>
     MaxIngressLifetime = 5000 * millisecond,
     VerifiedIngressVersion = 1,
     CorrelationBytes = 16,
     MinIngressFrameBytes = 1,
     MaxIngressFrameBytes = 4096,
     SubprocessIPCKeyBytes = 32,
     SubprocessBootstrapPacketBytes = 41,
     SubprocessVersionOffset = 0,
     SubprocessTypeOffset = 1,
     SubprocessGenerationOffset = 2,
     SubprocessSequenceOffset = 10,
     SubprocessConnectionHandleOffset = 18,
     SubprocessCorrelationOffset = 26,
     SubprocessAssignmentExpiresOffset = 42,
     SubprocessAssignmentMACOffset = 50,
     SubprocessAssignmentPacketBytes = 82,
     SubprocessAssignmentACKStatusOffset = 42,
     SubprocessAssignmentACKMACOffset = 43,
     SubprocessAssignmentACKPacketBytes = 75,
     SubprocessVerifiedIngressPayloadOffset = 26,
     SubprocessConnectionOpenMACOffset = 26,
     SubprocessConnectionOpenPacketBytes = 58,
     SubprocessMACBytes = 32,
     MaxAuthenticatedPacketBytes = 8192,
     MinSubprocessVerifiedIngressPacketBytes = 59,
     MaxSubprocessVerifiedIngressPacketBytes = 4154,
     SubprocessFrameVersion = 1,
     SubprocessAssignment = 1,
     SubprocessAssignmentACK = 2,
     SubprocessVerifiedIngress = 3,
     SubprocessConnectionOpen = 4,
     SubprocessACKPositive = 0,
     SubprocessACKNegative = 1,
     AssignmentOK = 0,
     AssignmentUnknownOrClosedHandle = -1,
     AssignmentDuplicateHandleOrCorrelation = -2,
     AssignmentInvalidOrExpiredTime = -3,
     AssignmentWrongConnectionState = -4,
     CallbackRegistrationOK = 0\<rparr>"

lemma abi_v1_simps [simp]:
  "MaxIngressLifetime abi_v1 = 5000 * millisecond"
  "VerifiedIngressVersion abi_v1 = 1"
  "CorrelationBytes abi_v1 = 16"
  "MinIngressFrameBytes abi_v1 = 1"
  "MaxIngressFrameBytes abi_v1 = 4096"
  "SubprocessIPCKeyBytes abi_v1 = 32"
  "SubprocessBootstrapPacketBytes abi_v1 = 41"
  "SubprocessVersionOffset abi_v1 = 0"
  "SubprocessTypeOffset abi_v1 = 1"
  "SubprocessGenerationOffset abi_v1 = 2"
  "SubprocessSequenceOffset abi_v1 = 10"
  "SubprocessConnectionHandleOffset abi_v1 = 18"
  "SubprocessCorrelationOffset abi_v1 = 26"
  "SubprocessAssignmentExpiresOffset abi_v1 = 42"
  "SubprocessAssignmentMACOffset abi_v1 = 50"
  "SubprocessAssignmentPacketBytes abi_v1 = 82"
  "SubprocessAssignmentACKStatusOffset abi_v1 = 42"
  "SubprocessAssignmentACKMACOffset abi_v1 = 43"
  "SubprocessAssignmentACKPacketBytes abi_v1 = 75"
  "SubprocessVerifiedIngressPayloadOffset abi_v1 = 26"
  "SubprocessConnectionOpenMACOffset abi_v1 = 26"
  "SubprocessConnectionOpenPacketBytes abi_v1 = 58"
  "SubprocessMACBytes abi_v1 = 32"
  "MaxAuthenticatedPacketBytes abi_v1 = 8192"
  "MinSubprocessVerifiedIngressPacketBytes abi_v1 = 59"
  "MaxSubprocessVerifiedIngressPacketBytes abi_v1 = 4154"
  "SubprocessFrameVersion abi_v1 = 1"
  "SubprocessAssignment abi_v1 = 1"
  "SubprocessAssignmentACK abi_v1 = 2"
  "SubprocessVerifiedIngress abi_v1 = 3"
  "SubprocessConnectionOpen abi_v1 = 4"
  "SubprocessACKPositive abi_v1 = 0"
  "SubprocessACKNegative abi_v1 = 1"
  "AssignmentOK abi_v1 = 0"
  "AssignmentUnknownOrClosedHandle abi_v1 = -1"
  "AssignmentDuplicateHandleOrCorrelation abi_v1 = -2"
  "AssignmentInvalidOrExpiredTime abi_v1 = -3"
  "AssignmentWrongConnectionState abi_v1 = -4"
  "CallbackRegistrationOK abi_v1 = 0"
  by (simp_all add: abi_v1_def)

lemma abi_v1_ok: "abi_ok abi_v1"
  by (simp add: abi_ok_def)

lemma abi_v1_tight: "abi_tight abi_v1"
  by (simp add: abi_tight_def)

definition zero_correlation :: "abi \<Rightarrow> correlation" where
  "zero_correlation A = replicate (CorrelationBytes A) 0"

text \<open>
  The layout as an interface: the facts about field positions that the codec's proofs use,
  derived once from \<open>abi_ok\<close>.
\<close>

locale abi_layout =
  fixes A :: abi
  assumes ok: "abi_ok A"
begin

lemma mac_bytes: "SubprocessMACBytes A = 32"
  using ok by (simp add: abi_ok_def)

lemma header_before_body:
  "SubprocessConnectionHandleOffset A + 8 \<le> SubprocessConnectionOpenMACOffset A"
  "SubprocessConnectionHandleOffset A + 8 \<le> SubprocessVerifiedIngressPayloadOffset A"
  "SubprocessConnectionHandleOffset A + 8 \<le> SubprocessAssignmentMACOffset A"
  "SubprocessConnectionHandleOffset A + 8 \<le> SubprocessAssignmentACKMACOffset A"
  using ok unfolding abi_ok_def by (elim conjE; linarith)+

lemma header_fields:
  "SubprocessVersionOffset A \<noteq> SubprocessTypeOffset A"
  "SubprocessVersionOffset A < SubprocessGenerationOffset A"
  "SubprocessTypeOffset A < SubprocessGenerationOffset A"
  "SubprocessGenerationOffset A + 8 \<le> SubprocessSequenceOffset A"
  "SubprocessSequenceOffset A + 8 \<le> SubprocessConnectionHandleOffset A"
  using ok by (simp_all add: abi_ok_def)

lemma open_layout:
  "SubprocessConnectionOpenMACOffset A + 32 = SubprocessConnectionOpenPacketBytes A"
  "SubprocessConnectionOpenPacketBytes A \<le> MaxAuthenticatedPacketBytes A"
  using ok unfolding abi_ok_def by (elim conjE; linarith)+

lemma assignment_layout:
  "SubprocessConnectionHandleOffset A + 8 \<le> SubprocessCorrelationOffset A"
  "SubprocessCorrelationOffset A + CorrelationBytes A = SubprocessAssignmentExpiresOffset A"
  "SubprocessAssignmentExpiresOffset A + 8 \<le> SubprocessAssignmentMACOffset A"
  "SubprocessAssignmentMACOffset A + 32 = SubprocessAssignmentPacketBytes A"
  "SubprocessConnectionOpenPacketBytes A \<le> SubprocessAssignmentPacketBytes A"
  "SubprocessAssignmentPacketBytes A \<le> MaxAuthenticatedPacketBytes A"
  using ok unfolding abi_ok_def by (elim conjE; linarith)+

lemma ack_layout:
  "SubprocessConnectionHandleOffset A + 8 \<le> SubprocessCorrelationOffset A"
  "SubprocessCorrelationOffset A + CorrelationBytes A = SubprocessAssignmentACKStatusOffset A"
  "SubprocessAssignmentACKStatusOffset A < SubprocessAssignmentACKMACOffset A"
  "SubprocessAssignmentACKMACOffset A + 32 = SubprocessAssignmentACKPacketBytes A"
  "SubprocessConnectionOpenPacketBytes A \<le> SubprocessAssignmentACKPacketBytes A"
  "SubprocessAssignmentACKPacketBytes A \<le> MaxAuthenticatedPacketBytes A"
  using ok unfolding abi_ok_def by (elim conjE; linarith)+

lemma verified_layout:
  "SubprocessVerifiedIngressPayloadOffset A + MinIngressFrameBytes A + 32 = MinSubprocessVerifiedIngressPacketBytes A"
  "SubprocessVerifiedIngressPayloadOffset A + MaxIngressFrameBytes A + 32 = MaxSubprocessVerifiedIngressPacketBytes A"
  "SubprocessConnectionOpenPacketBytes A \<le> MinSubprocessVerifiedIngressPacketBytes A"
  "MaxSubprocessVerifiedIngressPacketBytes A \<le> MaxAuthenticatedPacketBytes A"
  using ok unfolding abi_ok_def by (elim conjE; linarith)+

lemma types_distinct:
  "distinct [SubprocessAssignment A, SubprocessAssignmentACK A,
     SubprocessVerifiedIngress A, SubprocessConnectionOpen A]"
  using ok by (simp add: abi_ok_def)

lemma lifetime_range: "0 < MaxIngressLifetime A" "MaxIngressLifetime A < max_duration"
  using ok by (simp_all add: abi_ok_def)

end

interpretation v1: abi_layout abi_v1
  by unfold_locales (rule abi_v1_ok)

section \<open>Errors and messages of ingress.go\<close>

datatype ingress_error =
    ErrIngressABI
  | ErrIngressAuthentication
  | ErrIngressClosed
  | ErrIngressDuplicate
  | ErrIngressFrame
  | ErrIngressGeneration
  | ErrIngressLifetime
  | ErrIngressMismatch
  | ErrIngressOverflow
  | ErrIngressRejected
  | ErrIngressSequence

record ConnectionOpen =
  co_generation :: u64
  co_handle :: u64

record ConnectionAssignment =
  ca_generation :: u64
  ca_handle :: u64
  ca_correlation :: correlation
  ca_expiresAt :: time

record VerifiedFrame =
  vf_generation :: u64
  vf_handle :: u64
  vf_correlation :: correlation
  vf_frame :: bytes
  vf_expiresAt :: time

text \<open>\<open>embeddedAssignmentTransportFailure\<close> of \<^verbatim>\<open>go/embedded_ingress.go\<close>.\<close>

definition embeddedAssignmentTransportFailure :: int where
  "embeddedAssignmentTransportFailure = -2147483648"

end
