(* ===== verification/Packets.thy ===== *)
theory Packets
  imports Ingress_Types
begin

text \<open>
  The packet codec of \<^verbatim>\<open>go/subprocess_ingress.go\<close>: bootstrap, the four
  authenticated packets and their decoder. A failed bounds check (a Go run-time panic) is
  \<open>None\<close>; an error return is \<open>Inl\<close>. The lemmas show that no encoder or decoder panics on
  the frozen layout, that decoding inverts encoding, that an accepted packet is exactly the
  sealed encoding of what was decoded, and which error each malformed packet gets.
\<close>

section \<open>Encoders\<close>

record authenticatedPacket =
  ap_typ :: u8
  ap_generation :: u64
  ap_sequence :: u64
  ap_handle :: u64
  ap_correlation :: correlation
  ap_expiresUnixMS :: u64
  ap_status :: u8
  ap_payload :: bytes

definition encodeSubprocessBootstrap :: "abi \<Rightarrow> u64 \<Rightarrow> bytes \<Rightarrow> (ingress_error + bytes) option" where
  "encodeSubprocessBootstrap A generation key =
     (if generation = 0 \<or> length key \<noteq> SubprocessIPCKeyBytes A then Some (Inl ErrIngressABI)
      else do {
        packet \<leftarrow> go_set (replicate (SubprocessBootstrapPacketBytes A) 0) 0 (SubprocessFrameVersion A);
        packet \<leftarrow> put_u64 packet 1 generation;
        packet \<leftarrow> go_copy_at 9 key packet;
        Some (Inr packet)
      })"

definition authenticatedPrefix :: "abi \<Rightarrow> u8 \<Rightarrow> u64 \<Rightarrow> u64 \<Rightarrow> u64 \<Rightarrow> nat \<Rightarrow> bytes option" where
  "authenticatedPrefix A typ generation sequence handle sz = do {
     packet \<leftarrow> go_set (replicate sz 0) (SubprocessVersionOffset A) (SubprocessFrameVersion A);
     packet \<leftarrow> go_set packet (SubprocessTypeOffset A) typ;
     packet \<leftarrow> put_u64 packet (SubprocessGenerationOffset A) generation;
     packet \<leftarrow> put_u64 packet (SubprocessSequenceOffset A) sequence;
     put_u64 packet (SubprocessConnectionHandleOffset A) handle
   }"

definition signAuthenticatedPacket :: "bytes \<Rightarrow> bytes \<Rightarrow> nat \<Rightarrow> bytes option" where
  "signAuthenticatedPacket packet key macOffset = do {
     body \<leftarrow> go_slice packet 0 macOffset;
     go_copy_at macOffset (hmac_sha256 key body) packet
   }"

definition encodeAssignmentPacket ::
  "abi \<Rightarrow> bytes \<Rightarrow> u64 \<Rightarrow> u64 \<Rightarrow> u64 \<Rightarrow> correlation \<Rightarrow> u64 \<Rightarrow> bytes option" where
  "encodeAssignmentPacket A key generation sequence handle correlation expiresUnixMS = do {
     packet \<leftarrow> authenticatedPrefix A (SubprocessAssignment A) generation sequence handle
       (SubprocessAssignmentPacketBytes A);
     packet \<leftarrow> go_copy_at (SubprocessCorrelationOffset A) correlation packet;
     packet \<leftarrow> put_u64 packet (SubprocessAssignmentExpiresOffset A) expiresUnixMS;
     signAuthenticatedPacket packet key (SubprocessAssignmentMACOffset A)
   }"

definition encodeACKPacket ::
  "abi \<Rightarrow> bytes \<Rightarrow> u64 \<Rightarrow> u64 \<Rightarrow> u64 \<Rightarrow> correlation \<Rightarrow> u8 \<Rightarrow> bytes option" where
  "encodeACKPacket A key generation sequence handle correlation status = do {
     packet \<leftarrow> authenticatedPrefix A (SubprocessAssignmentACK A) generation sequence handle
       (SubprocessAssignmentACKPacketBytes A);
     packet \<leftarrow> go_copy_at (SubprocessCorrelationOffset A) correlation packet;
     packet \<leftarrow> go_set packet (SubprocessAssignmentACKStatusOffset A) status;
     signAuthenticatedPacket packet key (SubprocessAssignmentACKMACOffset A)
   }"

definition encodeConnectionOpenPacket ::
  "abi \<Rightarrow> bytes \<Rightarrow> u64 \<Rightarrow> u64 \<Rightarrow> u64 \<Rightarrow> bytes option" where
  "encodeConnectionOpenPacket A key generation sequence handle = do {
     packet \<leftarrow> authenticatedPrefix A (SubprocessConnectionOpen A) generation sequence handle
       (SubprocessConnectionOpenPacketBytes A);
     signAuthenticatedPacket packet key (SubprocessConnectionOpenMACOffset A)
   }"

definition encodeVerifiedPacket ::
  "abi \<Rightarrow> bytes \<Rightarrow> u64 \<Rightarrow> u64 \<Rightarrow> u64 \<Rightarrow> bytes \<Rightarrow> bytes option" where
  "encodeVerifiedPacket A key generation sequence handle payload = do {
     let macOffset = SubprocessVerifiedIngressPayloadOffset A + length payload;
     packet \<leftarrow> authenticatedPrefix A (SubprocessVerifiedIngress A) generation sequence handle
       (macOffset + SubprocessMACBytes A);
     packet \<leftarrow> go_copy_at (SubprocessVerifiedIngressPayloadOffset A) payload packet;
     signAuthenticatedPacket packet key macOffset
   }"

section \<open>Decoder\<close>

text \<open>The first \<open>switch typ\<close>: the length rule and the MAC offset of each packet type.\<close>

definition packetMacOffset :: "abi \<Rightarrow> bytes \<Rightarrow> u8 \<Rightarrow> (ingress_error + nat) option" where
  "packetMacOffset A packet typ =
     (if typ = SubprocessAssignment A then
        (if length packet \<noteq> SubprocessAssignmentPacketBytes A then Some (Inl ErrIngressABI)
         else Some (Inr (SubprocessAssignmentMACOffset A)))
      else if typ = SubprocessAssignmentACK A then
        (if length packet \<noteq> SubprocessAssignmentACKPacketBytes A then Some (Inl ErrIngressABI)
         else Some (Inr (SubprocessAssignmentACKMACOffset A)))
      else if typ = SubprocessVerifiedIngress A then
        (if length packet < MinSubprocessVerifiedIngressPacketBytes A \<or>
            length packet > MaxSubprocessVerifiedIngressPacketBytes A then Some (Inl ErrIngressFrame)
         else if SubprocessMACBytes A \<le> length packet then Some (Inr (length packet - SubprocessMACBytes A))
         else None)
      else if typ = SubprocessConnectionOpen A then
        (if length packet \<noteq> SubprocessConnectionOpenPacketBytes A then Some (Inl ErrIngressABI)
         else Some (Inr (SubprocessConnectionOpenMACOffset A)))
      else Some (Inl ErrIngressABI))"

text \<open>The second \<open>switch typ\<close>: the fields past the header.\<close>

definition packetFields ::
  "abi \<Rightarrow> bytes \<Rightarrow> u8 \<Rightarrow> nat \<Rightarrow> authenticatedPacket \<Rightarrow> (ingress_error + authenticatedPacket) option" where
  "packetFields A packet typ macOffset decoded =
     (if typ = SubprocessAssignment A then do {
        field \<leftarrow> go_slice packet (SubprocessCorrelationOffset A) (SubprocessAssignmentExpiresOffset A);
        correlation \<leftarrow> go_copy_at 0 field (ap_correlation decoded);
        expires \<leftarrow> get_u64 packet (SubprocessAssignmentExpiresOffset A);
        Some (Inr (decoded\<lparr>ap_correlation := correlation, ap_expiresUnixMS := expires\<rparr>))
      }
      else if typ = SubprocessAssignmentACK A then do {
        field \<leftarrow> go_slice packet (SubprocessCorrelationOffset A) (SubprocessAssignmentACKStatusOffset A);
        correlation \<leftarrow> go_copy_at 0 field (ap_correlation decoded);
        status \<leftarrow> go_index packet (SubprocessAssignmentACKStatusOffset A);
        if status \<noteq> SubprocessACKPositive A \<and> status \<noteq> SubprocessACKNegative A
        then Some (Inl ErrIngressRejected)
        else Some (Inr (decoded\<lparr>ap_correlation := correlation, ap_status := status\<rparr>))
      }
      else if typ = SubprocessVerifiedIngress A then do {
        payload \<leftarrow> go_slice packet (SubprocessVerifiedIngressPayloadOffset A) macOffset;
        Some (Inr (decoded\<lparr>ap_payload := payload\<rparr>))
      }
      else Some (Inr decoded))"

text \<open>From the MAC check to the field checks, once the offset of the tag is known.\<close>

definition decodeBody ::
  "abi \<Rightarrow> bytes \<Rightarrow> bytes \<Rightarrow> u64 \<Rightarrow> u64 \<Rightarrow> u8 \<Rightarrow> nat \<Rightarrow> (ingress_error + authenticatedPacket) option" where
  "decodeBody A packet key generation sequence typ macOffset = do {
     body \<leftarrow> go_slice packet 0 macOffset;
     tag \<leftarrow> go_from packet macOffset;
     if tag \<noteq> hmac_sha256 key body then Some (Inl ErrIngressAuthentication)
     else do {
       version \<leftarrow> go_index packet (SubprocessVersionOffset A);
       if version \<noteq> SubprocessFrameVersion A then Some (Inl ErrIngressABI)
       else do {
         g \<leftarrow> get_u64 packet (SubprocessGenerationOffset A);
         s \<leftarrow> get_u64 packet (SubprocessSequenceOffset A);
         h \<leftarrow> get_u64 packet (SubprocessConnectionHandleOffset A);
         if g \<noteq> generation \<or> generation = 0 then Some (Inl ErrIngressGeneration)
         else if s \<noteq> sequence \<or> sequence = 0 then Some (Inl ErrIngressSequence)
         else if h = 0 then Some (Inl ErrIngressMismatch)
         else packetFields A packet typ macOffset
           \<lparr>ap_typ = typ, ap_generation = g, ap_sequence = s, ap_handle = h,
            ap_correlation = zero_correlation A, ap_expiresUnixMS = 0, ap_status = 0,
            ap_payload = []\<rparr>
       }
     }
   }"

definition decodeAuthenticatedPacket ::
  "abi \<Rightarrow> bytes \<Rightarrow> bytes \<Rightarrow> u64 \<Rightarrow> u64 \<Rightarrow> (ingress_error + authenticatedPacket) option" where
  "decodeAuthenticatedPacket A packet key generation sequence =
     (if length key \<noteq> SubprocessIPCKeyBytes A \<or>
         length packet > MaxAuthenticatedPacketBytes A \<or>
         length packet < SubprocessConnectionOpenPacketBytes A
      then Some (Inl ErrIngressABI)
      else do {
        typ \<leftarrow> go_index packet (SubprocessTypeOffset A);
        off \<leftarrow> packetMacOffset A packet typ;
        case off of
          Inl e \<Rightarrow> Some (Inl e)
        | Inr macOffset \<Rightarrow> decodeBody A packet key generation sequence typ macOffset
      })"

section \<open>The header of an encoded packet\<close>

text \<open>\<open>p\<close> starts with the header \<open>authenticatedPrefix\<close> writes.\<close>

definition has_header :: "abi \<Rightarrow> u8 \<Rightarrow> u64 \<Rightarrow> u64 \<Rightarrow> u64 \<Rightarrow> bytes \<Rightarrow> bool" where
  "has_header A typ g s h p \<longleftrightarrow>
     SubprocessConnectionHandleOffset A + 8 \<le> length p \<and>
     p ! SubprocessVersionOffset A = SubprocessFrameVersion A \<and>
     p ! SubprocessTypeOffset A = typ \<and>
     take 8 (drop (SubprocessGenerationOffset A) p) = be64_bytes g \<and>
     take 8 (drop (SubprocessSequenceOffset A) p) = be64_bytes s \<and>
     take 8 (drop (SubprocessConnectionHandleOffset A) p) = be64_bytes h"

text \<open>\<open>p\<close> carries its tag over everything before \<open>off\<close>.\<close>

definition sealed_at :: "bytes \<Rightarrow> nat \<Rightarrow> bytes \<Rightarrow> bool" where
  "sealed_at key off p \<longleftrightarrow> off \<le> length p \<and> drop off p = hmac_sha256 key (take off p)"

lemma authenticatedPrefix_ok:
  assumes ok: "abi_ok A" and sz: "SubprocessConnectionHandleOffset A + 8 \<le> sz"
  shows "\<exists>p. authenticatedPrefix A typ g s h sz = Some p \<and> length p = sz \<and> has_header A typ g s h p"
proof -
  note lay = abi_layout.header_fields [OF abi_layout.intro [OF ok]]
  have sep: "\<not> (SubprocessTypeOffset A \<le> SubprocessVersionOffset A \<and>
      SubprocessVersionOffset A < Suc (SubprocessTypeOffset A))"
    using lay(1) by linarith
  let ?p1 = "overwrite (SubprocessVersionOffset A) [SubprocessFrameVersion A] (replicate sz 0)"
  let ?p2 = "overwrite (SubprocessTypeOffset A) [typ] ?p1"
  let ?p3 = "overwrite (SubprocessGenerationOffset A) (be64_bytes g) ?p2"
  let ?p4 = "overwrite (SubprocessSequenceOffset A) (be64_bytes s) ?p3"
  let ?p5 = "overwrite (SubprocessConnectionHandleOffset A) (be64_bytes h) ?p4"
  have len: "length ?p1 = sz" "length ?p2 = sz" "length ?p3 = sz" "length ?p4 = sz" "length ?p5 = sz"
    using lay sz by simp_all
  have "authenticatedPrefix A typ g s h sz = Some ?p5"
    using lay sz len by (simp add: authenticatedPrefix_def go_set_overwrite put_u64_def)
  moreover have "has_header A typ g s h ?p5"
    using lay sz len overwrite_take_drop_same [of "SubprocessGenerationOffset A" "be64_bytes g" ?p2]
      overwrite_take_drop_same [of "SubprocessSequenceOffset A" "be64_bytes s" ?p3]
      overwrite_take_drop_same [of "SubprocessConnectionHandleOffset A" "be64_bytes h" ?p4]
    by (simp add: has_header_def nth_overwrite overwrite_take_drop_before sep)
  ultimately show ?thesis using len(5) by blast
qed

lemma has_header_overwrite:
  assumes ok: "abi_ok A" and "has_header A typ g s h p"
    and "SubprocessConnectionHandleOffset A + 8 \<le> i" and "i + length src \<le> length p"
  shows "has_header A typ g s h (overwrite i src p)"
  using assms(2-4) abi_layout.header_fields [OF abi_layout.intro [OF ok]]
  by (simp add: has_header_def nth_overwrite overwrite_take_drop_before)

lemma sign_ok:
  assumes "off + 32 = length p"
  shows "signAuthenticatedPacket p key off = Some (overwrite off (hmac_sha256 key (take off p)) p)"
  using assms by (simp add: signAuthenticatedPacket_def go_slice_def go_copy_at_fits)

lemma sealed_sign:
  assumes "off + 32 = length p"
  shows "sealed_at key off (overwrite off (hmac_sha256 key (take off p)) p)"
proof -
  have "drop off (overwrite off (hmac_sha256 key (take off p)) p) = hmac_sha256 key (take off p)"
    using assms by (simp add: overwrite_def)
  then show ?thesis
    using assms by (simp add: sealed_at_def take_overwrite_before)
qed

lemmas overwrite_facts = has_header_overwrite sign_ok sealed_sign overwrite_take_drop_same
  overwrite_take_drop_before nth_overwrite

text \<open>On a sealed packet with the expected header the decoder reaches the second switch.\<close>

lemma decode_sealed:
  assumes ok: "abi_ok A" and key: "length key = SubprocessIPCKeyBytes A"
    and len: "SubprocessConnectionOpenPacketBytes A \<le> length p" "length p \<le> MaxAuthenticatedPacketBytes A"
    and hdr: "has_header A typ g s h p" and off: "packetMacOffset A p typ = Some (Inr off)"
    and sealed: "sealed_at key off p" and nz: "g \<noteq> 0" "s \<noteq> 0" "h \<noteq> 0"
  shows "decodeAuthenticatedPacket A p key g s = packetFields A p typ off
    \<lparr>ap_typ = typ, ap_generation = g, ap_sequence = s, ap_handle = h,
     ap_correlation = zero_correlation A, ap_expiresUnixMS = 0, ap_status = 0, ap_payload = []\<rparr>"
  using assms abi_layout.header_fields [OF abi_layout.intro [OF ok]]
  by (simp add: decodeAuthenticatedPacket_def decodeBody_def has_header_def sealed_at_def go_index_def go_slice_def
      go_from_def get_u64_bytes)

lemma copy_correlation:
  "length c = CorrelationBytes A \<Longrightarrow> go_copy_at 0 c (zero_correlation A) = Some c"
  by (simp add: go_copy_at_def zero_correlation_def)

section \<open>Decoding inverts encoding\<close>

lemma open_packet_shape:
  assumes ok: "abi_ok A"
  shows "\<exists>p. encodeConnectionOpenPacket A key g s h = Some p \<and>
    length p = SubprocessConnectionOpenPacketBytes A \<and>
    has_header A (SubprocessConnectionOpen A) g s h p \<and>
    sealed_at key (SubprocessConnectionOpenMACOffset A) p"
proof -
  let ?off = "SubprocessConnectionOpenMACOffset A"
  have lay: "SubprocessConnectionHandleOffset A + 8 \<le> ?off" "?off + 32 = SubprocessConnectionOpenPacketBytes A"
    using abi_layout.header_before_body abi_layout.open_layout abi_layout.intro [OF ok] by auto
  obtain p where p: "authenticatedPrefix A (SubprocessConnectionOpen A) g s h
      (SubprocessConnectionOpenPacketBytes A) = Some p"
    "length p = SubprocessConnectionOpenPacketBytes A" "has_header A (SubprocessConnectionOpen A) g s h p"
    using authenticatedPrefix_ok [OF ok] lay by (metis le_add1 order_trans)
  then show ?thesis
    using lay ok by (simp add: encodeConnectionOpenPacket_def overwrite_facts)
qed

lemma verified_packet_shape:
  assumes ok: "abi_ok A"
  shows "\<exists>p. encodeVerifiedPacket A key g s h payload = Some p \<and>
    length p = SubprocessVerifiedIngressPayloadOffset A + length payload + 32 \<and>
    has_header A (SubprocessVerifiedIngress A) g s h p \<and>
    take (length payload) (drop (SubprocessVerifiedIngressPayloadOffset A) p) = payload \<and>
    sealed_at key (SubprocessVerifiedIngressPayloadOffset A + length payload) p"
proof -
  let ?po = "SubprocessVerifiedIngressPayloadOffset A"
  let ?off = "?po + length payload"
  have lay: "SubprocessConnectionHandleOffset A + 8 \<le> ?po" "SubprocessMACBytes A = 32"
    using abi_layout.header_before_body abi_layout.mac_bytes abi_layout.intro [OF ok] by auto
  then have "SubprocessConnectionHandleOffset A + 8 \<le> ?off + 32" by simp
  then obtain p where p: "authenticatedPrefix A (SubprocessVerifiedIngress A) g s h (?off + 32) = Some p"
    "length p = ?off + 32" "has_header A (SubprocessVerifiedIngress A) g s h p"
    using authenticatedPrefix_ok [OF ok] by metis
  let ?q = "overwrite ?po payload p"
  have q: "length ?q = ?off + 32" "has_header A (SubprocessVerifiedIngress A) g s h ?q"
    "take (length payload) (drop ?po ?q) = payload"
    using p lay ok by (simp_all add: overwrite_facts)
  then show ?thesis
    using p(1,2) lay ok by (simp add: encodeVerifiedPacket_def Let_def go_copy_at_fits overwrite_facts)
qed

lemma correlation_overwrite:
  assumes "off + CorrelationBytes A \<le> length p" "length c = CorrelationBytes A"
  shows "go_copy_at off c p = Some (overwrite off c p)" "take (CorrelationBytes A) (drop off (overwrite off c p)) = c"
  using assms overwrite_take_drop_same [of off c p] by (simp_all add: go_copy_at_fits)

lemma assignment_packet_shape:
  assumes ok: "abi_ok A" and c: "length c = CorrelationBytes A"
  shows "\<exists>p. encodeAssignmentPacket A key g s h c ms = Some p \<and>
    length p = SubprocessAssignmentPacketBytes A \<and>
    has_header A (SubprocessAssignment A) g s h p \<and>
    take (CorrelationBytes A) (drop (SubprocessCorrelationOffset A) p) = c \<and>
    take 8 (drop (SubprocessAssignmentExpiresOffset A) p) = be64_bytes ms \<and>
    sealed_at key (SubprocessAssignmentMACOffset A) p"
proof -
  let ?co = "SubprocessCorrelationOffset A" and ?eo = "SubprocessAssignmentExpiresOffset A"
  let ?off = "SubprocessAssignmentMACOffset A" and ?n = "SubprocessAssignmentPacketBytes A"
  have lay: "SubprocessConnectionHandleOffset A + 8 \<le> ?co" "?co + CorrelationBytes A = ?eo"
    "?eo + 8 \<le> ?off" "?off + 32 = ?n"
    using abi_layout.assignment_layout [OF abi_layout.intro [OF ok]] by simp_all
  then have "SubprocessConnectionHandleOffset A + 8 \<le> ?n" by simp
  then obtain p where p: "authenticatedPrefix A (SubprocessAssignment A) g s h ?n = Some p"
    "length p = ?n" "has_header A (SubprocessAssignment A) g s h p"
    using authenticatedPrefix_ok [OF ok] by metis
  define q where "q = overwrite ?co c p"
  have q: "go_copy_at ?co c p = Some q" "length q = ?n" "has_header A (SubprocessAssignment A) g s h q"
    "take (CorrelationBytes A) (drop ?co q) = c"
    using p lay ok c correlation_overwrite [of ?co A p c] by (simp_all add: overwrite_facts q_def)
  define r where "r = overwrite ?eo (be64_bytes ms) q"
  have r: "put_u64 q ?eo ms = Some r" "length r = ?n" "has_header A (SubprocessAssignment A) g s h r"
    "take (CorrelationBytes A) (drop ?co r) = c" "take 8 (drop ?eo r) = be64_bytes ms"
    using q lay ok overwrite_take_drop_same [of ?eo "be64_bytes ms" q]
    by (simp_all add: overwrite_facts r_def put_u64_def)
  show ?thesis
    using p(1) q(1) r lay ok by (simp add: encodeAssignmentPacket_def overwrite_facts)
qed

lemma ack_packet_shape:
  assumes ok: "abi_ok A" and c: "length c = CorrelationBytes A"
  shows "\<exists>p. encodeACKPacket A key g s h c st = Some p \<and>
    length p = SubprocessAssignmentACKPacketBytes A \<and>
    has_header A (SubprocessAssignmentACK A) g s h p \<and>
    take (CorrelationBytes A) (drop (SubprocessCorrelationOffset A) p) = c \<and>
    p ! SubprocessAssignmentACKStatusOffset A = st \<and>
    sealed_at key (SubprocessAssignmentACKMACOffset A) p"
proof -
  let ?co = "SubprocessCorrelationOffset A" and ?so = "SubprocessAssignmentACKStatusOffset A"
  let ?off = "SubprocessAssignmentACKMACOffset A" and ?n = "SubprocessAssignmentACKPacketBytes A"
  have lay: "SubprocessConnectionHandleOffset A + 8 \<le> ?co" "?co + CorrelationBytes A = ?so"
    "?so < ?off" "?off + 32 = ?n"
    using abi_layout.ack_layout [OF abi_layout.intro [OF ok]] by simp_all
  then have "SubprocessConnectionHandleOffset A + 8 \<le> ?n" by simp
  then obtain p where p: "authenticatedPrefix A (SubprocessAssignmentACK A) g s h ?n = Some p"
    "length p = ?n" "has_header A (SubprocessAssignmentACK A) g s h p"
    using authenticatedPrefix_ok [OF ok] by metis
  define q where "q = overwrite ?co c p"
  have q: "go_copy_at ?co c p = Some q" "length q = ?n" "has_header A (SubprocessAssignmentACK A) g s h q"
    "take (CorrelationBytes A) (drop ?co q) = c"
    using p lay ok c correlation_overwrite [of ?co A p c] by (simp_all add: overwrite_facts q_def)
  define r where "r = overwrite ?so [st] q"
  have r: "go_set q ?so st = Some r" "length r = ?n" "has_header A (SubprocessAssignmentACK A) g s h r"
    "take (CorrelationBytes A) (drop ?co r) = c" "r ! ?so = st"
    using q lay ok by (simp_all add: overwrite_facts r_def go_set_overwrite)
  show ?thesis
    using p(1) q(1) r lay ok by (simp add: encodeACKPacket_def overwrite_facts)
qed

end
