(* ===== verification/Packets_Correct.thy ===== *)
theory Packets_Correct
  imports Packets
begin

text \<open>
  The theorems about the packet codec. On the contiguous layout every encoder is the
  concatenation of its fields followed by the tag, so the decoder can be characterised
  exactly: it accepts a packet with a result if and only if the packet is the encoding of
  that result and the result is a well-formed message for the expected generation and
  sequence number.
\<close>

section \<open>Closed forms on the contiguous layout\<close>

definition header_bytes :: "abi \<Rightarrow> u8 \<Rightarrow> u64 \<Rightarrow> u64 \<Rightarrow> u64 \<Rightarrow> bytes" where
  "header_bytes A typ g s h =
     SubprocessFrameVersion A # typ # be64_bytes g @ be64_bytes s @ be64_bytes h"

lemma length_header_bytes [simp]: "length (header_bytes A typ g s h) = 26"
  by (simp add: header_bytes_def)

lemma header_split:
  assumes "abi_tight A"
  shows "has_header A typ g s h p \<longleftrightarrow> (\<exists>body. p = header_bytes A typ g s h @ body)"
proof
  assume hdr: "has_header A typ g s h p"
  then have len: "26 \<le> length p"
    using assms by (simp add: has_header_def abi_tight_def)
  have "take 26 p = take 2 p @ take 8 (drop 2 p) @ take 8 (drop 10 p) @ take 8 (drop 18 p)"
    by (simp add: take_add [of 2 24 p, simplified] take_add [of 8 16 "drop 2 p", simplified]
        take_add [of 8 8 "drop 10 p", simplified])
  moreover have "take 2 p = [p ! 0, p ! 1]"
    using len by (cases p; cases "tl p") auto
  ultimately have "take 26 p = header_bytes A typ g s h"
    using hdr assms by (simp add: has_header_def abi_tight_def header_bytes_def)
  then show "\<exists>body. p = header_bytes A typ g s h @ body"
    by (metis append_take_drop_id)
next
  assume "\<exists>body. p = header_bytes A typ g s h @ body"
  then show "has_header A typ g s h p"
    using assms by (auto simp: has_header_def abi_tight_def header_bytes_def)
qed

text \<open>A sealed packet is its body followed by the body's tag.\<close>

lemma sealed_at_iff:
  assumes "off + 32 = length p"
  shows "sealed_at key off p \<longleftrightarrow> (\<exists>m. length m = off \<and> p = m @ hmac_sha256 key m)"
  using hm.check_iff_sealed [of off p key] assms by (simp add: sealed_at_def)

lemma get_u64_take8: "get_u64 p i = Some v \<Longrightarrow> take 8 (drop i p) = be64_bytes v"
  using be64_val_bytes [of "take 8 (drop i p)" v] by (simp add: get_u64_take_drop)

text \<open>What a successful decode has established.\<close>

lemma decode_success:
  assumes dec: "decodeAuthenticatedPacket A p key g s = Some (Inr d)"
    and lay: "SubprocessConnectionHandleOffset A + 8 \<le> length p"
  obtains ty off h where
    "length key = SubprocessIPCKeyBytes A" "packetMacOffset A p ty = Some (Inr off)"
    "sealed_at key off p" "has_header A ty g s h p" "g \<noteq> 0" "s \<noteq> 0" "h \<noteq> 0"
    "packetFields A p ty off
      \<lparr>ap_typ = ty, ap_generation = g, ap_sequence = s, ap_handle = h,
       ap_correlation = zero_correlation A, ap_expiresUnixMS = 0, ap_status = 0, ap_payload = []\<rparr>
      = Some (Inr d)"
proof -
  from dec obtain ty res where ty: "length key = SubprocessIPCKeyBytes A"
      "go_index p (SubprocessTypeOffset A) = Some ty" "packetMacOffset A p ty = Some res"
    and rest: "(case res of Inl e \<Rightarrow> Some (Inl e) | Inr off \<Rightarrow> decodeBody A p key g s ty off) = Some (Inr d)"
    by (auto simp: decodeAuthenticatedPacket_def decodeBody_def bind_eq_Some_conv split: if_splits)
  from rest obtain off where res: "res = Inr off" and body: "decodeBody A p key g s ty off = Some (Inr d)"
    by (cases res) auto
  from body obtain h where h: "sealed_at key off p" "p ! SubprocessVersionOffset A = SubprocessFrameVersion A"
      "get_u64 p (SubprocessGenerationOffset A) = Some g" "get_u64 p (SubprocessSequenceOffset A) = Some s"
      "get_u64 p (SubprocessConnectionHandleOffset A) = Some h" "g \<noteq> 0" "s \<noteq> 0" "h \<noteq> 0"
      "packetFields A p ty off
        \<lparr>ap_typ = ty, ap_generation = g, ap_sequence = s, ap_handle = h,
         ap_correlation = zero_correlation A, ap_expiresUnixMS = 0, ap_status = 0, ap_payload = []\<rparr>
        = Some (Inr d)"
    by (auto simp: decodeBody_def bind_eq_Some_conv sealed_at_def go_slice_def go_from_def go_index_def
        split: if_splits)
  have "has_header A ty g s h p"
    using ty(2) h lay by (auto simp: has_header_def go_index_def get_u64_take8 split: if_splits)
  with ty res h show thesis by (intro that) auto
qed

lemma same_body_same_packet:
  "sealed_at key off p \<Longrightarrow> sealed_at key off q \<Longrightarrow> take off p = take off q \<Longrightarrow> p = q"
  by (metis append_take_drop_id sealed_at_def)

section \<open>The decoder accepts exactly the encodings\<close>

definition reencode :: "abi \<Rightarrow> bytes \<Rightarrow> authenticatedPacket \<Rightarrow> bytes option" where
  "reencode A key d =
     (if ap_typ d = SubprocessAssignment A then
        encodeAssignmentPacket A key (ap_generation d) (ap_sequence d) (ap_handle d)
          (ap_correlation d) (ap_expiresUnixMS d)
      else if ap_typ d = SubprocessAssignmentACK A then
        encodeACKPacket A key (ap_generation d) (ap_sequence d) (ap_handle d)
          (ap_correlation d) (ap_status d)
      else if ap_typ d = SubprocessVerifiedIngress A then
        encodeVerifiedPacket A key (ap_generation d) (ap_sequence d) (ap_handle d) (ap_payload d)
      else encodeConnectionOpenPacket A key (ap_generation d) (ap_sequence d) (ap_handle d))"

text \<open>The messages the decoder can return for a generation and a sequence number.\<close>

definition wf_packet :: "abi \<Rightarrow> u64 \<Rightarrow> u64 \<Rightarrow> authenticatedPacket \<Rightarrow> bool" where
  "wf_packet A g s d \<longleftrightarrow>
     ap_generation d = g \<and> g \<noteq> 0 \<and> ap_sequence d = s \<and> s \<noteq> 0 \<and> ap_handle d \<noteq> 0 \<and>
     (if ap_typ d = SubprocessAssignment A then
        length (ap_correlation d) = CorrelationBytes A \<and> ap_status d = 0 \<and> ap_payload d = []
      else if ap_typ d = SubprocessAssignmentACK A then
        length (ap_correlation d) = CorrelationBytes A \<and> ap_expiresUnixMS d = 0 \<and> ap_payload d = [] \<and>
        ap_status d \<in> {SubprocessACKPositive A, SubprocessACKNegative A}
      else if ap_typ d = SubprocessVerifiedIngress A then
        ap_correlation d = zero_correlation A \<and> ap_expiresUnixMS d = 0 \<and> ap_status d = 0 \<and>
        MinIngressFrameBytes A \<le> length (ap_payload d) \<and> length (ap_payload d) \<le> MaxIngressFrameBytes A
      else ap_typ d = SubprocessConnectionOpen A \<and>
        ap_correlation d = zero_correlation A \<and> ap_expiresUnixMS d = 0 \<and> ap_status d = 0 \<and>
        ap_payload d = [])"

lemma decode_open_packet:
  assumes ok: "abi_ok A" and key: "length key = SubprocessIPCKeyBytes A"
    and wf: "wf_packet A g s d" and ty: "ap_typ d = SubprocessConnectionOpen A"
    and enc: "encodeConnectionOpenPacket A key g s (ap_handle d) = Some p"
  shows "decodeAuthenticatedPacket A p key g s = Some (Inr d)"
proof -
  note td = abi_layout.types_distinct [OF abi_layout.intro [OF ok]]
  have p: "length p = SubprocessConnectionOpenPacketBytes A"
    "has_header A (SubprocessConnectionOpen A) g s (ap_handle d) p"
    "sealed_at key (SubprocessConnectionOpenMACOffset A) p"
    using open_packet_shape [OF ok, of key g s "ap_handle d"] enc by auto
  have off: "packetMacOffset A p (SubprocessConnectionOpen A) = Some (Inr (SubprocessConnectionOpenMACOffset A))"
    using p(1) td by (auto simp: packetMacOffset_def)
  show ?thesis
    using decode_sealed [OF ok key _ _ p(2) off p(3)] wf ty td p(1)
      abi_layout.open_layout [OF abi_layout.intro [OF ok]]
    by (auto simp: wf_packet_def packetFields_def)
qed

lemma decode_verified_packet:
  assumes ok: "abi_ok A" and key: "length key = SubprocessIPCKeyBytes A"
    and wf: "wf_packet A g s d" and ty: "ap_typ d = SubprocessVerifiedIngress A"
    and enc: "encodeVerifiedPacket A key g s (ap_handle d) (ap_payload d) = Some p"
  shows "decodeAuthenticatedPacket A p key g s = Some (Inr d)"
proof -
  note lo = abi_layout.intro [OF ok]
  note td = abi_layout.types_distinct [OF lo]
  let ?po = "SubprocessVerifiedIngressPayloadOffset A" and ?pl = "ap_payload d"
  have p: "length p = ?po + length ?pl + 32"
    "has_header A (SubprocessVerifiedIngress A) g s (ap_handle d) p"
    "take (length ?pl) (drop ?po p) = ?pl" "sealed_at key (?po + length ?pl) p"
    using verified_packet_shape [OF ok, of key g s "ap_handle d" ?pl] enc by auto
  have pl: "MinIngressFrameBytes A \<le> length ?pl" "length ?pl \<le> MaxIngressFrameBytes A"
    using wf ty td by (auto simp: wf_packet_def)
  have off: "packetMacOffset A p (SubprocessVerifiedIngress A) = Some (Inr (?po + length ?pl))"
    using p(1) td pl abi_layout.verified_layout [OF lo] abi_layout.mac_bytes [OF lo]
    by (auto simp: packetMacOffset_def)
  show ?thesis
    using decode_sealed [OF ok key _ _ p(2) off p(4)] wf ty td p(1,3) pl
      abi_layout.verified_layout [OF lo]
    by (auto simp: wf_packet_def packetFields_def go_slice_def)
qed

lemma decode_assignment_packet:
  assumes ok: "abi_ok A" and key: "length key = SubprocessIPCKeyBytes A"
    and wf: "wf_packet A g s d" and ty: "ap_typ d = SubprocessAssignment A"
    and enc: "encodeAssignmentPacket A key g s (ap_handle d) (ap_correlation d) (ap_expiresUnixMS d) = Some p"
  shows "decodeAuthenticatedPacket A p key g s = Some (Inr d)"
proof -
  note lo = abi_layout.intro [OF ok]
  note td = abi_layout.types_distinct [OF lo] and lay = abi_layout.assignment_layout [OF lo]
  have c: "length (ap_correlation d) = CorrelationBytes A"
    using wf ty by (simp add: wf_packet_def)
  have p: "length p = SubprocessAssignmentPacketBytes A"
    "has_header A (SubprocessAssignment A) g s (ap_handle d) p"
    "take (CorrelationBytes A) (drop (SubprocessCorrelationOffset A) p) = ap_correlation d"
    "take 8 (drop (SubprocessAssignmentExpiresOffset A) p) = be64_bytes (ap_expiresUnixMS d)"
    "sealed_at key (SubprocessAssignmentMACOffset A) p"
    using assignment_packet_shape [OF ok c, of key g s "ap_handle d" "ap_expiresUnixMS d"] enc by auto
  have off: "packetMacOffset A p (SubprocessAssignment A) = Some (Inr (SubprocessAssignmentMACOffset A))"
    using p(1) by (simp add: packetMacOffset_def)
  have slice: "go_slice p (SubprocessCorrelationOffset A) (SubprocessAssignmentExpiresOffset A)
      = Some (ap_correlation d)"
    using p(1,3) lay by (simp add: go_slice_def flip: lay(2))
  show ?thesis
    using decode_sealed [OF ok key _ _ p(2) off p(5)] wf ty p(1) lay slice c
    by (auto simp: wf_packet_def packetFields_def copy_correlation get_u64_bytes [OF p(4)])
qed

lemma decode_ack_packet:
  assumes ok: "abi_ok A" and key: "length key = SubprocessIPCKeyBytes A"
    and wf: "wf_packet A g s d" and ty: "ap_typ d = SubprocessAssignmentACK A"
    and enc: "encodeACKPacket A key g s (ap_handle d) (ap_correlation d) (ap_status d) = Some p"
  shows "decodeAuthenticatedPacket A p key g s = Some (Inr d)"
proof -
  note lo = abi_layout.intro [OF ok]
  note td = abi_layout.types_distinct [OF lo] and lay = abi_layout.ack_layout [OF lo]
  have c: "length (ap_correlation d) = CorrelationBytes A"
    using wf ty td by (auto simp: wf_packet_def)
  have p: "length p = SubprocessAssignmentACKPacketBytes A"
    "has_header A (SubprocessAssignmentACK A) g s (ap_handle d) p"
    "take (CorrelationBytes A) (drop (SubprocessCorrelationOffset A) p) = ap_correlation d"
    "p ! SubprocessAssignmentACKStatusOffset A = ap_status d"
    "sealed_at key (SubprocessAssignmentACKMACOffset A) p"
    using ack_packet_shape [OF ok c, of key g s "ap_handle d" "ap_status d"] enc by auto
  have off: "packetMacOffset A p (SubprocessAssignmentACK A) = Some (Inr (SubprocessAssignmentACKMACOffset A))"
    using p(1) td by (auto simp: packetMacOffset_def)
  have slice: "go_slice p (SubprocessCorrelationOffset A) (SubprocessAssignmentACKStatusOffset A)
      = Some (ap_correlation d)"
    using p(1,3) lay by (simp add: go_slice_def flip: lay(2))
  show ?thesis
    using decode_sealed [OF ok key _ _ p(2) off p(5)] wf ty p(1,4) lay slice c td
    by (auto simp: wf_packet_def packetFields_def copy_correlation go_index_def)
qed

lemma decode_length:
  assumes "decodeAuthenticatedPacket A p key g s = Some (Inr d)"
  shows "SubprocessConnectionOpenPacketBytes A \<le> length p" "length key = SubprocessIPCKeyBytes A"
  using assms by (auto simp: decodeAuthenticatedPacket_def split: if_splits)

lemma take_parts: "take (a + b + c) p = take a p @ take b (drop a p) @ take c (drop (a + b) p)"
  by (simp add: take_add)

text \<open>Each accepted packet type, in terms of its fields.\<close>

lemma fields_assignment:
  assumes ok: "abi_ok A" and off: "packetMacOffset A p (SubprocessAssignment A) = Some (Inr off)"
    and fields: "packetFields A p (SubprocessAssignment A) off d0 = Some (Inr d)"
    and d0: "ap_correlation d0 = zero_correlation A"
  shows "length p = SubprocessAssignmentPacketBytes A" "off = SubprocessAssignmentMACOffset A"
    "length (ap_correlation d) = CorrelationBytes A"
    "take (CorrelationBytes A) (drop (SubprocessCorrelationOffset A) p) = ap_correlation d"
    "take 8 (drop (SubprocessAssignmentExpiresOffset A) p) = be64_bytes (ap_expiresUnixMS d)"
    "d = d0\<lparr>ap_correlation := ap_correlation d, ap_expiresUnixMS := ap_expiresUnixMS d\<rparr>"
proof -
  note lay = abi_layout.assignment_layout [OF abi_layout.intro [OF ok]]
  let ?c = "take (CorrelationBytes A) (drop (SubprocessCorrelationOffset A) p)"
  show len: "length p = SubprocessAssignmentPacketBytes A" "off = SubprocessAssignmentMACOffset A"
    using off by (auto simp: packetMacOffset_def split: if_splits)
  have c: "length ?c = CorrelationBytes A" using len lay by simp
  have "go_slice p (SubprocessCorrelationOffset A) (SubprocessAssignmentExpiresOffset A) = Some ?c"
    using len lay by (simp add: go_slice_def flip: lay(2))
  then obtain ms where ms: "get_u64 p (SubprocessAssignmentExpiresOffset A) = Some ms"
      "d = d0\<lparr>ap_correlation := ?c, ap_expiresUnixMS := ms\<rparr>"
    using fields c d0 by (auto simp: packetFields_def copy_correlation bind_eq_Some_conv)
  then show "length (ap_correlation d) = CorrelationBytes A" "?c = ap_correlation d"
    "take 8 (drop (SubprocessAssignmentExpiresOffset A) p) = be64_bytes (ap_expiresUnixMS d)"
    "d = d0\<lparr>ap_correlation := ap_correlation d, ap_expiresUnixMS := ap_expiresUnixMS d\<rparr>"
    using c by (simp_all add: get_u64_take8)
qed

lemma fields_ack:
  assumes ok: "abi_ok A" and off: "packetMacOffset A p (SubprocessAssignmentACK A) = Some (Inr off)"
    and fields: "packetFields A p (SubprocessAssignmentACK A) off d0 = Some (Inr d)"
    and d0: "ap_correlation d0 = zero_correlation A"
  shows "length p = SubprocessAssignmentACKPacketBytes A" "off = SubprocessAssignmentACKMACOffset A"
    "length (ap_correlation d) = CorrelationBytes A"
    "take (CorrelationBytes A) (drop (SubprocessCorrelationOffset A) p) = ap_correlation d"
    "p ! SubprocessAssignmentACKStatusOffset A = ap_status d"
    "ap_status d \<in> {SubprocessACKPositive A, SubprocessACKNegative A}"
    "d = d0\<lparr>ap_correlation := ap_correlation d, ap_status := ap_status d\<rparr>"
proof -
  note lo = abi_layout.intro [OF ok]
  note lay = abi_layout.ack_layout [OF lo] and td = abi_layout.types_distinct [OF lo]
  let ?c = "take (CorrelationBytes A) (drop (SubprocessCorrelationOffset A) p)"
  let ?st = "p ! SubprocessAssignmentACKStatusOffset A"
  show len: "length p = SubprocessAssignmentACKPacketBytes A" "off = SubprocessAssignmentACKMACOffset A"
    using off td by (auto simp: packetMacOffset_def split: if_splits)
  have c: "length ?c = CorrelationBytes A" using len lay by simp
  have "go_slice p (SubprocessCorrelationOffset A) (SubprocessAssignmentACKStatusOffset A) = Some ?c"
    using len lay by (simp add: go_slice_def flip: lay(2))
  moreover have "go_index p (SubprocessAssignmentACKStatusOffset A) = Some ?st"
    using len lay by (simp add: go_index_def)
  ultimately have d: "d = d0\<lparr>ap_correlation := ?c, ap_status := ?st\<rparr>"
      "?st \<in> {SubprocessACKPositive A, SubprocessACKNegative A}"
    using fields c d0 td by (auto simp: packetFields_def copy_correlation split: if_splits)
  then show "length (ap_correlation d) = CorrelationBytes A" "?c = ap_correlation d" "?st = ap_status d"
    "ap_status d \<in> {SubprocessACKPositive A, SubprocessACKNegative A}"
    "d = d0\<lparr>ap_correlation := ap_correlation d, ap_status := ap_status d\<rparr>"
    using c by simp_all
qed

lemma fields_verified:
  assumes ok: "abi_ok A" and off: "packetMacOffset A p (SubprocessVerifiedIngress A) = Some (Inr off)"
    and fields: "packetFields A p (SubprocessVerifiedIngress A) off d0 = Some (Inr d)"
  shows "length p = SubprocessVerifiedIngressPayloadOffset A + length (ap_payload d) + 32"
    "off = SubprocessVerifiedIngressPayloadOffset A + length (ap_payload d)"
    "MinIngressFrameBytes A \<le> length (ap_payload d)" "length (ap_payload d) \<le> MaxIngressFrameBytes A"
    "take (length (ap_payload d)) (drop (SubprocessVerifiedIngressPayloadOffset A) p) = ap_payload d"
    "d = d0\<lparr>ap_payload := ap_payload d\<rparr>"
proof -
  note lo = abi_layout.intro [OF ok]
  note lay = abi_layout.verified_layout [OF lo] and td = abi_layout.types_distinct [OF lo]
  let ?po = "SubprocessVerifiedIngressPayloadOffset A"
  have len: "off = length p - 32" "MinSubprocessVerifiedIngressPacketBytes A \<le> length p"
    "length p \<le> MaxSubprocessVerifiedIngressPacketBytes A"
    using off td abi_layout.mac_bytes [OF lo] by (auto simp: packetMacOffset_def split: if_splits)
  have d: "d = d0\<lparr>ap_payload := take (off - ?po) (drop ?po p)\<rparr>"
    using fields td by (auto simp: packetFields_def go_slice_def split: if_splits)
  then have pl: "length (ap_payload d) = off - ?po" "ap_payload d = take (off - ?po) (drop ?po p)"
    using len by simp_all
  show "length p = ?po + length (ap_payload d) + 32" "off = ?po + length (ap_payload d)"
    "MinIngressFrameBytes A \<le> length (ap_payload d)" "length (ap_payload d) \<le> MaxIngressFrameBytes A"
    using pl(1) len lay by linarith+
  show "take (length (ap_payload d)) (drop ?po p) = ap_payload d"
    using pl by simp
  show "d = d0\<lparr>ap_payload := ap_payload d\<rparr>" using d by simp
qed

lemma header_take26:
  assumes "abi_tight A" "has_header A ty g s h p"
  shows "take 26 p = header_bytes A ty g s h"
  using assms header_split [of A ty g s h p] by auto

lemma reencode_assignment:
  assumes ok: "abi_ok A" and tight: "abi_tight A" and hdr: "has_header A (SubprocessAssignment A) g s h p"
    and sealed: "sealed_at key (SubprocessAssignmentMACOffset A) p"
    and c: "length c = CorrelationBytes A" "take (CorrelationBytes A) (drop (SubprocessCorrelationOffset A) p) = c"
    and ms: "take 8 (drop (SubprocessAssignmentExpiresOffset A) p) = be64_bytes ms"
  shows "encodeAssignmentPacket A key g s h c ms = Some p"
proof -
  note lay = abi_layout.assignment_layout [OF abi_layout.intro [OF ok]]
  obtain q where q: "encodeAssignmentPacket A key g s h c ms = Some q"
    "has_header A (SubprocessAssignment A) g s h q" "sealed_at key (SubprocessAssignmentMACOffset A) q"
    "take (CorrelationBytes A) (drop (SubprocessCorrelationOffset A) q) = c"
    "take 8 (drop (SubprocessAssignmentExpiresOffset A) q) = be64_bytes ms"
    using assignment_packet_shape [OF ok c(1)] by blast
  have off: "SubprocessAssignmentMACOffset A = 26 + CorrelationBytes A + 8"
    "SubprocessCorrelationOffset A = 26" "SubprocessAssignmentExpiresOffset A = 26 + CorrelationBytes A"
    using tight lay by (auto simp: abi_tight_def)
  have "take (SubprocessAssignmentMACOffset A) p = take (SubprocessAssignmentMACOffset A) q"
    using c ms q(4,5) header_take26 [OF tight hdr] header_take26 [OF tight q(2)]
    unfolding off take_parts by (simp add: add.commute)
  then show ?thesis
    using same_body_same_packet [OF sealed q(3)] q(1) by simp
qed

lemma reencode_ack:
  assumes ok: "abi_ok A" and tight: "abi_tight A" and hdr: "has_header A (SubprocessAssignmentACK A) g s h p"
    and sealed: "sealed_at key (SubprocessAssignmentACKMACOffset A) p"
    and len: "length p = SubprocessAssignmentACKPacketBytes A"
    and c: "length c = CorrelationBytes A" "take (CorrelationBytes A) (drop (SubprocessCorrelationOffset A) p) = c"
    and st: "p ! SubprocessAssignmentACKStatusOffset A = st"
  shows "encodeACKPacket A key g s h c st = Some p"
proof -
  note lay = abi_layout.ack_layout [OF abi_layout.intro [OF ok]]
  obtain q where q: "encodeACKPacket A key g s h c st = Some q"
    "has_header A (SubprocessAssignmentACK A) g s h q" "sealed_at key (SubprocessAssignmentACKMACOffset A) q"
    "take (CorrelationBytes A) (drop (SubprocessCorrelationOffset A) q) = c"
    "q ! SubprocessAssignmentACKStatusOffset A = st" "length q = SubprocessAssignmentACKPacketBytes A"
    using ack_packet_shape [OF ok c(1)] by blast
  have off: "SubprocessAssignmentACKMACOffset A = 26 + CorrelationBytes A + 1"
    "SubprocessCorrelationOffset A = 26" "SubprocessAssignmentACKStatusOffset A = 26 + CorrelationBytes A"
    using tight lay by (auto simp: abi_tight_def)
  have one: "\<And>r. length r = SubprocessAssignmentACKPacketBytes A \<Longrightarrow>
      take 1 (drop (26 + CorrelationBytes A) r) = [r ! (26 + CorrelationBytes A)]"
    using lay off by (simp add: take_Suc_conv_app_nth)
  have "take (SubprocessAssignmentACKMACOffset A) p = take (SubprocessAssignmentACKMACOffset A) q"
    using c st q(4,5) header_take26 [OF tight hdr] header_take26 [OF tight q(2)] one [OF len] one [OF q(6)]
    unfolding off take_parts by (simp add: add.commute)
  then show ?thesis
    using same_body_same_packet [OF sealed q(3)] q(1) by simp
qed

lemma reencode_verified:
  assumes ok: "abi_ok A" and tight: "abi_tight A" and hdr: "has_header A (SubprocessVerifiedIngress A) g s h p"
    and sealed: "sealed_at key (SubprocessVerifiedIngressPayloadOffset A + length pl) p"
    and pl: "take (length pl) (drop (SubprocessVerifiedIngressPayloadOffset A) p) = pl"
  shows "encodeVerifiedPacket A key g s h pl = Some p"
proof -
  let ?po = "SubprocessVerifiedIngressPayloadOffset A"
  obtain q where q: "encodeVerifiedPacket A key g s h pl = Some q"
    "has_header A (SubprocessVerifiedIngress A) g s h q" "sealed_at key (?po + length pl) q"
    "take (length pl) (drop ?po q) = pl"
    using verified_packet_shape [OF ok] by blast
  have "take (?po + length pl) p = take (?po + length pl) q"
    using pl q(4) header_take26 [OF tight hdr] header_take26 [OF tight q(2)] tight
    by (simp add: take_add abi_tight_def)
  then show ?thesis
    using same_body_same_packet [OF sealed q(3)] q(1) by simp
qed

lemma reencode_open:
  assumes ok: "abi_ok A" and tight: "abi_tight A" and hdr: "has_header A (SubprocessConnectionOpen A) g s h p"
    and sealed: "sealed_at key (SubprocessConnectionOpenMACOffset A) p"
  shows "encodeConnectionOpenPacket A key g s h = Some p"
proof -
  obtain q where q: "encodeConnectionOpenPacket A key g s h = Some q"
    "has_header A (SubprocessConnectionOpen A) g s h q" "sealed_at key (SubprocessConnectionOpenMACOffset A) q"
    using open_packet_shape [OF ok] by blast
  have "take (SubprocessConnectionOpenMACOffset A) p = take (SubprocessConnectionOpenMACOffset A) q"
    using header_take26 [OF tight hdr] header_take26 [OF tight q(2)] tight by (simp add: abi_tight_def)
  then show ?thesis
    using same_body_same_packet [OF sealed q(3)] q(1) by simp
qed

lemma offset_known_type:
  "packetMacOffset A p ty = Some (Inr off) \<Longrightarrow>
     ty = SubprocessAssignment A \<or> ty = SubprocessAssignmentACK A \<or>
     ty = SubprocessVerifiedIngress A \<or> ty = SubprocessConnectionOpen A"
  by (auto simp: packetMacOffset_def split: if_splits)

lemma reencode_of_decode:
  assumes ok: "abi_ok A" and tight: "abi_tight A"
    and dec: "decodeAuthenticatedPacket A p key g s = Some (Inr d)"
  shows "wf_packet A g s d \<and> reencode A key d = Some p"
proof -
  note lo = abi_layout.intro [OF ok]
  note td = abi_layout.types_distinct [OF lo]
  have "SubprocessConnectionHandleOffset A + 8 \<le> length p"
    using decode_length(1) [OF dec] abi_layout.header_before_body(1) [OF lo] abi_layout.open_layout(1) [OF lo]
    by linarith
  then obtain ty off h where k: "packetMacOffset A p ty = Some (Inr off)" "sealed_at key off p"
      "has_header A ty g s h p" "g \<noteq> 0" "s \<noteq> 0" "h \<noteq> 0"
    and f: "packetFields A p ty off
      \<lparr>ap_typ = ty, ap_generation = g, ap_sequence = s, ap_handle = h,
       ap_correlation = zero_correlation A, ap_expiresUnixMS = 0, ap_status = 0, ap_payload = []\<rparr>
      = Some (Inr d)"
    using decode_success [OF dec] by metis
  from offset_known_type [OF k(1)] consider (asn) "ty = SubprocessAssignment A"
    | (ack) "ty = SubprocessAssignmentACK A" | (ver) "ty = SubprocessVerifiedIngress A"
    | (opn) "ty = SubprocessConnectionOpen A" by blast
  then show ?thesis
  proof cases
    case asn
    note F = fields_assignment [OF ok k(1) [unfolded asn] f [unfolded asn], simplified]
    have d: "ap_typ d = ty" "ap_generation d = g" "ap_sequence d = s" "ap_handle d = h"
      "ap_status d = 0" "ap_payload d = []"
      by (subst F(6), simp add: asn)+
    show ?thesis
      using F(3) d k asn reencode_assignment [OF ok tight k(3) [unfolded asn] k(2) [unfolded F(2)] F(3-5)]
      by (simp add: wf_packet_def reencode_def)
  next
    case ack
    note F = fields_ack [OF ok k(1) [unfolded ack] f [unfolded ack], simplified]
    have d: "ap_typ d = ty" "ap_generation d = g" "ap_sequence d = s" "ap_handle d = h"
      "ap_expiresUnixMS d = 0" "ap_payload d = []"
      by (subst F(7), simp add: ack)+
    show ?thesis
      using F(3,6) d k ack td reencode_ack [OF ok tight k(3) [unfolded ack] k(2) [unfolded F(2)] F(1,3-5)]
      by (auto simp: wf_packet_def reencode_def)
  next
    case ver
    note F = fields_verified [OF ok k(1) [unfolded ver] f [unfolded ver]]
    have d: "ap_typ d = ty" "ap_generation d = g" "ap_sequence d = s" "ap_handle d = h"
      "ap_expiresUnixMS d = 0" "ap_status d = 0" "ap_correlation d = zero_correlation A"
      by (subst F(6), simp add: ver)+
    show ?thesis
      using F(3,4) d k ver td reencode_verified [OF ok tight k(3) [unfolded ver] k(2) [unfolded F(2)] F(5)]
      by (auto simp: wf_packet_def reencode_def)
  next
    case opn
    have off: "off = SubprocessConnectionOpenMACOffset A"
      using k(1) opn td by (auto simp: packetMacOffset_def split: if_splits)
    have d: "d = \<lparr>ap_typ = ty, ap_generation = g, ap_sequence = s, ap_handle = h,
       ap_correlation = zero_correlation A, ap_expiresUnixMS = 0, ap_status = 0, ap_payload = []\<rparr>"
      using f opn td by (auto simp: packetFields_def)
    show ?thesis
      using d k opn td reencode_open [OF ok tight k(3) [unfolded opn] k(2) [unfolded off]]
      by (auto simp: wf_packet_def reencode_def)
  qed
qed

lemma decode_of_reencode:
  assumes ok: "abi_ok A" and key: "length key = SubprocessIPCKeyBytes A"
    and wf: "wf_packet A g s d" and re: "reencode A key d = Some p"
  shows "decodeAuthenticatedPacket A p key g s = Some (Inr d)"
proof -
  note td = abi_layout.types_distinct [OF abi_layout.intro [OF ok]]
  have d: "ap_generation d = g" "ap_sequence d = s"
    using wf by (simp_all add: wf_packet_def)
  consider (asn) "ap_typ d = SubprocessAssignment A" | (ack) "ap_typ d = SubprocessAssignmentACK A"
    | (ver) "ap_typ d = SubprocessVerifiedIngress A" | (opn) "ap_typ d = SubprocessConnectionOpen A"
    using wf unfolding wf_packet_def by metis
  then show ?thesis
  proof cases
    case asn
    then show ?thesis
      using decode_assignment_packet [OF ok key wf asn] re d by (simp add: reencode_def)
  next
    case ack
    then show ?thesis
      using decode_ack_packet [OF ok key wf ack] re d td by (simp add: reencode_def split: if_splits)
  next
    case ver
    then show ?thesis
      using decode_verified_packet [OF ok key wf ver] re d td by (simp add: reencode_def split: if_splits)
  next
    case opn
    then show ?thesis
      using decode_open_packet [OF ok key wf opn] re d td by (simp add: reencode_def split: if_splits)
  qed
qed

section \<open>No run-time panic\<close>

lemma packetMacOffset_inr:
  assumes ok: "abi_ok A" and off: "packetMacOffset A p ty = Some (Inr off)"
  shows "off + 32 = length p"
proof -
  note lo = abi_layout.intro [OF ok]
  note al = abi_layout.assignment_layout(4) [OF lo] and kl = abi_layout.ack_layout(4) [OF lo]
    and ol = abi_layout.open_layout(1) [OF lo] and mb = abi_layout.mac_bytes [OF lo]
  show ?thesis
    using off al kl ol mb by (simp add: packetMacOffset_def split: if_splits)
qed

lemma packetMacOffset_total:
  assumes ok: "abi_ok A"
  shows "packetMacOffset A p ty \<noteq> None"
proof -
  note lo = abi_layout.intro [OF ok]
  show ?thesis
    using abi_layout.verified_layout(1) [OF lo] abi_layout.mac_bytes [OF lo]
    by (simp add: packetMacOffset_def)
qed

lemma packetFields_total:
  assumes ok: "abi_ok A" and off: "packetMacOffset A p ty = Some (Inr off)"
    and d0: "length (ap_correlation d0) = CorrelationBytes A"
  shows "\<exists>r. packetFields A p ty off d0 = Some r"
proof -
  note lo = abi_layout.intro [OF ok]
  note al = abi_layout.assignment_layout [OF lo] and kl = abi_layout.ack_layout [OF lo]
    and vl = abi_layout.verified_layout [OF lo] and mb = abi_layout.mac_bytes [OF lo]
    and td = abi_layout.types_distinct [OF lo]
  from offset_known_type [OF off] consider (asn) "ty = SubprocessAssignment A"
    | (ack) "ty = SubprocessAssignmentACK A" | (ver) "ty = SubprocessVerifiedIngress A"
    | (opn) "ty = SubprocessConnectionOpen A" by blast
  then show ?thesis
  proof cases
    case asn
    then have "length p = SubprocessAssignmentPacketBytes A"
      using off by (auto simp: packetMacOffset_def split: if_splits)
    moreover from this obtain ms where "get_u64 p (SubprocessAssignmentExpiresOffset A) = Some ms"
      using get_u64_Some [of "SubprocessAssignmentExpiresOffset A" p] al by auto
    ultimately show ?thesis
      using asn al by (simp add: packetFields_def go_slice_def go_copy_at_def)
  next
    case ack
    then have "length p = SubprocessAssignmentACKPacketBytes A"
      using off td by (auto simp: packetMacOffset_def split: if_splits)
    then show ?thesis
      using ack kl td by (auto simp: packetFields_def go_slice_def go_copy_at_def go_index_def)
  next
    case ver
    then have "off + 32 = length p" "MinSubprocessVerifiedIngressPacketBytes A \<le> length p"
      using off td mb by (auto simp: packetMacOffset_def split: if_splits)
    then show ?thesis
      using ver td vl by (auto simp: packetFields_def go_slice_def)
  qed (use td in \<open>auto simp: packetFields_def\<close>)
qed

lemma decode_total:
  assumes ok: "abi_ok A"
  shows "\<exists>r. decodeAuthenticatedPacket A p key g s = Some r"
proof (cases "length key \<noteq> SubprocessIPCKeyBytes A \<or> length p > MaxAuthenticatedPacketBytes A \<or>
    length p < SubprocessConnectionOpenPacketBytes A")
  case True
  then show ?thesis by (simp add: decodeAuthenticatedPacket_def)
next
  case False
  note lo = abi_layout.intro [OF ok]
  note hf = abi_layout.header_fields [OF lo] and hb = abi_layout.header_before_body [OF lo]
  have len: "SubprocessConnectionHandleOffset A + 8 \<le> length p"
    using False hb abi_layout.open_layout [OF lo] by linarith
  then obtain x y z where u: "get_u64 p (SubprocessGenerationOffset A) = Some x"
    "get_u64 p (SubprocessSequenceOffset A) = Some y" "get_u64 p (SubprocessConnectionHandleOffset A) = Some z"
    using get_u64_Some [of _ p] hf by (metis add_leD1 le_trans)
  let ?ty = "p ! SubprocessTypeOffset A"
  have i: "go_index p (SubprocessTypeOffset A) = Some ?ty"
    "go_index p (SubprocessVersionOffset A) = Some (p ! SubprocessVersionOffset A)"
    using len hf by (simp_all add: go_index_def)
  obtain res where res: "packetMacOffset A p ?ty = Some res"
    using packetMacOffset_total [OF ok] by blast
  show ?thesis
  proof (cases res)
    case (Inl e)
    with False i res show ?thesis by (simp add: decodeAuthenticatedPacket_def)
  next
    case (Inr off)
    then have "\<exists>r. decodeBody A p key g s ?ty off = Some r"
      using u i res packetFields_total [OF ok, of p ?ty off] packetMacOffset_inr [OF ok, of p ?ty off]
      by (simp add: decodeBody_def go_slice_def go_from_def zero_correlation_def)
    with False i res Inr show ?thesis by (simp add: decodeAuthenticatedPacket_def)
  qed
qed

section \<open>Properties\<close>

text \<open>
  C4: the decoder accepts exactly the encodings. On the frozen contiguous layout and with a
  key of the right length, \<open>decodeAuthenticatedPacket\<close> returns \<open>d\<close> for a packet if and only if
  the packet is what the matching encoder produces for \<open>d\<close> under the same key and \<open>d\<close> is a
  well-formed message of the expected generation and sequence number: decoding inverts
  encoding, and no other byte string (no second encoding of a message) is accepted.
\<close>

theorem packet_decode_exact:
  assumes "abi_ok A" and "abi_tight A" and "length key = SubprocessIPCKeyBytes A"
  shows "decodeAuthenticatedPacket A p key g s = Some (Inr d) \<longleftrightarrow>
    wf_packet A g s d \<and> reencode A key d = Some p"
  using decode_of_reencode [OF assms(1,3)] reencode_of_decode [OF assms(1,2)] by blast

theorem packet_decode_exact_witness:
  "\<exists>p. encodeACKPacket abi_v1 (replicate 32 7) 9 2 44 (replicate 16 5) 1 = Some p \<and>
     decodeAuthenticatedPacket abi_v1 p (replicate 32 7) 9 2 = Some (Inr
       \<lparr>ap_typ = 2, ap_generation = 9, ap_sequence = 2, ap_handle = 44,
        ap_correlation = replicate 16 5, ap_expiresUnixMS = 0, ap_status = 1, ap_payload = []\<rparr>)"
proof -
  let ?d = "\<lparr>ap_typ = 2, ap_generation = 9, ap_sequence = 2, ap_handle = 44,
        ap_correlation = replicate 16 5, ap_expiresUnixMS = 0, ap_status = 1, ap_payload = []\<rparr>"
  obtain p where p: "encodeACKPacket abi_v1 (replicate 32 7) 9 2 44 (replicate 16 5) 1 = Some p"
    using ack_packet_shape [OF abi_v1_ok, of "replicate 16 5" "replicate 32 7" 9 2 44 1] by auto
  then have "wf_packet abi_v1 9 2 ?d \<and> reencode abi_v1 (replicate 32 7) ?d = Some p"
    by (simp add: wf_packet_def reencode_def)
  then show ?thesis
    using p packet_decode_exact [OF abi_v1_ok abi_v1_tight, of "replicate 32 7" p 9 2 ?d]
    by auto
qed

text \<open>
  C23: no run-time panic. On the frozen layout the decoder returns (a message or an error) on
  every byte string, whatever key, generation and sequence number it is given, and the four
  packet encoders return a packet for every correlation of the ABI's length.
\<close>

theorem packet_codec_no_panic:
  assumes "abi_ok A" and "length c = CorrelationBytes A"
  shows "decodeAuthenticatedPacket A p key g s \<noteq> None \<and>
    encodeAssignmentPacket A key g s h c ms \<noteq> None \<and> encodeACKPacket A key g s h c st \<noteq> None \<and>
    encodeVerifiedPacket A key g s h pl \<noteq> None \<and> encodeConnectionOpenPacket A key g s h \<noteq> None"
  using decode_total [OF assms(1)] assignment_packet_shape [OF assms] ack_packet_shape [OF assms]
    verified_packet_shape [OF assms(1)] open_packet_shape [OF assms(1)]
  by (metis option.distinct(1))

theorem packet_codec_no_panic_witness:
  "decodeAuthenticatedPacket abi_v1 [1, 2, 3] [] 0 0 \<noteq> None \<and>
    encodeAssignmentPacket abi_v1 [] 0 0 0 (replicate 16 1) 0 \<noteq> None"
  using packet_codec_no_panic [OF abi_v1_ok, of "replicate 16 1" "[1, 2, 3]" "[]" 0 0 0 0 0 "[]"]
  by simp



end
