(* ===== verification/Ingress_Frame.thy ===== *)
theory Ingress_Frame
  imports Ingress_Types
begin

text \<open>
  The two parsers of \<^verbatim>\<open>go/subprocess_ingress.go\<close> that look into an opaque
  VerifiedIngressV1 protobuf: \<open>consumeVarint\<close> and \<open>extractIngressCorrelation\<close>. The varint
  reader is compared with the base-128 value it stands for; the one-pass extraction loop is
  compared with a reference that first parses the whole frame into fields and then checks
  them.
\<close>

unbundle bit_operations_syntax

section \<open>consumeVarint\<close>

text \<open>The \<open>range\<close> loop over the bytes; \<open>i\<close> is the index of the head.\<close>

fun consumeVarintLoop :: "nat \<Rightarrow> u64 \<Rightarrow> bytes \<Rightarrow> u64 \<times> int" where
  "consumeVarintLoop i result [] = (0, 0)"
| "consumeVarintLoop i result (b # bs) =
     (if i = 10 \<or> i = 9 \<and> b > 1 then (0, -1)
      else (let result' = result OR push_bit (7 * i) (ucast (b AND 0x7f)) in
        if b < 0x80 then (result', int i + 1) else consumeVarintLoop (Suc i) result' bs))"

definition consumeVarint :: "bytes \<Rightarrow> u64 \<times> int" where
  "consumeVarint bs = consumeVarintLoop 0 0 bs"

text \<open>The number a base-128 little-endian group of bytes stands for.\<close>

fun base128 :: "bytes \<Rightarrow> nat" where
  "base128 [] = 0"
| "base128 (b # bs) = unat b mod 128 + 128 * base128 bs"

lemma unat_low7: "unat ((ucast ((b :: u8) AND 0x7f)) :: u64) = unat b mod 128"
proof -
  have "b AND 0x7f = take_bit 7 b" by (simp add: take_bit_eq_mask mask_eq_exp_minus_1)
  moreover have "unat (take_bit 7 b) = take_bit 7 (unat b)"
    by (rule unsigned_take_bit_eq)
  ultimately have "unat (b AND 0x7f) = unat b mod 128"
    by (simp only: take_bit_eq_mod) simp
  moreover have "unat ((ucast (b AND 0x7f)) :: u64) = unat (b AND 0x7f)"
    by (simp add: unsigned_ucast_eq take_bit_nat_eq_self order_less_le_trans [OF unsigned_less])
  ultimately show ?thesis by simp
qed

lemma unat_or_push:
  fixes r x :: u64
  assumes r: "unat r < 2 ^ k" and x: "2 ^ k * unat x < 2 ^ 64"
  shows "unat (r OR push_bit k x) = unat r + 2 ^ k * unat x"
proof -
  have "unat (push_bit k x) = 2 ^ k * unat x"
  proof -
    have "unat (push_bit k x) = take_bit 64 (push_bit k (unat x))"
      by (subst unsigned_push_bit_eq) simp
    also have "\<dots> = push_bit k (unat x)"
      using x by (intro take_bit_nat_eq_self) (simp add: push_bit_eq_mult mult.commute)
    finally show ?thesis by (simp add: push_bit_eq_mult mult.commute)
  qed
  moreover have "unat r OR push_bit k (unat x) = unat r + push_bit k (unat x)"
  proof (rule disjunctive_add_eq_or [symmetric])
    have "k \<le> n \<Longrightarrow> \<not> bit (unat r) n" for n
      using r by (metis bit_take_bit_iff linorder_not_less take_bit_nat_eq_self)
    then show "unat r AND push_bit k (unat x) = 0"
      by (auto simp: bit_eq_iff bit_and_iff bit_push_bit_iff)
  qed
  moreover have "unat (r OR push_bit k x) = unat r OR unat (push_bit k x)"
    by (rule unsigned_or_eq)
  ultimately show ?thesis
    by (simp add: push_bit_eq_mult mult.commute)
qed

text \<open>A group is a run of continuation bytes closed by a byte below 128.\<close>

fun varint_group :: "bytes \<Rightarrow> bool" where
  "varint_group [] = False"
| "varint_group [b] = (b < 0x80)"
| "varint_group (b # bs) = (0x80 \<le> b \<and> varint_group bs)"

lemma varint_group_Cons: "varint_group (b # bs) \<longleftrightarrow> (if bs = [] then b < 0x80 else 0x80 \<le> b \<and> varint_group bs)"
  by (cases bs) auto

lemma group_step:
  fixes b :: u8
  assumes "unat r < 2 ^ (7 * i)" "i \<le> 9" "i = 9 \<longrightarrow> b \<le> 1"
  shows "unat (r OR push_bit (7 * i) (ucast (b AND 0x7f)) :: u64) = unat r + 2 ^ (7 * i) * (unat b mod 128)"
    and "i < 9 \<Longrightarrow> unat r + 2 ^ (7 * i) * (unat b mod 128) < 2 ^ (7 * Suc i)"
proof -
  have "2 ^ (7 * i) * (unat b mod 128) < (2 ^ 64 :: nat)"
  proof (cases "i = 9")
    case True
    then have "unat b \<le> 1" using assms(3) by (simp add: word_le_nat_alt)
    then show ?thesis using True by (cases "unat b") auto
  next
    case False
    then have "2 ^ (7 * i) \<le> (2 ^ 56 :: nat)" using assms(2) by (intro power_increasing) auto
    moreover have "unat b mod 128 < 128" by simp
    ultimately have "2 ^ (7 * i) * (unat b mod 128) \<le> 2 ^ 56 * (127 :: nat)"
      by (intro mult_mono) auto
    then show ?thesis by simp
  qed
  then show "unat (r OR push_bit (7 * i) (ucast (b AND 0x7f)) :: u64) = unat r + 2 ^ (7 * i) * (unat b mod 128)"
    using unat_or_push [OF assms(1)] by (simp add: unat_low7)
  have "unat b mod 128 + 1 \<le> 128" by (simp add: Suc_leI)
  then have "2 ^ (7 * i) * (unat b mod 128 + 1) \<le> 2 ^ (7 * i) * (128 :: nat)"
    by (rule mult_le_mono2)
  then have "2 ^ (7 * i) + 2 ^ (7 * i) * (unat b mod 128) \<le> (2 ^ (7 * Suc i) :: nat)"
    by (simp only: add_mult_distrib2 mult_1_right mult_Suc_right power_add) simp
  then show "unat r + 2 ^ (7 * i) * (unat b mod 128) < 2 ^ (7 * Suc i)"
    using assms(1) by linarith
qed

lemma consumeVarintLoop_sound:
  assumes "consumeVarintLoop i r bs = (v, n)" "1 \<le> n" "unat r < 2 ^ (7 * i)" "i \<le> 9"
  shows "\<exists>m. n = int (i + m) \<and> m \<le> length bs \<and> i + m \<le> 10 \<and> varint_group (take m bs) \<and>
    unat v = unat r + 2 ^ (7 * i) * base128 (take m bs)"
  using assms
proof (induction i r bs rule: consumeVarintLoop.induct)
  case (2 i r b bs)
  let ?r = "r OR push_bit (7 * i) (ucast (b AND 0x7f))"
  have ok: "\<not> (i = 10 \<or> i = 9 \<and> b > 1)" using 2(2,3) by auto
  then have nine: "i = 9 \<longrightarrow> b \<le> 1" by auto
  note st = group_step [OF 2(4,5) nine]
  show ?case
  proof (cases "b < 0x80")
    case True
    then have "v = ?r" "n = int (i + 1)" using 2(2) ok by (auto simp: Let_def)
    then show ?thesis using True st(1) 2(5) by (intro exI [of _ 1]) simp
  next
    case False
    then have "i < 9" using 2(5) nine by (cases "i = 9") (auto simp: word_le_nat_alt word_less_nat_alt)
    moreover have "consumeVarintLoop (Suc i) ?r bs = (v, n)" using 2(2) ok False by (simp add: Let_def)
    ultimately obtain m where m: "n = int (Suc i + m)" "m \<le> length bs" "Suc i + m \<le> 10"
        "varint_group (take m bs)" "unat v = unat ?r + 2 ^ (7 * Suc i) * base128 (take m bs)"
      using 2(1) [OF _ refl] ok False st 2(3) by auto
    have "take m bs \<noteq> []" using m(4) by (cases "take m bs") auto
    with m False st(1) show ?thesis
      by (intro exI [of _ "Suc m"]) (auto simp: varint_group_Cons power_add algebra_simps)
  qed
qed simp

lemma consumeVarintLoop_complete:
  assumes "varint_group g" "unat r < 2 ^ (7 * i)" "i + length g \<le> 10"
    "unat r + 2 ^ (7 * i) * base128 g < 2 ^ 64"
  shows "consumeVarintLoop i r (g @ rest) = (of_nat (unat r + 2 ^ (7 * i) * base128 g), int (i + length g))"
  using assms
proof (induction g arbitrary: i r)
  case (Cons b g)
  let ?r = "r OR push_bit (7 * i) (ucast (b AND 0x7f))"
  have i: "i \<le> 9" using Cons.prems(3) by simp
  have nine: "i = 9 \<longrightarrow> b \<le> 1"
  proof
    assume "i = 9"
    then have "g = []" "b < 0x80" using Cons.prems(1,3) by (auto simp: varint_group_Cons split: if_splits)
    then have "unat b < 128" "2 ^ 63 * (unat b mod 128) < (2 ^ 64 :: nat)"
      using Cons.prems(4) \<open>i = 9\<close> by (auto simp: word_less_nat_alt)
    then have "unat b < 2" by simp
    then show "b \<le> 1" by (simp add: word_le_nat_alt)
  qed
  then have go: "\<not> (i = 10 \<or> i = 9 \<and> b > 1)" using i by auto
  note st = group_step [OF Cons.prems(2) i nine]
  show ?case
  proof (cases "g = []")
    case True
    then show ?thesis
      using Cons.prems(1) go st(1) by (auto simp: Let_def intro!: word_unat_eq_iff [THEN iffD2] simp flip: st(1))
  next
    case False
    then have b: "\<not> b < 0x80" "varint_group g" using Cons.prems(1) by (auto simp: varint_group_Cons)
    have "i < 9" using b(1) nine i
      by (cases "i = 9") (auto simp: word_le_nat_alt word_less_nat_alt)
    have sum: "unat ?r + 2 ^ (7 * Suc i) * base128 g = unat r + 2 ^ (7 * i) * base128 (b # g)"
      using st(1) by (simp add: power_add algebra_simps)
    have lt: "unat ?r + 2 ^ (7 * Suc i) * base128 g < 2 ^ 64"
      using Cons.prems(4) unfolding sum .
    have "unat ?r < 2 ^ (7 * Suc i)" using st(2) [OF \<open>i < 9\<close>] unfolding st(1) .
    then have "consumeVarintLoop (Suc i) ?r (g @ rest) =
        (of_nat (unat ?r + 2 ^ (7 * Suc i) * base128 g), int (Suc i + length g))"
      using Cons.prems(3) by (intro Cons.IH [OF b(2) _ _ lt]) auto
    then show ?thesis
      unfolding sum using go b(1) by (simp add: Let_def del: base128.simps of_nat_add of_nat_mult of_nat_power)
  qed
qed simp

lemma consumeVarint_bounds:
  assumes "consumeVarint bs = (v, n)" "1 \<le> n"
  shows "nat n \<le> length bs" "nat n \<le> 10" "0 < nat n"
  using consumeVarintLoop_sound [of 0 0 bs v n] assms by (auto simp: consumeVarint_def)

definition varint_of :: "bytes \<Rightarrow> u64 \<Rightarrow> bool" where
  "varint_of g v \<longleftrightarrow> varint_group g \<and> length g \<le> 10 \<and> base128 g < 2 ^ 64 \<and> v = of_nat (base128 g)"

lemma consumeVarint_varint_of: "varint_of g v \<Longrightarrow> consumeVarint (g @ rest) = (v, int (length g))"
  using consumeVarintLoop_complete [of g 0 0 rest] by (simp add: consumeVarint_def varint_of_def)

lemma varint_of_nonempty: "varint_of g v \<Longrightarrow> g \<noteq> []"
  by (auto simp: varint_of_def)

lemma consumeVarint_split:
  assumes "consumeVarint bs = (v, n)" "1 \<le> n"
  obtains g rest where "bs = g @ rest" "n = int (length g)" "varint_of g v"
proof -
  obtain m where m: "n = int m" "m \<le> length bs" "m \<le> 10" "varint_group (take m bs)"
      "unat v = base128 (take m bs)"
    using consumeVarintLoop_sound [of 0 0 bs v n] assms by (auto simp: consumeVarint_def)
  have "v = of_nat (base128 (take m bs))" "base128 (take m bs) < 2 ^ 64"
    using m(5) unsigned_less [of v] by (simp_all flip: m(5))
  then have "varint_of (take m bs) v" using m by (simp add: varint_of_def)
  then show thesis using that [of "take m bs" "drop m bs"] m by simp
qed

text \<open>
  \<open>consumeVarint\<close> accepts exactly the base-128 varints that fit 64 bits. It returns a
  positive length \<open>n\<close> if and only if the input starts with \<open>n\<close> bytes, at most ten, all but the
  last of them with the continuation bit, whose number is below \<open>2 ^ 64\<close>, and then the
  returned value is that number: no shifted bit is lost and no eleventh byte is read.
\<close>

theorem consumeVarint_exact:
  "consumeVarint bs = (v, n) \<and> 1 \<le> n \<longleftrightarrow>
    (\<exists>g rest. bs = g @ rest \<and> n = int (length g) \<and> varint_group g \<and> length g \<le> 10 \<and>
      base128 g < 2 ^ 64 \<and> v = of_nat (base128 g))"
  (is "?L \<longleftrightarrow> ?R")
proof
  assume ?L
  then obtain g rest where "bs = g @ rest" "n = int (length g)" "varint_of g v"
    by (auto elim: consumeVarint_split)
  then show ?R unfolding varint_of_def by blast
next
  assume ?R
  then obtain g rest where g: "bs = g @ rest" "n = int (length g)" "varint_of g v"
    unfolding varint_of_def by blast
  then show ?L using consumeVarint_varint_of [OF g(3)] varint_of_nonempty [OF g(3)]
    by (cases g) auto
qed

section \<open>extractIngressCorrelation\<close>

text \<open>
  The loop over the fields of the frame. \<open>uint64(len(frame) - size)\<close> is the exact length: a
  Go slice is shorter than \<open>2 ^ 63\<close>.
\<close>

function extractLoop :: "abi \<Rightarrow> correlation \<Rightarrow> bool \<Rightarrow> bool \<Rightarrow> bytes \<Rightarrow> ingress_error + correlation" where
  "extractLoop A corr seenVersion seenCorrelation frame =
     (if frame = [] then
        (if \<not> seenVersion \<or> \<not> seenCorrelation \<or> corr = zero_correlation A
         then Inl ErrIngressMismatch else Inr corr)
      else case consumeVarint frame of (tag, n) \<Rightarrow>
        if n < 1 then Inl ErrIngressABI
        else (let frame = drop (nat n) frame; field = drop_bit 3 tag; wire = tag AND 7 in
          if field = 0 \<or> field > 8 then Inl ErrIngressABI
          else if wire = 0 then
            (case consumeVarint frame of (val, sz) \<Rightarrow>
              if sz < 1 then Inl ErrIngressABI
              else if field = 1 then
                (if seenVersion \<or> val \<noteq> VerifiedIngressVersion A then Inl ErrIngressABI
                 else extractLoop A corr True seenCorrelation (drop (nat sz) frame))
              else extractLoop A corr seenVersion seenCorrelation (drop (nat sz) frame))
          else if wire = 1 then
            (if length frame < 8 then Inl ErrIngressABI
             else extractLoop A corr seenVersion seenCorrelation (drop 8 frame))
          else if wire = 2 then
            (case consumeVarint frame of (len, sz) \<Rightarrow>
              if sz < 1 \<or> unat len > length frame - nat sz then Inl ErrIngressABI
              else (let val = take (unat len) (drop (nat sz) frame);
                        rest = drop (nat sz + unat len) frame in
                if field = 2 then
                  (if seenCorrelation \<or> length val \<noteq> CorrelationBytes A then Inl ErrIngressMismatch
                   else extractLoop A val seenVersion True rest)
                else extractLoop A corr seenVersion seenCorrelation rest))
          else if wire = 5 then
            (if length frame < 4 then Inl ErrIngressABI
             else extractLoop A corr seenVersion seenCorrelation (drop 4 frame))
          else Inl ErrIngressABI))"
  by pat_completeness auto
termination
  by (relation "measure (\<lambda>(A, c, v, s, frame). length frame)")
    (auto simp: not_less dest!: consumeVarint_bounds)

declare extractLoop.simps [simp del]

definition extractIngressCorrelation :: "abi \<Rightarrow> bytes \<Rightarrow> ingress_error + correlation" where
  "extractIngressCorrelation A frame = extractLoop A (zero_correlation A) False False frame"

section \<open>The wire format of a frame\<close>

text \<open>
  The protobuf grammar the loop follows: a frame is a sequence of fields, each a varint tag
  \<open>field * 8 + wire\<close> and a payload whose form the wire type fixes.
\<close>

datatype pb_payload = PB_Varint u64 | PB_Fixed64 bytes | PB_Bytes bytes | PB_Fixed32 bytes

inductive frame_fields :: "bytes \<Rightarrow> (u64 \<times> pb_payload) list \<Rightarrow> bool" where
  frame_end: "frame_fields [] []"
| frame_varint: "varint_of t tag \<Longrightarrow> tag AND 7 = 0 \<Longrightarrow> varint_of g v \<Longrightarrow> frame_fields rest fs \<Longrightarrow>
    frame_fields (t @ g @ rest) ((drop_bit 3 tag, PB_Varint v) # fs)"
| frame_fixed64: "varint_of t tag \<Longrightarrow> tag AND 7 = 1 \<Longrightarrow> length p = 8 \<Longrightarrow> frame_fields rest fs \<Longrightarrow>
    frame_fields (t @ p @ rest) ((drop_bit 3 tag, PB_Fixed64 p) # fs)"
| frame_bytes: "varint_of t tag \<Longrightarrow> tag AND 7 = 2 \<Longrightarrow> varint_of g n \<Longrightarrow> length p = unat n \<Longrightarrow>
    frame_fields rest fs \<Longrightarrow>
    frame_fields (t @ g @ p @ rest) ((drop_bit 3 tag, PB_Bytes p) # fs)"
| frame_fixed32: "varint_of t tag \<Longrightarrow> tag AND 7 = 5 \<Longrightarrow> length p = 4 \<Longrightarrow> frame_fields rest fs \<Longrightarrow>
    frame_fields (t @ p @ rest) ((drop_bit 3 tag, PB_Fixed32 p) # fs)"

definition known_field :: "u64 \<times> pb_payload \<Rightarrow> bool" where
  "known_field = (\<lambda>(f, _). 1 \<le> f \<and> f \<le> 8)"

fun version_fields :: "(u64 \<times> pb_payload) list \<Rightarrow> u64 list" where
  "version_fields [] = []"
| "version_fields ((f, PB_Varint v) # fs) = (if f = 1 then v # version_fields fs else version_fields fs)"
| "version_fields (_ # fs) = version_fields fs"

fun correlation_fields :: "(u64 \<times> pb_payload) list \<Rightarrow> bytes list" where
  "correlation_fields [] = []"
| "correlation_fields ((f, PB_Bytes p) # fs) = (if f = 2 then p # correlation_fields fs else correlation_fields fs)"
| "correlation_fields (_ # fs) = correlation_fields fs"

text \<open>What the loop still has to find, given what it has seen.\<close>

definition rest_ok :: "abi \<Rightarrow> correlation \<Rightarrow> bool \<Rightarrow> bool \<Rightarrow> (u64 \<times> pb_payload) list \<Rightarrow> correlation \<Rightarrow> bool" where
  "rest_ok A corr sv sc fs c \<longleftrightarrow> list_all known_field fs \<and>
     version_fields fs = (if sv then [] else [VerifiedIngressVersion A]) \<and>
     correlation_fields fs = (if sc then [] else [c]) \<and>
     (if sc then c = corr else length c = CorrelationBytes A) \<and> c \<noteq> zero_correlation A"

lemma known_field_iff: "known_field (f, p) \<longleftrightarrow> \<not> (f = 0 \<or> f > 8)"
  by (auto simp: known_field_def not_le word_less_1 simp flip: not_less)

lemma extract_end: "extractLoop A corr sv sc [] = Inr c \<longleftrightarrow> rest_ok A corr sv sc [] c"
  by (subst extractLoop.simps) (auto simp: rest_ok_def)

lemma extract_varint:
  assumes "varint_of t tag" "tag AND 7 = 0" "varint_of g v"
  shows "extractLoop A corr sv sc (t @ g @ rest) = Inr c \<longleftrightarrow>
    known_field (drop_bit 3 tag, PB_Varint v) \<and>
    (if drop_bit 3 tag = 1 then \<not> sv \<and> v = VerifiedIngressVersion A \<and> extractLoop A corr True sc rest = Inr c
     else extractLoop A corr sv sc rest = Inr c)"
  using assms consumeVarint_varint_of [OF assms(1), of "g @ rest"]
    consumeVarint_varint_of [OF assms(3), of rest] varint_of_nonempty
  by (subst extractLoop.simps) (auto simp: Let_def known_field_iff Suc_le_eq)

lemma extract_fixed:
  assumes "varint_of t tag" "tag AND 7 = 1 \<and> length p = 8 \<or> tag AND 7 = 5 \<and> length p = 4"
  shows "extractLoop A corr sv sc (t @ p @ rest) = Inr c \<longleftrightarrow>
    known_field (drop_bit 3 tag, q) \<and> extractLoop A corr sv sc rest = Inr c"
  using assms consumeVarint_varint_of [OF assms(1), of "p @ rest"] varint_of_nonempty [OF assms(1)]
  by (subst extractLoop.simps) (auto simp: Let_def known_field_iff Suc_le_eq)

lemma extract_bytes:
  assumes "varint_of t tag" "tag AND 7 = 2" "varint_of g n" "length p = unat n"
  shows "extractLoop A corr sv sc (t @ g @ p @ rest) = Inr c \<longleftrightarrow>
    known_field (drop_bit 3 tag, PB_Bytes p) \<and>
    (if drop_bit 3 tag = 2 then \<not> sc \<and> length p = CorrelationBytes A \<and> extractLoop A p sv True rest = Inr c
     else extractLoop A corr sv sc rest = Inr c)"
  using assms consumeVarint_varint_of [OF assms(1), of "g @ p @ rest"]
    consumeVarint_varint_of [OF assms(3), of "p @ rest"] varint_of_nonempty
  by (subst extractLoop.simps) (auto simp: Let_def known_field_iff Suc_le_eq)

lemma extract_complete:
  "frame_fields frame fs \<Longrightarrow> rest_ok A corr sv sc fs c \<Longrightarrow> extractLoop A corr sv sc frame = Inr c"
proof (induction arbitrary: corr sv sc rule: frame_fields.induct)
  case frame_end
  then show ?case by (simp add: extract_end)
next
  case (frame_varint t tag g v rest fs)
  then show ?case
    by (subst extract_varint) (auto simp: rest_ok_def split: if_splits)
next
  case (frame_fixed64 t tag p rest fs)
  then show ?case
    by (subst extract_fixed [where q = "PB_Fixed64 p"]) (auto simp: rest_ok_def)
next
  case (frame_bytes t tag g n p rest fs)
  then show ?case
    by (subst extract_bytes) (auto simp: rest_ok_def split: if_splits)
next
  case (frame_fixed32 t tag p rest fs)
  then show ?case
    by (subst extract_fixed [where q = "PB_Fixed32 p"]) (auto simp: rest_ok_def)
qed

text \<open>An accepted frame starts with a well formed field: the shape the loop has checked.\<close>

lemma extract_shape:
  assumes "extractLoop A corr sv sc frame = Inr c" "frame \<noteq> []"
  obtains (varint) t tag g v rest where "frame = t @ g @ rest" "varint_of t tag" "tag AND 7 = 0" "varint_of g v"
  | (fixed64) t tag p rest where "frame = t @ p @ rest" "varint_of t tag" "tag AND 7 = 1" "length p = 8"
  | (bytes) t tag g n p rest where "frame = t @ g @ p @ rest" "varint_of t tag" "tag AND 7 = 2"
      "varint_of g n" "length p = unat n"
  | (fixed32) t tag p rest where "frame = t @ p @ rest" "varint_of t tag" "tag AND 7 = 5" "length p = 4"
proof -
  obtain tag n where cv: "consumeVarint frame = (tag, n)" by force
  then have "1 \<le> n" using assms by (subst (asm) extractLoop.simps) (auto split: if_splits)
  with cv obtain t r where t: "frame = t @ r" "n = int (length t)" "varint_of t tag"
    by (rule consumeVarint_split)
  have step: "extractLoop A corr sv sc (t @ r) = Inr c" "consumeVarint (t @ r) = (tag, int (length t))"
      "1 \<le> int (length t)" "t @ r \<noteq> []"
    using assms cv t \<open>1 \<le> n\<close> by auto
  consider "tag AND 7 = 0" | "tag AND 7 = 1" | "tag AND 7 = 2" | "tag AND 7 = 5"
    using step by (subst (asm) extractLoop.simps) (auto simp: Let_def split: if_splits)
  then show thesis
  proof cases
    case 1
    obtain v sz where r: "consumeVarint r = (v, sz)" by force
    then have "1 \<le> sz" using step 1 by (subst (asm) extractLoop.simps) (auto simp: Let_def split: if_splits)
    with r obtain g rest where "r = g @ rest" "varint_of g v" by (auto elim: consumeVarint_split)
    then show thesis using varint t 1 by blast
  next
    case 2
    then have "8 \<le> length r" using step by (subst (asm) extractLoop.simps) (auto simp: Let_def split: if_splits)
    then show thesis using fixed64 [of t "take 8 r" "drop 8 r" tag] t 2 by simp
  next
    case 3
    obtain v sz where r: "consumeVarint r = (v, sz)" by force
    then have sz: "1 \<le> sz" "unat v \<le> length r - nat sz"
      using step 3 by (subst (asm) extractLoop.simps; auto simp: Let_def split: if_splits)+
    with r obtain g rest where g: "r = g @ rest" "sz = int (length g)" "varint_of g v"
      by (auto elim: consumeVarint_split)
    then show thesis using bytes [of t g "take (unat v) rest" "drop (unat v) rest" tag v] t 3 sz by simp
  next
    case 4
    then have "4 \<le> length r" using step by (subst (asm) extractLoop.simps) (auto simp: Let_def split: if_splits)
    then show thesis using fixed32 [of t "take 4 r" "drop 4 r" tag] t 4 by simp
  qed
qed

lemma extract_sound:
  assumes "extractLoop A corr sv sc frame = Inr c"
  shows "\<exists>fs. frame_fields frame fs \<and> rest_ok A corr sv sc fs c"
  using assms
proof (induction "length frame" arbitrary: corr sv sc frame rule: less_induct)
  case less
  show ?case
  proof (cases "frame = []")
    case True
    then show ?thesis using less.prems frame_end by (auto simp: extract_end)
  next
    case False
    have shorter: "length rest < length frame" if "frame = t @ rest'" "length rest \<le> length rest'" "varint_of t tag"
      for t tag and rest rest' :: bytes
      using that varint_of_nonempty [OF that(3)] by (cases t) auto
    from less.prems False show ?thesis
    proof (cases rule: extract_shape)
      case (varint t tag g v rest)
      note step = less.prems [unfolded varint(1) extract_varint [OF varint(2-4)]]
      have "length rest < length frame" using shorter [of t "g @ rest"] varint by simp
      then obtain fs where "frame_fields rest fs" "rest_ok A corr (sv \<or> drop_bit 3 tag = 1) sc fs c"
        using less.hyps step by (fastforce split: if_splits)
      then show ?thesis using step frame_fields.frame_varint [OF varint(2-4)] varint(1)
        by (intro exI [of _ "(drop_bit 3 tag, PB_Varint v) # fs"]) (auto simp: rest_ok_def split: if_splits)
    next
      case (fixed64 t tag p rest)
      note step = less.prems [unfolded fixed64(1) extract_fixed [OF fixed64(2) disjI1 [OF conjI [OF fixed64(3,4)]], where q = "PB_Fixed64 p"]]
      have "length rest < length frame" using shorter [of t "p @ rest"] fixed64 by simp
      then obtain fs where "frame_fields rest fs" "rest_ok A corr sv sc fs c"
        using less.hyps step by blast
      then show ?thesis using step frame_fields.frame_fixed64 [OF fixed64(2-4)] fixed64(1)
        by (intro exI [of _ "(drop_bit 3 tag, PB_Fixed64 p) # fs"]) (auto simp: rest_ok_def)
    next
      case (bytes t tag g n p rest)
      note step = less.prems [unfolded bytes(1) extract_bytes [OF bytes(2-5)]]
      have "length rest < length frame" using shorter [of t "g @ p @ rest"] bytes by simp
      then obtain fs where "frame_fields rest fs"
          "rest_ok A (if drop_bit 3 tag = 2 then p else corr) sv (sc \<or> drop_bit 3 tag = 2) fs c"
        using less.hyps step by (fastforce split: if_splits)
      then show ?thesis using step frame_fields.frame_bytes [OF bytes(2-5)] bytes(1)
        by (intro exI [of _ "(drop_bit 3 tag, PB_Bytes p) # fs"]) (auto simp: rest_ok_def split: if_splits)
    next
      case (fixed32 t tag p rest)
      note step = less.prems [unfolded fixed32(1) extract_fixed [OF fixed32(2) disjI2 [OF conjI [OF fixed32(3,4)]], where q = "PB_Fixed32 p"]]
      have "length rest < length frame" using shorter [of t "p @ rest"] fixed32 by simp
      then obtain fs where "frame_fields rest fs" "rest_ok A corr sv sc fs c"
        using less.hyps step by blast
      then show ?thesis using step frame_fields.frame_fixed32 [OF fixed32(2-4)] fixed32(1)
        by (intro exI [of _ "(drop_bit 3 tag, PB_Fixed32 p) # fs"]) (auto simp: rest_ok_def)
    qed
  qed
qed

text \<open>
  C33: \<open>extractIngressCorrelation\<close> returns a correlation exactly for the frames that are a
  protobuf message of fields 1 to 8 with one version field, holding the verified ingress
  version, and one correlation field, whose payload is the returned correlation: of the
  correlation's length and not all zero. A second version or correlation field, an unknown
  field number or wire type, a truncated payload or trailing bytes are all refused.
\<close>

theorem extractIngressCorrelation_exact:
  "extractIngressCorrelation A frame = Inr c \<longleftrightarrow>
    (\<exists>fs. frame_fields frame fs \<and> list_all known_field fs \<and>
      version_fields fs = [VerifiedIngressVersion A] \<and> correlation_fields fs = [c] \<and>
      length c = CorrelationBytes A \<and> c \<noteq> zero_correlation A)"
  using extract_sound [of A "zero_correlation A" False False frame c]
    extract_complete [of frame _ A "zero_correlation A" False False c]
  by (auto simp: extractIngressCorrelation_def rest_ok_def)

lemma extractIngressCorrelation_length:
  "extractIngressCorrelation A frame = Inr c \<Longrightarrow> length c = CorrelationBytes A \<and> c \<noteq> zero_correlation A"
  using extract_sound [of A "zero_correlation A" False False frame c]
  by (auto simp: extractIngressCorrelation_def rest_ok_def)

end
