(* ===== verification/Broker.thy ===== *)
theory Broker
  imports Ingress_Types
begin

text \<open>
  The verified-ingress broker of \<^verbatim>\<open>go/ingress.go\<close>: its state, and one definition per method.
  Every method body that runs under \<open>b.mu\<close> is one function on the state; a method with two
  critical sections (\<open>assign\<close>, \<open>deliverIPCFrame\<close>) is one function per section and their
  composition. \<open>b.now()\<close> is an argument, one per reading. The functions stored in the broker
  (\<open>assignNative\<close> and \<open>fatal\<close>) are opaque values of the types \<open>'n\<close> and \<open>'f\<close>; a method that
  calls \<open>fatal\<close> after unlocking returns it, with the error it is called with being the error
  the method returns.

  \<open>time.AfterFunc\<close> timers are the association list \<open>b_timers\<close> from a timer to the arguments
  its function passes to \<open>expire\<close>: \<open>Stop\<close> removes a timer that has not fired.
\<close>

section \<open>State\<close>

record ingressPending =
  ip_handle :: u64
  ip_correlation :: correlation
  ip_expiresAt :: time
  ip_timer :: "nat option"

record expire_args =
  ex_generation :: u64
  ex_handle :: u64
  ex_correlation :: correlation
  ex_expiresAt :: time

record ('n, 'f) ingressBroker =
  b_opened :: "ConnectionOpen chan"
  b_verified :: "VerifiedFrame chan"
  b_active :: bool
  b_generation :: u64
  b_assignNative :: "'n option"
  b_fatal :: "'f option"
  b_handles :: "(u64 \<times> time) list"
  b_correlations :: "(correlation \<times> ingressPending) list"
  b_timers :: "(nat \<times> expire_args) list"
  b_nextTimer :: nat

text \<open>A returned error, the fatal callback to run after unlocking, and the new state.\<close>

type_synonym ('n, 'f) outcome = "ingress_error option \<times> 'f option \<times> ('n, 'f) ingressBroker"

definition defaultIngressQueueCapacity :: int where
  "defaultIngressQueueCapacity = 256"

definition ingressHandleTTL :: duration where
  "ingressHandleTTL = minute"

definition maxIngressHandles :: nat where
  "maxIngressHandles = 4096"

definition newIngressBroker :: "int \<Rightarrow> ('n, 'f) ingressBroker" where
  "newIngressBroker capacity =
     (let capacity = (if capacity < 1 then 1 else capacity) in
      \<lparr>b_opened = make_chan (nat capacity), b_verified = make_chan (nat capacity),
       b_active = False, b_generation = 0, b_assignNative = None, b_fatal = None,
       b_handles = [], b_correlations = [], b_timers = [], b_nextTimer = 0\<rparr>)"

section \<open>Dropping assignments\<close>

definition stopTimer :: "ingressPending \<Rightarrow> ('n, 'f) ingressBroker \<Rightarrow> ('n, 'f) ingressBroker" where
  "stopTimer p b = (case ip_timer p of None \<Rightarrow> b | Some i \<Rightarrow> b\<lparr>b_timers := AList.delete i (b_timers b)\<rparr>)"

text \<open>
  The loop \<open>for correlation, pending := range b.correlations\<close> that stops the timer of every
  entry whose pending satisfies \<open>P\<close> and deletes the entry.
\<close>

definition dropPendings ::
    "(ingressPending \<Rightarrow> bool) \<Rightarrow> ('n, 'f) ingressBroker \<Rightarrow> ('n, 'f) ingressBroker" where
  "dropPendings P b =
     fold (\<lambda>(c, p) b. if P p then (stopTimer p b)\<lparr>b_correlations := AList.delete c (b_correlations b)\<rparr> else b)
       (b_correlations b) b"

definition clearLocked :: "('n, 'f) ingressBroker \<Rightarrow> ('n, 'f) ingressBroker" where
  "clearLocked b =
     (let b = dropPendings (\<lambda>_. True) b;
          b = b\<lparr>b_handles := []\<rparr>;
          b = b\<lparr>b_opened := drain (b_opened b)\<rparr>
      in b\<lparr>b_verified := drain (b_verified b)\<rparr>)"

definition broker_activate ::
    "u64 \<Rightarrow> 'n option \<Rightarrow> 'f option \<Rightarrow> ('n, 'f) ingressBroker \<Rightarrow> ('n, 'f) ingressBroker" where
  "broker_activate generation assign fatal b =
     clearLocked (b\<lparr>b_active := (generation \<noteq> 0 \<and> assign \<noteq> None), b_generation := generation,
       b_assignNative := assign, b_fatal := fatal\<rparr>)"

definition broker_deactivate :: "u64 \<Rightarrow> ('n, 'f) ingressBroker \<Rightarrow> ('n, 'f) ingressBroker" where
  "broker_deactivate generation b =
     (if b_generation b \<noteq> generation then b
      else clearLocked (b\<lparr>b_active := False, b_assignNative := None, b_fatal := None\<rparr>))"

definition failLocked :: "('n, 'f) ingressBroker \<Rightarrow> 'f option \<times> ('n, 'f) ingressBroker" where
  "failLocked b =
     (let b = clearLocked (b\<lparr>b_active := False, b_assignNative := None\<rparr>) in (b_fatal b, b))"

definition broker_failGeneration :: "u64 \<Rightarrow> ('n, 'f) ingressBroker \<Rightarrow> ('n, 'f) ingressBroker" where
  "broker_failGeneration generation b =
     (if generation = b_generation b
      then clearLocked (b\<lparr>b_active := False, b_assignNative := None, b_fatal := None\<rparr>)
      else b)"

definition broker_closeHandle :: "u64 \<Rightarrow> u64 \<Rightarrow> ('n, 'f) ingressBroker \<Rightarrow> ('n, 'f) ingressBroker" where
  "broker_closeHandle generation handle b =
     (if generation \<noteq> b_generation b then b
      else dropPendings (\<lambda>p. ip_handle p = handle) (b\<lparr>b_handles := AList.delete handle (b_handles b)\<rparr>))"

definition clearAssignmentLocked ::
    "u64 \<Rightarrow> correlation \<Rightarrow> ('n, 'f) ingressBroker \<Rightarrow> ('n, 'f) ingressBroker" where
  "clearAssignmentLocked handle correlation b =
     (let b = b\<lparr>b_handles := AList.delete handle (b_handles b)\<rparr>;
          b = (case map_of (b_correlations b) correlation of
                 None \<Rightarrow> b
               | Some pending \<Rightarrow>
                   (stopTimer pending b)\<lparr>b_correlations := AList.delete correlation (b_correlations b),
                     b_handles := AList.delete (ip_handle pending) (b_handles b)\<rparr>)
      in dropPendings (\<lambda>p. ip_handle p = handle) b)"

definition broker_closeCorrelation ::
    "u64 \<Rightarrow> correlation \<Rightarrow> ('n, 'f) ingressBroker \<Rightarrow> ('n, 'f) ingressBroker" where
  "broker_closeCorrelation generation correlation b =
     (if generation \<noteq> b_generation b then b
      else case map_of (b_correlations b) correlation of
        None \<Rightarrow> b
      | Some pending \<Rightarrow>
          (stopTimer pending b)\<lparr>b_handles := AList.delete (ip_handle pending) (b_handles b),
            b_correlations := AList.delete correlation (b_correlations b)\<rparr>)"

text \<open>\<open>expire\<close> runs on the timer's goroutine; the timer has fired, there is nothing to stop.\<close>

definition broker_expire :: "expire_args \<Rightarrow> ('n, 'f) ingressBroker \<Rightarrow> ('n, 'f) ingressBroker" where
  "broker_expire x b =
     (if ex_generation x \<noteq> b_generation b then b
      else case map_of (b_correlations b) (ex_correlation x) of
        None \<Rightarrow> b
      | Some pending \<Rightarrow>
          if ip_handle pending \<noteq> ex_handle x \<or> ip_expiresAt pending \<noteq> ex_expiresAt x then b
          else b\<lparr>b_correlations := AList.delete (ex_correlation x) (b_correlations b),
                 b_handles := AList.delete (ex_handle x) (b_handles b)\<rparr>)"

section \<open>Opening a connection\<close>

definition assigningHandles :: "('n, 'f) ingressBroker \<Rightarrow> u64 list" where
  "assigningHandles b = map (ip_handle \<circ> snd) (b_correlations b)"

text \<open>The loop that looks for the oldest handle that is not being assigned.\<close>

fun oldestUnassigned :: "u64 list \<Rightarrow> (u64 \<times> time) option \<Rightarrow> (u64 \<times> time) list \<Rightarrow> (u64 \<times> time) option" where
  "oldestUnassigned assigning best [] = best"
| "oldestUnassigned assigning best ((handle, openedAt) # hs) =
     (if handle \<in> set assigning then oldestUnassigned assigning best hs
      else oldestUnassigned assigning
        (case best of
           None \<Rightarrow> Some (handle, openedAt)
         | Some (oldest, oldestAt) \<Rightarrow>
             if openedAt < oldestAt then Some (handle, openedAt) else Some (oldest, oldestAt)) hs)"

definition evictStaleHandlesLocked :: "time \<Rightarrow> ('n, 'f) ingressBroker \<Rightarrow> bool \<times> ('n, 'f) ingressBroker" where
  "evictStaleHandlesLocked now b =
     (let assigning = assigningHandles b;
          hs = filter (\<lambda>(handle, openedAt). handle \<in> set assigning \<or> \<not> time_sub now openedAt > ingressHandleTTL)
                 (b_handles b);
          b = b\<lparr>b_handles := hs\<rparr>
      in if length hs < maxIngressHandles then (True, b)
         else case oldestUnassigned assigning None hs of
           None \<Rightarrow> (False, b)
         | Some (oldest, _) \<Rightarrow> (True, b\<lparr>b_handles := AList.delete oldest hs\<rparr>))"

definition failWith :: "ingress_error \<Rightarrow> ('n, 'f) ingressBroker \<Rightarrow> ('n, 'f) outcome" where
  "failWith err b = (case failLocked b of (fatal, b) \<Rightarrow> (Some err, fatal, b))"

definition broker_open :: "time \<Rightarrow> u64 \<Rightarrow> u64 \<Rightarrow> ('n, 'f) ingressBroker \<Rightarrow> ('n, 'f) outcome" where
  "broker_open now generation handle b =
     (if generation \<noteq> b_generation b then (Some ErrIngressGeneration, None, b)
      else if \<not> b_active b then (Some ErrIngressClosed, None, b)
      else if handle = 0 then failWith ErrIngressMismatch b
      else if map_of (b_handles b) handle \<noteq> None then failWith ErrIngressDuplicate b
      else case evictStaleHandlesLocked now b of (room, b) \<Rightarrow>
        if \<not> room then failWith ErrIngressOverflow b
        else (let b = b\<lparr>b_handles := AList.update handle now (b_handles b)\<rparr> in
          case try_send (b_opened b) \<lparr>co_generation = generation, co_handle = handle\<rparr> of
            Some opened \<Rightarrow> (None, None, b\<lparr>b_opened := opened\<rparr>)
          | None \<Rightarrow> failWith ErrIngressOverflow b))"

section \<open>Assigning a correlation\<close>

text \<open>An error returned by \<open>assign\<close>: a sentinel, or one wrapped with the native return code.\<close>

datatype assign_error = AssignErr ingress_error | AssignRC ingress_error int

text \<open>
  Up to the second \<open>Unlock\<close>: either the error that is returned, or the \<open>assignNative\<close> that is
  called next.
\<close>

definition broker_assign_begin ::
    "abi \<Rightarrow> time \<Rightarrow> ConnectionAssignment \<Rightarrow> ('n, 'f) ingressBroker \<Rightarrow>
      (ingress_error + 'n option) \<times> ('n, 'f) ingressBroker" where
  "broker_assign_begin A now a b =
     (if \<not> ca_expiresAt a > now \<or> time_sub (ca_expiresAt a) now > MaxIngressLifetime A
      then (Inl ErrIngressLifetime, broker_closeHandle (ca_generation a) (ca_handle a) b)
      else if ca_correlation a = zero_correlation A
      then (Inl ErrIngressMismatch, broker_closeHandle (ca_generation a) (ca_handle a) b)
      else if ca_generation a \<noteq> b_generation b then (Inl ErrIngressGeneration, b)
      else if \<not> b_active b then (Inl ErrIngressClosed, b)
      else if map_of (b_handles b) (ca_handle a) = None then (Inl ErrIngressClosed, b)
      else if map_of (b_correlations b) (ca_correlation a) \<noteq> None
      then (Inl ErrIngressDuplicate, clearAssignmentLocked (ca_handle a) (ca_correlation a) b)
      else case find (\<lambda>(_, p). ip_handle p = ca_handle a) (b_correlations b) of
        Some (_, pending) \<Rightarrow>
          (Inl ErrIngressDuplicate, clearAssignmentLocked (ca_handle a) (ip_correlation pending) b)
      | None \<Rightarrow>
          (let timer = b_nextTimer b;
               pending = \<lparr>ip_handle = ca_handle a, ip_correlation = ca_correlation a,
                 ip_expiresAt = ca_expiresAt a, ip_timer = Some timer\<rparr>;
               args = \<lparr>ex_generation = ca_generation a, ex_handle = ca_handle a,
                 ex_correlation = ca_correlation a, ex_expiresAt = ca_expiresAt a\<rparr>
           in (Inr (b_assignNative b),
               b\<lparr>b_nextTimer := Suc timer, b_timers := AList.update timer args (b_timers b),
                 b_correlations := AList.update (ca_correlation a) pending (b_correlations b)\<rparr>)))"

text \<open>From the return of \<open>assignNative(a)\<close> with the code \<open>rc\<close>.\<close>

definition broker_assign_end ::
    "abi \<Rightarrow> int \<Rightarrow> ConnectionAssignment \<Rightarrow> ('n, 'f) ingressBroker \<Rightarrow>
      assign_error option \<times> ('n, 'f) ingressBroker" where
  "broker_assign_end A rc a b =
     (if rc = AssignmentOK A then (None, b)
      else (let b = broker_closeHandle (ca_generation a) (ca_handle a) b in
        if rc \<in> {AssignmentUnknownOrClosedHandle A, AssignmentDuplicateHandleOrCorrelation A,
                 AssignmentInvalidOrExpiredTime A, AssignmentWrongConnectionState A}
        then (Some (AssignRC ErrIngressRejected rc), b)
        else (Some (AssignRC ErrIngressABI rc), b)))"

text \<open>
  The whole method; \<open>native\<close> runs the stored function, which may itself use the broker.
  Calling a nil function panics (\<open>None\<close>).
\<close>

definition broker_assign ::
    "abi \<Rightarrow> time \<Rightarrow> ('n \<Rightarrow> ConnectionAssignment \<Rightarrow> ('n, 'f) ingressBroker \<Rightarrow> int \<times> ('n, 'f) ingressBroker) \<Rightarrow>
      ConnectionAssignment \<Rightarrow> ('n, 'f) ingressBroker \<Rightarrow>
      (assign_error option \<times> ('n, 'f) ingressBroker) option" where
  "broker_assign A now native a b =
     (case broker_assign_begin A now a b of
        (Inl err, b) \<Rightarrow> Some (Some (AssignErr err), b)
      | (Inr None, b) \<Rightarrow> None
      | (Inr (Some f), b) \<Rightarrow> (case native f a b of (rc, b) \<Rightarrow> Some (broker_assign_end A rc a b)))"

section \<open>Delivering a verified frame\<close>

definition broker_deliver ::
    "abi \<Rightarrow> time \<Rightarrow> u64 \<Rightarrow> correlation \<Rightarrow> bytes \<Rightarrow> u64 \<Rightarrow> ('n, 'f) ingressBroker \<Rightarrow> ('n, 'f) outcome" where
  "broker_deliver A now generation correlation frame expiresUnixMS b =
     (if length frame < MinIngressFrameBytes A \<or> length frame > MaxIngressFrameBytes A
      then (Some ErrIngressFrame, None, broker_closeCorrelation generation correlation b)
      else (let expiresAt = time_of_unix_milli expiresUnixMS in
        if \<not> expiresAt > now \<or> time_sub expiresAt now > MaxIngressLifetime A
        then (Some ErrIngressLifetime, None, broker_closeCorrelation generation correlation b)
        else if generation \<noteq> b_generation b then (Some ErrIngressGeneration, None, b)
        else if \<not> b_active b then (Some ErrIngressClosed, None, b)
        else case map_of (b_correlations b) correlation of
          None \<Rightarrow> (Some ErrIngressMismatch, None, b)
        | Some pending \<Rightarrow>
            (let dropped = (stopTimer pending b)\<lparr>b_correlations := AList.delete correlation (b_correlations b),
                   b_handles := AList.delete (ip_handle pending) (b_handles b)\<rparr>
             in if unix_milli (ip_expiresAt pending) \<noteq> expiresUnixMS
                then (Some ErrIngressMismatch, None, dropped)
                else case try_send (b_verified dropped)
                       \<lparr>vf_generation = generation, vf_handle = ip_handle pending,
                        vf_correlation = correlation, vf_frame = frame, vf_expiresAt = expiresAt\<rparr> of
                  Some verified \<Rightarrow> (None, None, dropped\<lparr>b_verified := verified\<rparr>)
                | None \<Rightarrow> failWith ErrIngressOverflow dropped)))"

definition broker_deliverCallback ::
    "abi \<Rightarrow> time \<Rightarrow> u64 \<Rightarrow> correlation \<Rightarrow> bytes \<Rightarrow> u64 \<Rightarrow> ('n, 'f) ingressBroker \<Rightarrow> ('n, 'f) outcome" where
  "broker_deliverCallback A now generation correlation frame expiresUnixMS b =
     broker_deliver A now generation correlation frame expiresUnixMS b"

text \<open>The first critical section of \<open>deliverIPCFrame\<close>: the expiry to deliver with.\<close>

definition broker_lookupIPC ::
    "u64 \<Rightarrow> correlation \<Rightarrow> ('n, 'f) ingressBroker \<Rightarrow> ingress_error + u64" where
  "broker_lookupIPC handle correlation b =
     (case map_of (b_correlations b) correlation of
        None \<Rightarrow> Inl ErrIngressMismatch
      | Some pending \<Rightarrow>
          if ip_handle pending \<noteq> handle then Inl ErrIngressMismatch
          else Inr (unix_milli (ip_expiresAt pending)))"

definition broker_deliverIPCFrame ::
    "abi \<Rightarrow> time \<Rightarrow> u64 \<Rightarrow> u64 \<Rightarrow> correlation \<Rightarrow> bytes \<Rightarrow> ('n, 'f) ingressBroker \<Rightarrow> ('n, 'f) outcome" where
  "broker_deliverIPCFrame A now generation handle correlation frame b =
     (case broker_lookupIPC handle correlation b of
        Inl err \<Rightarrow> (Some err, None, b)
      | Inr expiresUnixMS \<Rightarrow> broker_deliver A now generation correlation frame expiresUnixMS b)"

end
