(* ===== verification/Broker_Inv.thy ===== *)
theory Broker_Inv
  imports Broker
begin

text \<open>
  The broker's invariant and its preservation by every method. The methods that drop
  assignments are first brought to one normal form (the three tables filtered), so that the
  invariant is proved once for all of them.
\<close>

section \<open>Normal forms\<close>

lemma delete_filter: "AList.delete k m = filter (\<lambda>(k', _). k \<noteq> k') m"
  by (simp add: AList.delete_eq)

lemma fold_drop:
  "fold (\<lambda>(c, p) b. if P p then (stopTimer p b)\<lparr>b_correlations := AList.delete c (b_correlations b)\<rparr> else b) xs b =
   b\<lparr>b_correlations := filter (\<lambda>(c, _). \<forall>(c', p) \<in> set xs. P p \<longrightarrow> c' \<noteq> c) (b_correlations b),
     b_timers := filter (\<lambda>(i, _). \<forall>(c, p) \<in> set xs. P p \<longrightarrow> ip_timer p \<noteq> Some i) (b_timers b)\<rparr>"
proof (induction xs arbitrary: b)
  case (Cons x xs)
  obtain c p where x: "x = (c, p)" by force
  have "(\<lambda>u. (case u of (i, _) \<Rightarrow> i \<noteq> k \<and> Q i)) = (\<lambda>u. (case u of (i, _) \<Rightarrow> k \<noteq> i \<and> Q i))" for k :: nat and Q
    by auto
  then show ?case unfolding x fold_Cons Cons.IH o_apply
    by (auto simp: stopTimer_def delete_filter filter_filter split_def split: option.splits
        intro!: ingressBroker.equality filter_cong)
qed simp

lemmas dropPendings_raw = fold_drop [of P "b_correlations b" b for P b, folded dropPendings_def]

lemma dropPendings_eq:
  assumes "gwf (b_correlations b)"
  shows "dropPendings P b =
    b\<lparr>b_correlations := filter (\<lambda>(_, p). \<not> P p) (b_correlations b),
      b_timers := filter (\<lambda>(i, _). \<forall>(c, p) \<in> set (b_correlations b). P p \<longrightarrow> ip_timer p \<noteq> Some i) (b_timers b)\<rparr>"
proof -
  have "filter (\<lambda>(c, _). \<forall>(c', p) \<in> set (b_correlations b). P p \<longrightarrow> c' \<noteq> c) (b_correlations b) =
      filter (\<lambda>(_, p). \<not> P p) (b_correlations b)"
    using eq_key_imp_eq_value [OF assms] by (intro filter_cong) auto
  then show ?thesis unfolding dropPendings_raw by simp
qed

lemma stopTimer_eq:
  "stopTimer p b = b\<lparr>b_timers := filter (\<lambda>(i, _). ip_timer p \<noteq> Some i) (b_timers b)\<rparr>"
  by (auto simp: stopTimer_def delete_filter split: option.splits)

lemma clearLocked_simps [simp]:
  "b_active (clearLocked b) = b_active b"
  "b_generation (clearLocked b) = b_generation b"
  "b_assignNative (clearLocked b) = b_assignNative b"
  "b_fatal (clearLocked b) = b_fatal b"
  "b_handles (clearLocked b) = []"
  "b_correlations (clearLocked b) = []"
  "chan_buf (b_opened (clearLocked b)) = []"
  "chan_buf (b_verified (clearLocked b)) = []"
  "chan_cap (b_opened (clearLocked b)) = chan_cap (b_opened b)"
  "chan_cap (b_verified (clearLocked b)) = chan_cap (b_verified b)"
  "b_nextTimer (clearLocked b) = b_nextTimer b"
  "b_timers (clearLocked b) =
     filter (\<lambda>(i, _). \<forall>(c, p) \<in> set (b_correlations b). ip_timer p \<noteq> Some i) (b_timers b)"
  by (auto simp: clearLocked_def dropPendings_raw drain_eq Let_def intro!: filter_False)

lemma failWith_eq:
  "failWith err b = (Some err, b_fatal b, clearLocked (b\<lparr>b_active := False, b_assignNative := None\<rparr>))"
  by (simp add: failWith_def failLocked_def Let_def)

section \<open>The invariant\<close>

text \<open>The arguments with which the timer of a pending assignment calls \<open>expire\<close>.\<close>

definition expire_of :: "('n, 'f) ingressBroker \<Rightarrow> ingressPending \<Rightarrow> expire_args" where
  "expire_of b p = \<lparr>ex_generation = b_generation b, ex_handle = ip_handle p,
     ex_correlation = ip_correlation p, ex_expiresAt = ip_expiresAt p\<rparr>"

text \<open>
  The two tables: distinct keys, an entry under its own correlation, at most one assignment
  per handle, only for a handle that is open, and never under the zero correlation.
\<close>

definition tables_ok :: "abi \<Rightarrow> ('n, 'f) ingressBroker \<Rightarrow> bool" where
  "tables_ok A b \<longleftrightarrow>
     gwf (b_handles b) \<and> gwf (b_correlations b) \<and> distinct (assigningHandles b) \<and>
     (\<forall>(c, p) \<in> set (b_correlations b).
        ip_correlation p = c \<and> c \<noteq> zero_correlation A \<and> ip_handle p \<in> fst ` set (b_handles b)) \<and>
     length (b_handles b) \<le> maxIngressHandles \<and> 0 \<notin> fst ` set (b_handles b)"

text \<open>
  Every pending assignment has its own timer, which is armed or has fired and is about to
  call \<open>expire\<close> (\<open>firing\<close>): no assignment can be left behind without an expiry.
\<close>

definition timers_ok :: "expire_args list \<Rightarrow> ('n, 'f) ingressBroker \<Rightarrow> bool" where
  "timers_ok firing b \<longleftrightarrow>
     gwf (b_timers b) \<and> (\<forall>i \<in> fst ` set (b_timers b). i < b_nextTimer b) \<and>
     distinct (map (ip_timer \<circ> snd) (b_correlations b)) \<and>
     (\<forall>(c, p) \<in> set (b_correlations b). \<exists>i. ip_timer p = Some i \<and> i < b_nextTimer b \<and>
        ((i, expire_of b p) \<in> set (b_timers b) \<or> expire_of b p \<in> set firing))"

text \<open>The queues stay within their capacity and hold events of the current generation only.\<close>

definition queues_ok :: "abi \<Rightarrow> ('n, 'f) ingressBroker \<Rightarrow> bool" where
  "queues_ok A b \<longleftrightarrow>
     length (chan_buf (b_opened b)) \<le> chan_cap (b_opened b) \<and> 1 \<le> chan_cap (b_opened b) \<and>
     length (chan_buf (b_verified b)) \<le> chan_cap (b_verified b) \<and> 1 \<le> chan_cap (b_verified b) \<and>
     (\<forall>x \<in> set (chan_buf (b_opened b)). co_generation x = b_generation b \<and> co_handle x \<noteq> 0) \<and>
     (\<forall>v \<in> set (chan_buf (b_verified b)). vf_generation v = b_generation b \<and> vf_handle v \<noteq> 0 \<and>
        vf_correlation v \<noteq> zero_correlation A \<and>
        MinIngressFrameBytes A \<le> length (vf_frame v) \<and> length (vf_frame v) \<le> MaxIngressFrameBytes A)"

text \<open>An active broker can be used; an inactive one holds nothing.\<close>

definition mode_ok :: "('n, 'f) ingressBroker \<Rightarrow> bool" where
  "mode_ok b \<longleftrightarrow>
     (if b_active b then b_generation b \<noteq> 0 \<and> b_assignNative b \<noteq> None
      else b_handles b = [] \<and> b_correlations b = [] \<and>
        chan_buf (b_opened b) = [] \<and> chan_buf (b_verified b) = [])"

definition broker_inv :: "abi \<Rightarrow> expire_args list \<Rightarrow> ('n, 'f) ingressBroker \<Rightarrow> bool" where
  "broker_inv A firing b \<longleftrightarrow> tables_ok A b \<and> timers_ok firing b \<and> queues_ok A b \<and> mode_ok b"

lemma broker_invD:
  assumes "broker_inv A F b"
  shows "tables_ok A b" "timers_ok F b" "queues_ok A b" "mode_ok b"
  using assms by (simp_all add: broker_inv_def)

lemma broker_inv_new: "broker_inv A [] (newIngressBroker capacity)"
  by (auto simp: broker_inv_def tables_ok_def timers_ok_def queues_ok_def mode_ok_def
      newIngressBroker_def assigningHandles_def make_chan_def Let_def)

lemma tables_okD:
  assumes "tables_ok A b"
  shows "gwf (b_handles b)" "gwf (b_correlations b)" "distinct (assigningHandles b)"
    "length (b_handles b) \<le> maxIngressHandles" "0 \<notin> fst ` set (b_handles b)"
    "\<And>c p. (c, p) \<in> set (b_correlations b) \<Longrightarrow> ip_correlation p = c"
    "\<And>c p. (c, p) \<in> set (b_correlations b) \<Longrightarrow> c \<noteq> zero_correlation A"
    "\<And>c p. (c, p) \<in> set (b_correlations b) \<Longrightarrow> ip_handle p \<in> fst ` set (b_handles b)"
  using assms by (auto simp: tables_ok_def)

lemma pending_unique_handle:
  assumes "tables_ok A b" "(c, p) \<in> set (b_correlations b)" "(d, q) \<in> set (b_correlations b)"
    "ip_handle p = ip_handle q"
  shows "c = d \<and> p = q"
proof -
  have "inj_on (ip_handle \<circ> snd) (set (b_correlations b))"
    using tables_okD(3) [OF assms(1)] by (simp add: assigningHandles_def distinct_map)
  from inj_onD [OF this _ assms(2,3)] assms(4) show ?thesis by simp
qed

lemma pending_same_iff:
  assumes "tables_ok A b" "(c, p) \<in> set (b_correlations b)" "(d, q) \<in> set (b_correlations b)"
  shows "ip_handle p = ip_handle q \<longleftrightarrow> c = d"
  using pending_unique_handle [OF assms] eq_key_imp_eq_value [OF tables_okD(2) [OF assms(1)]] assms(2,3) by blast

lemma pending_unique_timer:
  assumes "timers_ok F b" "(c, p) \<in> set (b_correlations b)" "(d, q) \<in> set (b_correlations b)"
    "ip_timer p = ip_timer q"
  shows "c = d \<and> p = q"
proof -
  have "inj_on (ip_timer \<circ> snd) (set (b_correlations b))"
    using assms(1) by (simp add: timers_ok_def distinct_map)
  from inj_onD [OF this _ assms(2,3)] assms(4) show ?thesis by simp
qed

section \<open>Dropping entries\<close>

text \<open>
  The effect all the closing methods share: handles, assignments and timers are filtered,
  a handle that is being assigned goes exactly when its assignment goes, and an assignment
  that stays keeps its timer.
\<close>

definition shrinks :: "('n, 'f) ingressBroker \<Rightarrow> ('n, 'f) ingressBroker \<Rightarrow> bool" where
  "shrinks b b' \<longleftrightarrow> (\<exists>Q R S.
     b' = b\<lparr>b_handles := filter Q (b_handles b), b_correlations := filter R (b_correlations b),
       b_timers := filter S (b_timers b)\<rparr> \<and>
     (\<forall>(c, p) \<in> set (b_correlations b).
        (\<forall>t. Q (ip_handle p, t) \<longleftrightarrow> R (c, p)) \<and> (\<forall>i x. R (c, p) \<and> ip_timer p = Some i \<longrightarrow> S (i, x))))"

lemma shrinks_refl: "shrinks b b"
  unfolding shrinks_def by (rule exI [of _ "\<lambda>_. True"])+ simp

lemma shrinksE:
  assumes "shrinks b b'"
  obtains Q R S where
    "b' = b\<lparr>b_handles := filter Q (b_handles b), b_correlations := filter R (b_correlations b),
       b_timers := filter S (b_timers b)\<rparr>"
    "\<And>c p t. (c, p) \<in> set (b_correlations b) \<Longrightarrow> Q (ip_handle p, t) \<longleftrightarrow> R (c, p)"
    "\<And>c p i x. (c, p) \<in> set (b_correlations b) \<Longrightarrow> R (c, p) \<Longrightarrow> ip_timer p = Some i \<Longrightarrow> S (i, x)"
  using assms unfolding shrinks_def by fastforce

lemma shrinks_tables:
  assumes "shrinks b b'" and ok: "tables_ok A b"
  shows "tables_ok A b'"
  using assms(1)
proof (rule shrinksE)
  fix Q R S
  assume b': "b' = b\<lparr>b_handles := filter Q (b_handles b), b_correlations := filter R (b_correlations b),
       b_timers := filter S (b_timers b)\<rparr>"
    and Q: "\<And>c p t. (c, p) \<in> set (b_correlations b) \<Longrightarrow> Q (ip_handle p, t) \<longleftrightarrow> R (c, p)"
  note t = tables_okD [OF ok]
  have "ip_handle p \<in> fst ` set (b_handles b')" if "(c, p) \<in> set (b_correlations b')" for c p
    using that t(8) [of c p] Q [of c p] by (force simp: b')
  moreover have "length (b_handles b') \<le> maxIngressHandles"
    using t(4) by (auto simp: b' intro: order_trans [OF length_filter_le])
  moreover have "distinct (assigningHandles b')"
    using t(3) by (simp add: b' assigningHandles_def distinct_map_filter)
  moreover have "0 \<notin> fst ` set (b_handles b')" using t(5) by (auto simp: b')
  ultimately show ?thesis
    using t(1,2,6) by (auto simp: tables_ok_def b' dest: t(7))
qed

lemma shrinks_timers:
  assumes "shrinks b b'" and ok: "timers_ok F b"
  shows "timers_ok F b'"
  using assms(1)
proof (rule shrinksE)
  fix Q R S
  assume b': "b' = b\<lparr>b_handles := filter Q (b_handles b), b_correlations := filter R (b_correlations b),
       b_timers := filter S (b_timers b)\<rparr>"
    and S: "\<And>c p i x. (c, p) \<in> set (b_correlations b) \<Longrightarrow> R (c, p) \<Longrightarrow> ip_timer p = Some i \<Longrightarrow> S (i, x)"
  have e: "expire_of b' = expire_of b" by (auto simp: expire_of_def b')
  have "\<exists>i. ip_timer p = Some i \<and> i < b_nextTimer b' \<and>
        ((i, expire_of b' p) \<in> set (b_timers b') \<or> expire_of b' p \<in> set F)"
    if "(c, p) \<in> set (b_correlations b')" for c p
    using that ok S [of c p] unfolding e by (fastforce simp: b' timers_ok_def)
  then show ?thesis
    using ok by (auto simp: timers_ok_def b' distinct_map_filter)
qed

lemma shrinks_inv: "shrinks b b' \<Longrightarrow> broker_inv A F b \<Longrightarrow> broker_inv A F b'"
  using shrinks_tables [of b b' A] shrinks_timers [of b b' F]
  by (auto simp: broker_inv_def shrinks_def queues_ok_def mode_ok_def)

text \<open>Dropping one assignment with its handle and timer, and dropping a handle.\<close>

definition drop_one :: "correlation \<Rightarrow> ingressPending \<Rightarrow> ('n, 'f) ingressBroker \<Rightarrow> ('n, 'f) ingressBroker" where
  "drop_one c p b = (stopTimer p b)\<lparr>b_correlations := AList.delete c (b_correlations b),
     b_handles := AList.delete (ip_handle p) (b_handles b)\<rparr>"

lemma shrinks_drop_one:
  assumes "tables_ok A b" "timers_ok F b" "map_of (b_correlations b) c = Some p"
  shows "shrinks b (drop_one c p b)"
proof -
  have p: "(c, p) \<in> set (b_correlations b)" using assms(3) by (rule map_of_SomeD)
  let ?Q = "\<lambda>(h, _ :: time). ip_handle p \<noteq> h" and ?R = "\<lambda>(c', _ :: ingressPending). c \<noteq> c'"
    and ?S = "\<lambda>(i, _ :: expire_args). ip_timer p \<noteq> Some i"
  have "drop_one c p b = b\<lparr>b_handles := filter ?Q (b_handles b),
      b_correlations := filter ?R (b_correlations b), b_timers := filter ?S (b_timers b)\<rparr>"
    by (simp add: drop_one_def stopTimer_eq delete_filter)
  moreover have "ip_handle p \<noteq> ip_handle q \<longleftrightarrow> c \<noteq> d" "c \<noteq> d \<Longrightarrow> ip_timer p \<noteq> ip_timer q"
    if "(d, q) \<in> set (b_correlations b)" for d q
    using pending_same_iff [OF assms(1) p that] pending_unique_timer [OF assms(2) p that] by blast+
  ultimately show ?thesis
    unfolding shrinks_def by (intro exI [of _ ?Q] exI [of _ ?R] exI [of _ ?S]) fastforce
qed

lemma closeHandle_eq:
  assumes "tables_ok A b" "generation = b_generation b"
  shows "broker_closeHandle generation h b =
    b\<lparr>b_handles := filter (\<lambda>(h', _). h \<noteq> h') (b_handles b),
      b_correlations := filter (\<lambda>(_, p). ip_handle p \<noteq> h) (b_correlations b),
      b_timers := filter (\<lambda>(i, _). \<forall>(c, p) \<in> set (b_correlations b). ip_handle p = h \<longrightarrow> ip_timer p \<noteq> Some i)
        (b_timers b)\<rparr>"
  using assms tables_okD(2) [OF assms(1)]
  by (simp add: broker_closeHandle_def dropPendings_eq delete_filter)

lemma shrinks_closeHandle:
  assumes "tables_ok A b" "timers_ok F b"
  shows "shrinks b (broker_closeHandle generation h b)"
proof (cases "generation = b_generation b")
  case True
  let ?Q = "\<lambda>(h', _ :: time). h \<noteq> h'" and ?R = "\<lambda>(_ :: correlation, p). ip_handle p \<noteq> h"
    and ?S = "\<lambda>(i, _ :: expire_args). \<forall>(c, p) \<in> set (b_correlations b). ip_handle p = h \<longrightarrow> ip_timer p \<noteq> Some i"
  have "ip_timer p \<noteq> ip_timer q" if "(c, p) \<in> set (b_correlations b)" "(d, q) \<in> set (b_correlations b)"
    "ip_handle p = h" "ip_handle q \<noteq> h" for c p d q
    using pending_unique_timer [OF assms(2) that(1,2)] that(3,4) by auto
  then show ?thesis
    unfolding shrinks_def closeHandle_eq [OF assms(1) True]
    by (intro exI [of _ ?Q] exI [of _ ?R] exI [of _ ?S]) fastforce
qed (simp add: broker_closeHandle_def shrinks_refl)

lemma shrinks_trans:
  assumes "shrinks a b" "shrinks b c"
  shows "shrinks a c"
proof -
  obtain Q R S where b: "b = a\<lparr>b_handles := filter Q (b_handles a),
      b_correlations := filter R (b_correlations a), b_timers := filter S (b_timers a)\<rparr>"
    and 1: "\<And>c p t. (c, p) \<in> set (b_correlations a) \<Longrightarrow> Q (ip_handle p, t) \<longleftrightarrow> R (c, p)"
      "\<And>c p i x. (c, p) \<in> set (b_correlations a) \<Longrightarrow> R (c, p) \<Longrightarrow> ip_timer p = Some i \<Longrightarrow> S (i, x)"
    using assms(1) by (rule shrinksE) blast
  obtain Q' R' S' where c: "c = b\<lparr>b_handles := filter Q' (b_handles b),
      b_correlations := filter R' (b_correlations b), b_timers := filter S' (b_timers b)\<rparr>"
    and 2: "\<And>c p t. (c, p) \<in> set (b_correlations b) \<Longrightarrow> Q' (ip_handle p, t) \<longleftrightarrow> R' (c, p)"
      "\<And>c p i x. (c, p) \<in> set (b_correlations b) \<Longrightarrow> R' (c, p) \<Longrightarrow> ip_timer p = Some i \<Longrightarrow> S' (i, x)"
    using assms(2) by (rule shrinksE) blast
  show ?thesis
    unfolding shrinks_def
    by (rule exI [of _ "\<lambda>x. Q x \<and> Q' x"], rule exI [of _ "\<lambda>x. R x \<and> R' x"], rule exI [of _ "\<lambda>x. S x \<and> S' x"])
      (use 1 2 in \<open>auto simp: b c\<close>)
qed

lemma clearAssignmentLocked_eq:
  "clearAssignmentLocked h c b =
    broker_closeHandle (b_generation b) h
      (case map_of (b_correlations b) c of None \<Rightarrow> b | Some p \<Rightarrow> drop_one c p b)"
  by (auto simp: clearAssignmentLocked_def broker_closeHandle_def drop_one_def stopTimer_eq Let_def
      delete_filter filter_filter conj_commute split: option.splits
      intro!: arg_cong [where f = "dropPendings _"] filter_cong)

lemma shrinks_clearAssignmentLocked:
  assumes "tables_ok A b" "timers_ok F b"
  shows "shrinks b (clearAssignmentLocked h c b)"
proof -
  let ?b = "case map_of (b_correlations b) c of None \<Rightarrow> b | Some p \<Rightarrow> drop_one c p b"
  have s: "shrinks b ?b"
    using shrinks_drop_one [OF assms] shrinks_refl by (auto split: option.splits)
  then have "shrinks ?b (broker_closeHandle (b_generation b) h ?b)"
    using assms by (intro shrinks_closeHandle) (rule shrinks_tables shrinks_timers; assumption)+
  with s show ?thesis unfolding clearAssignmentLocked_eq by (rule shrinks_trans)
qed

lemma closeCorrelation_eq:
  "broker_closeCorrelation generation c b =
    (if generation \<noteq> b_generation b then b
     else case map_of (b_correlations b) c of None \<Rightarrow> b | Some p \<Rightarrow> drop_one c p b)"
  by (auto simp: broker_closeCorrelation_def drop_one_def stopTimer_eq split: option.splits)

lemma shrinks_closeCorrelation:
  assumes "tables_ok A b" "timers_ok F b"
  shows "shrinks b (broker_closeCorrelation generation c b)"
  using shrinks_drop_one [OF assms, of c] shrinks_refl [of b]
  by (auto simp: closeCorrelation_eq split: option.splits)

section \<open>Preservation\<close>

lemma clearLocked_inv:
  assumes "timers_ok F b0" "queues_ok A b0" "b_timers b = b_timers b0" "b_nextTimer b = b_nextTimer b0"
    "chan_cap (b_opened b) = chan_cap (b_opened b0)" "chan_cap (b_verified b) = chan_cap (b_verified b0)"
    "b_active b \<Longrightarrow> b_generation b \<noteq> 0 \<and> b_assignNative b \<noteq> None"
  shows "broker_inv A F' (clearLocked b)"
  using assms
  by (auto simp: broker_inv_def tables_ok_def timers_ok_def queues_ok_def mode_ok_def assigningHandles_def)

lemma activate_inv: "broker_inv A F b \<Longrightarrow> broker_inv A F' (broker_activate g n f b)"
  unfolding broker_activate_def by (rule clearLocked_inv [of F b A]) (auto dest: broker_invD)

lemma failWith_inv: "broker_inv A F b \<Longrightarrow> failWith err b = (e, f, b') \<Longrightarrow> broker_inv A F' b'"
  unfolding failWith_eq by (auto intro!: clearLocked_inv [of F b A] dest: broker_invD)

lemma deactivate_inv: "broker_inv A F b \<Longrightarrow> broker_inv A F (broker_deactivate g b)"
  unfolding broker_deactivate_def by (auto intro!: clearLocked_inv [of F b A] dest: broker_invD)

lemma failGeneration_inv: "broker_inv A F b \<Longrightarrow> broker_inv A F (broker_failGeneration g b)"
  unfolding broker_failGeneration_def by (auto intro!: clearLocked_inv [of F b A] dest: broker_invD)

lemma closing_inv:
  assumes "broker_inv A F b"
  shows "broker_inv A F (broker_closeHandle g h b)"
    and "broker_inv A F (broker_closeCorrelation g c b)"
    and "broker_inv A F (clearAssignmentLocked h c b)"
    and "map_of (b_correlations b) c = Some p \<Longrightarrow> broker_inv A F (drop_one c p b)"
proof -
  note ok = broker_invD(1) [OF assms] broker_invD(2) [OF assms]
  note keep = shrinks_inv [OF _ assms]
  show "broker_inv A F (broker_closeHandle g h b)" by (rule keep [OF shrinks_closeHandle [OF ok]])
  show "broker_inv A F (broker_closeCorrelation g c b)" by (rule keep [OF shrinks_closeCorrelation [OF ok]])
  show "broker_inv A F (clearAssignmentLocked h c b)" by (rule keep [OF shrinks_clearAssignmentLocked [OF ok]])
  show "map_of (b_correlations b) c = Some p \<Longrightarrow> broker_inv A F (drop_one c p b)"
    by (rule keep [OF shrinks_drop_one [OF ok]])
qed

text \<open>
  A timer that fires leaves \<open>b_timers\<close> for the list of pending \<open>expire\<close> calls; the call, when it
  gets the lock, removes the assignment the timer was made for.
\<close>

lemma fire_inv:
  assumes "broker_inv A F b" "map_of (b_timers b) i = Some x"
  shows "broker_inv A (x # F) (b\<lparr>b_timers := AList.delete i (b_timers b)\<rparr>)"
proof -
  let ?b = "b\<lparr>b_timers := AList.delete i (b_timers b)\<rparr>"
  have ok: "timers_ok F b" using assms(1) by (simp add: broker_inv_def)
  then have "gwf (b_timers b)" by (simp add: timers_ok_def)
  then have x: "y = x" if "(i, y) \<in> set (b_timers b)" for y
    using assms(2) that by simp
  have e: "expire_of ?b = expire_of b" by (auto simp: expire_of_def)
  have "timers_ok (x # F) ?b"
    using ok x unfolding timers_ok_def e by (fastforce simp: set_delete_iff)
  then show ?thesis
    using assms(1) by (simp add: broker_inv_def tables_ok_def queues_ok_def mode_ok_def assigningHandles_def)
qed

lemma expire_cases:
  obtains (same) "broker_expire x b = b"
    "\<And>p. map_of (b_correlations b) (ex_correlation x) = Some p \<Longrightarrow> expire_of b p \<noteq> x"
  | (drop) p where "map_of (b_correlations b) (ex_correlation x) = Some p" "ip_handle p = ex_handle x"
      "ip_expiresAt p = ex_expiresAt x" "ex_generation x = b_generation b"
      "broker_expire x b = b\<lparr>b_correlations := AList.delete (ex_correlation x) (b_correlations b),
         b_handles := AList.delete (ip_handle p) (b_handles b)\<rparr>"
proof (cases "map_of (b_correlations b) (ex_correlation x)")
  case None
  then show ?thesis by (intro same) (auto simp: broker_expire_def)
next
  case (Some p)
  show ?thesis
  proof (cases "ex_generation x = b_generation b \<and> ip_handle p = ex_handle x \<and> ip_expiresAt p = ex_expiresAt x")
    case True
    with Some show ?thesis by (intro drop [of p]) (auto simp: broker_expire_def)
  next
    case False
    with Some show ?thesis by (intro same) (auto simp: broker_expire_def expire_of_def)
  qed
qed

lemma expire_shrinks:
  assumes "tables_ok A b" "map_of (b_correlations b) c = Some p"
  shows "shrinks b (b\<lparr>b_correlations := AList.delete c (b_correlations b),
         b_handles := AList.delete (ip_handle p) (b_handles b)\<rparr>)"
proof -
  have p: "(c, p) \<in> set (b_correlations b)" using assms(2) by (rule map_of_SomeD)
  let ?Q = "\<lambda>(h, _ :: time). ip_handle p \<noteq> h" and ?R = "\<lambda>(c', _ :: ingressPending). c \<noteq> c'"
  have "ip_handle p \<noteq> ip_handle q \<longleftrightarrow> c \<noteq> d" if "(d, q) \<in> set (b_correlations b)" for d q
    using pending_same_iff [OF assms(1) p that] by blast
  then show ?thesis
    unfolding shrinks_def delete_filter
    by (intro exI [of _ ?Q] exI [of _ ?R] exI [of _ "\<lambda>_. True"]) fastforce
qed

lemma shrinks_expire:
  assumes "tables_ok A b"
  shows "shrinks b (broker_expire x b)"
proof (cases rule: expire_cases [of x b])
  case (drop p)
  show ?thesis unfolding drop(5) by (rule expire_shrinks [OF assms drop(1)])
qed (simp add: shrinks_refl)

lemma expire_inv:
  assumes inv: "broker_inv A F b"
  shows "broker_inv A (remove1 x F) (broker_expire x b)"
proof -
  have tb: "tables_ok A b" and tm: "timers_ok F b" using inv by (auto dest: broker_invD)
  have 1: "broker_inv A F (broker_expire x b)" by (rule shrinks_inv [OF shrinks_expire [OF tb] inv])
  have "expire_of (broker_expire x b) p \<noteq> x" if "(c, p) \<in> set (b_correlations (broker_expire x b))" for c p
  proof (cases rule: expire_cases [of x b])
    case same
    have "map_of (b_correlations b) c = Some p" "ip_correlation p = c"
      using that same(1) tables_okD(2,6) [OF tb] by simp_all
    then show ?thesis using same by (auto simp: expire_of_def)
  next
    case (drop q)
    then have "c \<noteq> ex_correlation x" "ip_correlation p = c"
      using that tables_okD(6) [OF tb] by (auto simp: set_delete_iff)
    then show ?thesis by (auto simp: expire_of_def dest: arg_cong [where f = ex_correlation])
  qed
  then have "timers_ok (remove1 x F) (broker_expire x b)"
    using broker_invD(2) [OF 1] unfolding timers_ok_def by (fastforce simp: in_set_remove1)
  then show ?thesis using 1 by (simp add: broker_inv_def)
qed

section \<open>Eviction\<close>

lemma oldestUnassigned_None:
  "oldestUnassigned as best hs = None \<longleftrightarrow> best = None \<and> (\<forall>(h, t) \<in> set hs. h \<in> set as)"
  by (induction as best hs rule: oldestUnassigned.induct) (auto split: option.splits)

lemma oldestUnassigned_Some:
  assumes "oldestUnassigned as best hs = Some (h, t)"
  shows "((h, t) \<in> set hs \<and> h \<notin> set as \<or> best = Some (h, t)) \<and>
    (\<forall>(h', t') \<in> set hs. h' \<notin> set as \<longrightarrow> t \<le> t') \<and> (\<forall>h' t'. best = Some (h', t') \<longrightarrow> t \<le> t')"
  using assms
proof (induction as best hs rule: oldestUnassigned.induct)
  case (2 as best h0 t0 hs)
  show ?case
  proof (cases "h0 \<in> set as")
    case True
    then show ?thesis using 2 by auto
  next
    case False
    define best' where "best' = (case best of None \<Rightarrow> Some (h0, t0)
      | Some (o1, t1) \<Rightarrow> if t0 < t1 then Some (h0, t0) else Some (o1, t1))"
    then have ih: "((h, t) \<in> set hs \<and> h \<notin> set as \<or> best' = Some (h, t)) \<and>
        (\<forall>(h', t') \<in> set hs. h' \<notin> set as \<longrightarrow> t \<le> t') \<and> (\<forall>h' t'. best' = Some (h', t') \<longrightarrow> t \<le> t')"
      using 2(2) [OF False] 2(3) False by simp
    obtain h1 t1 where b1: "best' = Some (h1, t1)" "t1 \<le> t0" "best = None \<or> best = Some (h1, t1) \<or> (h1, t1) = (h0, t0)"
      "\<And>o2 t2. best = Some (o2, t2) \<Longrightarrow> t1 \<le> t2" "best = None \<Longrightarrow> (h1, t1) = (h0, t0)"
      by (cases best; cases "t0 < snd (the best)") (auto simp: best'_def)
    have "t \<le> t1" using ih b1(1) by blast
    then have "\<forall>h' t'. best = Some (h', t') \<longrightarrow> t \<le> t'" "t \<le> t0" using b1(2,4) by force+
    moreover have "(h, t) \<in> set ((h0, t0) # hs) \<and> h \<notin> set as \<or> best = Some (h, t)"
      using ih b1 False by auto
    ultimately show ?thesis using ih by auto
  qed
qed simp

text \<open>What an eviction keeps: handles being assigned, and handles younger than the TTL.\<close>

definition fresh_handles :: "time \<Rightarrow> ('n, 'f) ingressBroker \<Rightarrow> (u64 \<times> time) list" where
  "fresh_handles now b = filter (\<lambda>(handle, openedAt).
     handle \<in> set (assigningHandles b) \<or> \<not> time_sub now openedAt > ingressHandleTTL) (b_handles b)"

lemma evict_cases:
  obtains (room) "length (fresh_handles now b) < maxIngressHandles"
      "evictStaleHandlesLocked now b = (True, b\<lparr>b_handles := fresh_handles now b\<rparr>)"
  | (busy) "maxIngressHandles \<le> length (fresh_handles now b)"
      "\<forall>(h, t) \<in> set (fresh_handles now b). h \<in> set (assigningHandles b)"
      "evictStaleHandlesLocked now b = (False, b\<lparr>b_handles := fresh_handles now b\<rparr>)"
  | (oldest) h t where "maxIngressHandles \<le> length (fresh_handles now b)"
      "(h, t) \<in> set (fresh_handles now b)" "h \<notin> set (assigningHandles b)"
      "\<forall>(h', t') \<in> set (fresh_handles now b). h' \<notin> set (assigningHandles b) \<longrightarrow> t \<le> t'"
      "evictStaleHandlesLocked now b = (True, b\<lparr>b_handles := AList.delete h (fresh_handles now b)\<rparr>)"
proof (cases "length (fresh_handles now b) < maxIngressHandles")
  case True
  then show ?thesis
    by (intro room) (auto simp: evictStaleHandlesLocked_def Let_def fresh_handles_def)
next
  case full: False
  note ev = evictStaleHandlesLocked_def [of now b, unfolded Let_def, folded fresh_handles_def]
  show ?thesis
  proof (cases "oldestUnassigned (assigningHandles b) None (fresh_handles now b)")
    case None
    then show ?thesis
      using full iffD1 [OF oldestUnassigned_None None] by (intro busy) (simp_all add: ev)
  next
    case (Some ht)
    then obtain h t where ht: "oldestUnassigned (assigningHandles b) None (fresh_handles now b) = Some (h, t)"
      by (cases ht) auto
    then show ?thesis
      using full oldestUnassigned_Some [OF ht] by (intro oldest [of h t]) (auto simp: ev)
  qed
qed

lemma assigning_member: "(c, p) \<in> set (b_correlations b) \<Longrightarrow> ip_handle p \<in> set (assigningHandles b)"
  by (force simp: assigningHandles_def)

lemma fresh_handles_shrink:
  "shrinks b (b\<lparr>b_handles := fresh_handles now b\<rparr>)"
  unfolding shrinks_def fresh_handles_def
  by (rule exI [of _ "\<lambda>(h, t). h \<in> set (assigningHandles b) \<or> \<not> time_sub now t > ingressHandleTTL"],
      rule exI [of _ "\<lambda>_. True"], rule exI [of _ "\<lambda>_. True"])
    (auto dest: assigning_member)

lemma delete_idle_shrink:
  "h \<notin> set (assigningHandles b) \<Longrightarrow> shrinks b (b\<lparr>b_handles := AList.delete h (b_handles b)\<rparr>)"
  unfolding shrinks_def delete_filter
  by (rule exI [of _ "\<lambda>(h', _). h \<noteq> h'"], rule exI [of _ "\<lambda>_. True"], rule exI [of _ "\<lambda>_. True"])
    (auto dest: assigning_member)

lemma evict_shrinks:
  assumes "evictStaleHandlesLocked now b = (r, b')"
  shows "shrinks b b'"
proof -
  let ?f = "b\<lparr>b_handles := fresh_handles now b\<rparr>"
  have "b' = ?f \<or> (\<exists>h. h \<notin> set (assigningHandles ?f) \<and> b' = ?f\<lparr>b_handles := AList.delete h (b_handles ?f)\<rparr>)"
    by (cases rule: evict_cases [of now b]) (use assms in \<open>auto simp: assigningHandles_def\<close>)
  then show ?thesis
    using shrinks_trans [OF fresh_handles_shrink delete_idle_shrink] fresh_handles_shrink by blast
qed

lemma evict_inv:
  assumes inv: "broker_inv A F b" and ev: "evictStaleHandlesLocked now b = (r, b')"
  shows "broker_inv A F b'" "r \<Longrightarrow> length (b_handles b') < maxIngressHandles"
    "map_of (b_handles b) h = None \<Longrightarrow> map_of (b_handles b') h = None"
proof -
  show "broker_inv A F b'" by (rule shrinks_inv [OF evict_shrinks [OF ev] inv])
  note f = tables_okD [OF shrinks_tables [OF fresh_handles_shrink broker_invD(1) [OF inv], of now]]
  show "length (b_handles b') < maxIngressHandles" if r
  proof (cases rule: evict_cases [of now b])
    case (oldest h0 t0)
    have "Suc (length (AList.delete h0 (fresh_handles now b))) = length (fresh_handles now b)"
      using f(1) oldest(2) by (intro length_delete_present) auto
    then show ?thesis using ev oldest(5) f(4) by auto
  qed (use ev that in auto)
  show "map_of (b_handles b) h = None \<Longrightarrow> map_of (b_handles b') h = None"
    by (rule shrinksE [OF evict_shrinks [OF ev]]) (auto simp: map_of_eq_None_iff)
qed

section \<open>Opening, assigning, delivering\<close>

lemma map_of_None_fst: "map_of m k = None \<longleftrightarrow> k \<notin> fst ` set m"
  by (simp add: map_of_eq_None_iff)

lemma add_handle_inv:
  assumes inv: "broker_inv A F b" and act: "b_active b" and h: "h \<noteq> 0" "map_of (b_handles b) h = None"
    and room: "length (b_handles b) < maxIngressHandles"
  shows "broker_inv A F (b\<lparr>b_handles := AList.update h now (b_handles b)\<rparr>)"
proof -
  let ?b = "b\<lparr>b_handles := AList.update h now (b_handles b)\<rparr>"
  note t = tables_okD [OF broker_invD(1) [OF inv]]
  have "fst ` set (b_handles ?b) = insert h (fst ` set (b_handles b))"
    by (simp add: dom_update flip: dom_map_of_conv_image_fst)
  then have "tables_ok A ?b"
    using t(1-6,8) h room by (auto simp: tables_ok_def assigningHandles_def length_update_new dest: t(7))
  moreover have "expire_of ?b = expire_of b" by (auto simp: expire_of_def)
  ultimately show ?thesis
    using inv act by (simp add: broker_inv_def timers_ok_def queues_ok_def mode_ok_def)
qed

lemma send_opened_inv:
  assumes "broker_inv A F b" "b_active b" "try_send (b_opened b) x = Some q"
    "co_generation x = b_generation b" "co_handle x \<noteq> 0"
  shows "broker_inv A F (b\<lparr>b_opened := q\<rparr>)"
  using assms ch.send_Some [OF assms(3)] ch.bounded_send [OF assms(3)]
  by (auto simp: broker_inv_def tables_ok_def timers_ok_def queues_ok_def mode_ok_def expire_of_def
      assigningHandles_def ch.bounded_def)

lemma send_verified_inv:
  assumes "broker_inv A F b" "b_active b" "try_send (b_verified b) x = Some q"
    "vf_generation x = b_generation b" "vf_handle x \<noteq> 0" "vf_correlation x \<noteq> zero_correlation A"
    "MinIngressFrameBytes A \<le> length (vf_frame x)" "length (vf_frame x) \<le> MaxIngressFrameBytes A"
  shows "broker_inv A F (b\<lparr>b_verified := q\<rparr>)"
  using assms ch.send_Some [OF assms(3)] ch.bounded_send [OF assms(3)]
  by (auto simp: broker_inv_def tables_ok_def timers_ok_def queues_ok_def mode_ok_def expire_of_def
      assigningHandles_def ch.bounded_def)

lemma recv_inv:
  assumes "broker_inv A F b"
  shows "try_recv (b_opened b) = Some (x, q) \<Longrightarrow> broker_inv A F (b\<lparr>b_opened := q\<rparr>)"
    and "try_recv (b_verified b) = Some (v, r) \<Longrightarrow> broker_inv A F (b\<lparr>b_verified := r\<rparr>)"
  using assms ch.recv_Some [of "b_opened b" x q] ch.recv_Some [of "b_verified b" v r]
  by (auto simp: broker_inv_def tables_ok_def timers_ok_def queues_ok_def mode_ok_def expire_of_def
      assigningHandles_def split: if_splits)

text \<open>The branches of \<open>open\<close>.\<close>

lemma open_cases:
  assumes "broker_open now g h b = (err, f, b')"
  obtains (refused) "b' = b" "f = None" "err = Some ErrIngressGeneration \<and> g \<noteq> b_generation b \<or>
      err = Some ErrIngressClosed \<and> \<not> b_active b"
  | (failed) b0 e where "failWith e b0 = (err, f, b')" "b_active b" "g = b_generation b"
      "b0 = b \<or> (\<exists>room b1. evictStaleHandlesLocked now b = (room, b1) \<and>
         (b0 = b1 \<and> \<not> room \<or> b0 = b1\<lparr>b_handles := AList.update h now (b_handles b1)\<rparr> \<and> room \<and>
            h \<noteq> 0 \<and> map_of (b_handles b) h = None))"
  | (opened) b1 q where "err = None" "f = None" "b_active b" "g = b_generation b" "h \<noteq> 0"
      "map_of (b_handles b) h = None" "evictStaleHandlesLocked now b = (True, b1)"
      "try_send (b_opened b1) \<lparr>co_generation = g, co_handle = h\<rparr> = Some q"
      "b' = b1\<lparr>b_handles := AList.update h now (b_handles b1), b_opened := q\<rparr>"
proof (cases "g \<noteq> b_generation b \<or> \<not> b_active b \<or> h = 0 \<or> map_of (b_handles b) h \<noteq> None")
  case True
  consider "g \<noteq> b_generation b" | "g = b_generation b" "\<not> b_active b"
    | e where "g = b_generation b" "b_active b" "failWith e b = (err, f, b')"
    using assms True by (auto simp: broker_open_def split: if_splits)
  then show ?thesis
  proof cases
    case 3
    then show ?thesis by (intro failed [of e b]) auto
  qed (use assms refused in \<open>auto simp: broker_open_def\<close>)
next
  case False
  obtain room b1 where ev: "evictStaleHandlesLocked now b = (room, b1)" by force
  let ?b2 = "b1\<lparr>b_handles := AList.update h now (b_handles b1)\<rparr>"
  show ?thesis
  proof (cases room)
    case True
    show ?thesis
    proof (cases "try_send (b_opened b1) \<lparr>co_generation = g, co_handle = h\<rparr>")
      case None
      then show ?thesis using assms False ev True
        by (intro failed [of ErrIngressOverflow ?b2]) (auto simp: broker_open_def Let_def)
    next
      case (Some q)
      then show ?thesis using assms False ev True
        by (intro opened [of b1 q]) (auto simp: broker_open_def Let_def)
    qed
  next
    case room: False
    then show ?thesis using assms False ev
      by (intro failed [of ErrIngressOverflow b1]) (auto simp: broker_open_def Let_def)
  qed
qed

lemma evict_frame:
  assumes "evictStaleHandlesLocked now b = (r, b')"
  shows "b_active b' = b_active b" "b_generation b' = b_generation b" "b_correlations b' = b_correlations b"
    "b_opened b' = b_opened b" "b_verified b' = b_verified b" "b_timers b' = b_timers b"
    "b_fatal b' = b_fatal b" "b_assignNative b' = b_assignNative b"
    "set (b_handles b') \<subseteq> set (b_handles b)"
  using assms
  by (auto simp: evictStaleHandlesLocked_def Let_def set_delete_iff split: option.splits if_splits)

lemma open_inv:
  assumes inv: "broker_inv A F b" and op: "broker_open now g h b = (err, f, b')"
  shows "broker_inv A F b'"
  using op
proof (cases rule: open_cases)
  case refused
  then show ?thesis using inv by simp
next
  case (failed b0 e)
  have "broker_inv A F b0"
  proof (cases "b0 = b")
    case False
    then obtain room b1 where ev: "evictStaleHandlesLocked now b = (room, b1)"
      and "b0 = b1 \<and> \<not> room \<or> b0 = b1\<lparr>b_handles := AList.update h now (b_handles b1)\<rparr> \<and> room \<and>
         h \<noteq> 0 \<and> map_of (b_handles b) h = None" using failed(4) by blast
    moreover have "b_active b1" using evict_frame(1) [OF ev] failed(2) by simp
    ultimately show ?thesis using evict_inv [OF inv ev] add_handle_inv [of A F b1 h now] by auto
  qed (use inv in simp)
  then show ?thesis using failed(1) by (rule failWith_inv)
next
  case (opened b1 q)
  let ?b2 = "b1\<lparr>b_handles := AList.update h now (b_handles b1)\<rparr>"
  have act: "b_active b1" "b_generation b1 = b_generation b"
    using evict_frame [OF opened(7)] opened(3) by simp_all
  have "broker_inv A F ?b2"
    using evict_inv [OF inv opened(7)] opened(5,6) act by (intro add_handle_inv) auto
  then have "broker_inv A F (?b2\<lparr>b_opened := q\<rparr>)"
    using opened act by (intro send_opened_inv) auto
  then show ?thesis using opened(9) by simp
qed

text \<open>The branches of \<open>assign\<close> up to the native call.\<close>

definition new_pending :: "ConnectionAssignment \<Rightarrow> nat \<Rightarrow> ingressPending" where
  "new_pending a timer = \<lparr>ip_handle = ca_handle a, ip_correlation = ca_correlation a,
     ip_expiresAt = ca_expiresAt a, ip_timer = Some timer\<rparr>"

definition assign_args :: "ConnectionAssignment \<Rightarrow> expire_args" where
  "assign_args a = \<lparr>ex_generation = ca_generation a, ex_handle = ca_handle a,
     ex_correlation = ca_correlation a, ex_expiresAt = ca_expiresAt a\<rparr>"

definition add_pending :: "ConnectionAssignment \<Rightarrow> ('n, 'f) ingressBroker \<Rightarrow> ('n, 'f) ingressBroker" where
  "add_pending a b = b\<lparr>b_nextTimer := Suc (b_nextTimer b),
     b_timers := AList.update (b_nextTimer b) (assign_args a) (b_timers b),
     b_correlations := AList.update (ca_correlation a) (new_pending a (b_nextTimer b)) (b_correlations b)\<rparr>"

definition lifetime_ok :: "abi \<Rightarrow> time \<Rightarrow> time \<Rightarrow> bool" where
  "lifetime_ok A now expiresAt \<longleftrightarrow> now < expiresAt \<and> time_sub expiresAt now \<le> MaxIngressLifetime A"

lemma find_pending_None:
  "find (\<lambda>(_, p). ip_handle p = h) (b_correlations b) = None \<longleftrightarrow> h \<notin> set (assigningHandles b)"
  by (force simp: find_None_iff assigningHandles_def)

lemma assign_begin_valid:
  assumes "lifetime_ok A now (ca_expiresAt a)" "ca_correlation a \<noteq> zero_correlation A"
  shows "broker_assign_begin A now a b =
     (if ca_generation a \<noteq> b_generation b then (Inl ErrIngressGeneration, b)
      else if \<not> b_active b \<or> map_of (b_handles b) (ca_handle a) = None then (Inl ErrIngressClosed, b)
      else if map_of (b_correlations b) (ca_correlation a) \<noteq> None
      then (Inl ErrIngressDuplicate, clearAssignmentLocked (ca_handle a) (ca_correlation a) b)
      else case find (\<lambda>(_, p). ip_handle p = ca_handle a) (b_correlations b) of
        Some (_, pending) \<Rightarrow>
          (Inl ErrIngressDuplicate, clearAssignmentLocked (ca_handle a) (ip_correlation pending) b)
      | None \<Rightarrow> (Inr (b_assignNative b), add_pending a b))"
  using assms
  by (auto simp: broker_assign_begin_def lifetime_ok_def add_pending_def new_pending_def assign_args_def Let_def
      split: option.splits)

lemma assign_begin_cases:
  assumes "broker_assign_begin A now a b = (r, b')"
  obtains (closed) e where "r = Inl e" "b' = broker_closeHandle (ca_generation a) (ca_handle a) b"
      "e = ErrIngressLifetime \<and> \<not> lifetime_ok A now (ca_expiresAt a) \<or>
       e = ErrIngressMismatch \<and> lifetime_ok A now (ca_expiresAt a) \<and> ca_correlation a = zero_correlation A"
  | (refused) e where "r = Inl e" "b' = b" "e = ErrIngressGeneration \<and> ca_generation a \<noteq> b_generation b \<or>
      e = ErrIngressClosed \<and> (\<not> b_active b \<or> map_of (b_handles b) (ca_handle a) = None)"
  | (duplicate) c where "r = Inl ErrIngressDuplicate" "b' = clearAssignmentLocked (ca_handle a) c b"
      "map_of (b_correlations b) (ca_correlation a) \<noteq> None \<and> c = ca_correlation a \<or>
       ca_handle a \<in> set (assigningHandles b)" "ca_generation a = b_generation b" "b_active b"
  | (begun) "r = Inr (b_assignNative b)" "b' = add_pending a b" "lifetime_ok A now (ca_expiresAt a)"
      "ca_correlation a \<noteq> zero_correlation A" "ca_generation a = b_generation b" "b_active b"
      "map_of (b_handles b) (ca_handle a) \<noteq> None" "map_of (b_correlations b) (ca_correlation a) = None"
      "ca_handle a \<notin> set (assigningHandles b)"
proof -
  let ?find = "find (\<lambda>(_, p). ip_handle p = ca_handle a) (b_correlations b)"
  note d = assms [unfolded broker_assign_begin_def]
  consider "\<not> lifetime_ok A now (ca_expiresAt a)"
    | "lifetime_ok A now (ca_expiresAt a)" "ca_correlation a = zero_correlation A"
    | "lifetime_ok A now (ca_expiresAt a)" "ca_correlation a \<noteq> zero_correlation A"
    by blast
  then show thesis
  proof cases
    case 1
    then show thesis using d by (intro closed [of ErrIngressLifetime]) (auto simp: lifetime_ok_def split: if_splits)
  next
    case 2
    then show thesis using d by (intro closed [of ErrIngressMismatch]) (auto simp: lifetime_ok_def split: if_splits)
  next
    case 3
    note d3 = assms [unfolded assign_begin_valid [OF 3]]
    consider "ca_generation a \<noteq> b_generation b \<or> \<not> b_active b \<or> map_of (b_handles b) (ca_handle a) = None"
      | "map_of (b_correlations b) (ca_correlation a) \<noteq> None" "ca_generation a = b_generation b" "b_active b"
        "map_of (b_handles b) (ca_handle a) \<noteq> None"
      | "map_of (b_correlations b) (ca_correlation a) = None" "ca_generation a = b_generation b" "b_active b"
        "map_of (b_handles b) (ca_handle a) \<noteq> None"
      by blast
    then show thesis
    proof cases
      case 1
      then show thesis using d3 by (auto split: if_splits intro: refused)
    next
      case 2
      then show thesis using d3 by (intro duplicate) auto
    next
      case c3: 3
      show thesis
      proof (cases ?find)
        case None
        then show thesis using d3 c3 3 find_pending_None [of "ca_handle a" b]
          by (intro begun) auto
      next
        case (Some cp)
        then show thesis using d3 c3 duplicate find_pending_None [of "ca_handle a" b]
          by (cases cp) auto
      qed
    qed
  qed
qed

lemma add_pending_inv:
  assumes inv: "broker_inv A F b" and act: "b_active b" and g: "ca_generation a = b_generation b"
    and c: "ca_correlation a \<noteq> zero_correlation A" "map_of (b_correlations b) (ca_correlation a) = None"
    and h: "map_of (b_handles b) (ca_handle a) \<noteq> None" "ca_handle a \<notin> set (assigningHandles b)"
  shows "broker_inv A F (add_pending a b)"
proof -
  let ?b = "add_pending a b" and ?p = "new_pending a (b_nextTimer b)" and ?n = "b_nextTimer b"
  note t = tables_okD [OF broker_invD(1) [OF inv]]
  have tm: "timers_ok F b" using inv by (rule broker_invD)
  have corr: "b_correlations ?b = b_correlations b @ [(ca_correlation a, ?p)]"
    using c(2) by (simp add: add_pending_def update_fresh)
  have "tables_ok A ?b"
    unfolding tables_ok_def assigningHandles_def corr
    using t(1-6,8) c h by (auto simp: add_pending_def new_pending_def assigningHandles_def map_of_None_fst
        dest: t(7))
  moreover have "timers_ok F ?b"
  proof -
    have e: "expire_of ?b = expire_of b" by (auto simp: expire_of_def add_pending_def)
    have n: "?n \<notin> fst ` set (b_timers b)" using tm by (auto simp: timers_ok_def)
    have ts: "b_timers ?b = b_timers b @ [(?n, expire_of b ?p)]"
      using n g by (simp add: add_pending_def update_fresh map_of_None_fst expire_of_def new_pending_def assign_args_def)
    have "Some ?n \<notin> (ip_timer \<circ> snd) ` set (b_correlations b)" using tm by (fastforce simp: timers_ok_def)
    moreover have "ip_timer ?p = Some ?n" "b_nextTimer ?b = Suc ?n"
      by (simp_all add: new_pending_def add_pending_def)
    ultimately show ?thesis
      using tm n unfolding timers_ok_def corr ts e by (fastforce simp: less_Suc_eq)
  qed
  moreover have "queues_ok A ?b" "mode_ok ?b"
    using broker_invD(3,4) [OF inv] act by (simp_all add: queues_ok_def mode_ok_def add_pending_def)
  ultimately show ?thesis by (simp add: broker_inv_def)
qed

lemma assign_begin_inv:
  assumes inv: "broker_inv A F b" and as: "broker_assign_begin A now a b = (r, b')"
  shows "broker_inv A F b'"
  using as
proof (cases rule: assign_begin_cases)
  case begun
  then show ?thesis using add_pending_inv [OF inv] by simp
qed (use inv closing_inv [OF inv] in simp_all)

text \<open>The function \<open>assign\<close> calls after unlocking is never nil.\<close>

lemma assign_begin_native:
  assumes inv: "broker_inv A F b" and as: "broker_assign_begin A now a b = (Inr f, b')"
  shows "f \<noteq> None"
  using as
proof (cases rule: assign_begin_cases)
  case begun
  then show ?thesis using broker_invD(4) [OF inv] by (simp add: mode_ok_def)
qed auto

lemma assign_end_inv:
  "broker_inv A F b \<Longrightarrow> broker_assign_end A rc a b = (e, b') \<Longrightarrow> broker_inv A F b'"
  by (auto simp: broker_assign_end_def Let_def closing_inv split: if_splits)

text \<open>The branches of \<open>deliver\<close>.\<close>

definition frame_length_ok :: "abi \<Rightarrow> bytes \<Rightarrow> bool" where
  "frame_length_ok A frame \<longleftrightarrow> MinIngressFrameBytes A \<le> length frame \<and> length frame \<le> MaxIngressFrameBytes A"

definition verified_of :: "u64 \<Rightarrow> correlation \<Rightarrow> bytes \<Rightarrow> u64 \<Rightarrow> ingressPending \<Rightarrow> VerifiedFrame" where
  "verified_of g c frame ms p = \<lparr>vf_generation = g, vf_handle = ip_handle p, vf_correlation = c,
     vf_frame = frame, vf_expiresAt = time_of_unix_milli ms\<rparr>"

lemma deliver_valid:
  assumes "frame_length_ok A frame" "lifetime_ok A now (time_of_unix_milli ms)"
  shows "broker_deliver A now g c frame ms b =
     (if g \<noteq> b_generation b then (Some ErrIngressGeneration, None, b)
      else if \<not> b_active b then (Some ErrIngressClosed, None, b)
      else case map_of (b_correlations b) c of
        None \<Rightarrow> (Some ErrIngressMismatch, None, b)
      | Some p \<Rightarrow> if unix_milli (ip_expiresAt p) \<noteq> ms then (Some ErrIngressMismatch, None, drop_one c p b)
          else case try_send (b_verified b) (verified_of g c frame ms p) of
            Some q \<Rightarrow> (None, None, (drop_one c p b)\<lparr>b_verified := q\<rparr>)
          | None \<Rightarrow> failWith ErrIngressOverflow (drop_one c p b))"
  using assms
  by (auto simp: broker_deliver_def frame_length_ok_def lifetime_ok_def drop_one_def verified_of_def
      stopTimer_eq Let_def split: option.splits)

lemma deliver_cases:
  assumes "broker_deliver A now g c frame ms b = (err, f, b')"
  obtains (closed) e where "err = Some e" "f = None" "b' = broker_closeCorrelation g c b"
      "e = ErrIngressFrame \<and> \<not> frame_length_ok A frame \<or>
       e = ErrIngressLifetime \<and> frame_length_ok A frame \<and> \<not> lifetime_ok A now (time_of_unix_milli ms)"
  | (refused) e where "err = Some e" "f = None" "b' = b" "e = ErrIngressGeneration \<and> g \<noteq> b_generation b \<or>
      e = ErrIngressClosed \<and> \<not> b_active b \<or> e = ErrIngressMismatch \<and> map_of (b_correlations b) c = None"
  | (mismatch) p where "err = Some ErrIngressMismatch" "f = None" "b' = drop_one c p b"
      "map_of (b_correlations b) c = Some p" "unix_milli (ip_expiresAt p) \<noteq> ms"
      "g = b_generation b" "b_active b"
  | (overflow) p where "failWith ErrIngressOverflow (drop_one c p b) = (err, f, b')"
      "map_of (b_correlations b) c = Some p" "unix_milli (ip_expiresAt p) = ms"
      "chan_cap (b_verified b) \<le> length (chan_buf (b_verified b))" "g = b_generation b" "b_active b"
  | (delivered) p q where "err = None" "f = None" "frame_length_ok A frame"
      "lifetime_ok A now (time_of_unix_milli ms)" "g = b_generation b" "b_active b"
      "map_of (b_correlations b) c = Some p" "unix_milli (ip_expiresAt p) = ms"
      "try_send (b_verified b) (verified_of g c frame ms p) = Some q"
      "b' = (drop_one c p b)\<lparr>b_verified := q\<rparr>"
proof (cases "frame_length_ok A frame \<and> lifetime_ok A now (time_of_unix_milli ms)")
  case False
  then show thesis using assms
    by (intro closed [of "if frame_length_ok A frame then ErrIngressLifetime else ErrIngressFrame"])
      (auto simp: broker_deliver_def frame_length_ok_def lifetime_ok_def split: if_splits)
next
  case ok: True
  note d = assms [unfolded deliver_valid [OF conjunct1 [OF ok] conjunct2 [OF ok]]]
  show thesis
  proof (cases "g = b_generation b \<and> b_active b")
    case False
    then show thesis using d by (auto split: if_splits intro: refused)
  next
    case act: True
    show thesis
    proof (cases "map_of (b_correlations b) c")
      case None
      then show thesis using d act by (auto intro: refused)
    next
      case p: (Some p)
      show thesis
      proof (cases "unix_milli (ip_expiresAt p) = ms")
        case False
        then show thesis using d act p by (auto intro: mismatch)
      next
        case ms: True
        show thesis
        proof (cases "try_send (b_verified b) (verified_of g c frame ms p)")
          case None
          then have "failWith ErrIngressOverflow (drop_one c p b) = (err, f, b')" using d act p ms by simp
          then show thesis
            using p ms iffD1 [OF ch.send_None None] conjunct1 [OF act] conjunct2 [OF act] by (rule overflow)
        next
          case (Some q)
          then have "(err, f, b') = (None, None, (drop_one c p b)\<lparr>b_verified := q\<rparr>)" using d act p ms by simp
          then show thesis using act p ms ok Some by (intro delivered [of p q]) simp_all
        qed
      qed
    qed
  qed
qed

lemma deliver_inv:
  assumes inv: "broker_inv A F b" and dl: "broker_deliver A now g c frame ms b = (err, f, b')"
  shows "broker_inv A F b'"
  using dl
proof (cases rule: deliver_cases)
  case (overflow p)
  then show ?thesis using closing_inv(4) [OF inv overflow(2)] by (auto intro: failWith_inv)
next
  case (delivered p q)
  note t = tables_okD [OF broker_invD(1) [OF inv]]
  have p: "(c, p) \<in> set (b_correlations b)" using delivered(7) by (rule map_of_SomeD)
  have "ip_handle p \<noteq> 0" "c \<noteq> zero_correlation A" using t(5) t(7) [OF p] t(8) [OF p] by metis+
  then show ?thesis
    unfolding delivered(10)
    using delivered closing_inv(4) [OF inv delivered(7)]
    by (intro send_verified_inv [of A F _ "verified_of g c frame ms p"])
      (auto simp: drop_one_def stopTimer_eq verified_of_def frame_length_ok_def)
qed (use inv closing_inv [OF inv] in simp_all)

lemmas method_inv = activate_inv deactivate_inv failGeneration_inv closing_inv(1) open_inv
  assign_begin_inv assign_end_inv deliver_inv expire_inv fire_inv recv_inv

end
