(* ===== verification/Broker_System.thy ===== *)
theory Broker_System
  imports Broker_Inv
begin

text \<open>
  The broker under concurrency: every critical section of \<^verbatim>\<open>go/ingress.go\<close> is one atomic step, in
  any order, together with the steps of the runtime (a timer fires, its \<open>expire\<close> call gets the
  lock, a \<open>range\<close> loop sees another order) and of the consumers of the two channels. A native
  call in flight and an \<open>expire\<close> call that waits for the lock are part of the state.
\<close>

record ('n, 'f) broker_system =
  sy_broker :: "('n, 'f) ingressBroker"
  sy_firing :: "expire_args list"
  sy_calls :: "ConnectionAssignment list"

datatype ('n, 'f) broker_event =
    EvActivate u64 "'n option" "'f option"
  | EvDeactivate u64
  | EvFailGeneration u64
  | EvOpen time u64 u64 "ingress_error option"
  | EvAssign time ConnectionAssignment "ingress_error option"
  | EvAssignReturn int ConnectionAssignment "assign_error option"
  | EvTimer nat
  | EvExpire expire_args
  | EvDeliver time u64 correlation bytes u64 "ingress_error option"
  | EvRecvOpened ConnectionOpen
  | EvRecvVerified VerifiedFrame
  | EvReorder

text \<open>
  \<open>EvAssign\<close> carries the error of the first part of \<open>assign\<close>, \<open>None\<close> when the native function
  is called; \<open>deliverCallback\<close> and the second part of \<open>deliverIPCFrame\<close> are \<open>EvDeliver\<close> with any
  arguments.
\<close>

inductive bstep ::
    "abi \<Rightarrow> ('n, 'f) broker_system \<Rightarrow> ('n, 'f) broker_event \<Rightarrow> ('n, 'f) broker_system \<Rightarrow> bool"
  for A :: abi where
  st_activate: "bstep A s (EvActivate g n f) (s\<lparr>sy_broker := broker_activate g n f (sy_broker s)\<rparr>)"
| st_deactivate: "bstep A s (EvDeactivate g) (s\<lparr>sy_broker := broker_deactivate g (sy_broker s)\<rparr>)"
| st_failGeneration: "bstep A s (EvFailGeneration g) (s\<lparr>sy_broker := broker_failGeneration g (sy_broker s)\<rparr>)"
| st_open: "broker_open now g h (sy_broker s) = (err, f, b) \<Longrightarrow>
    bstep A s (EvOpen now g h err) (s\<lparr>sy_broker := b\<rparr>)"
| st_assign_error: "broker_assign_begin A now a (sy_broker s) = (Inl e, b) \<Longrightarrow>
    bstep A s (EvAssign now a (Some e)) (s\<lparr>sy_broker := b\<rparr>)"
| st_assign: "broker_assign_begin A now a (sy_broker s) = (Inr f, b) \<Longrightarrow>
    bstep A s (EvAssign now a None) (s\<lparr>sy_broker := b, sy_calls := a # sy_calls s\<rparr>)"
| st_assign_return: "a \<in> set (sy_calls s) \<Longrightarrow> broker_assign_end A rc a (sy_broker s) = (e, b) \<Longrightarrow>
    bstep A s (EvAssignReturn rc a e) (s\<lparr>sy_broker := b, sy_calls := remove1 a (sy_calls s)\<rparr>)"
| st_timer: "map_of (b_timers (sy_broker s)) i = Some x \<Longrightarrow>
    bstep A s (EvTimer i) (s\<lparr>sy_broker := (sy_broker s)\<lparr>b_timers := AList.delete i (b_timers (sy_broker s))\<rparr>,
      sy_firing := x # sy_firing s\<rparr>)"
| st_expire: "x \<in> set (sy_firing s) \<Longrightarrow>
    bstep A s (EvExpire x) (s\<lparr>sy_broker := broker_expire x (sy_broker s), sy_firing := remove1 x (sy_firing s)\<rparr>)"
| st_deliver: "broker_deliver A now g c frame ms (sy_broker s) = (err, f, b) \<Longrightarrow>
    bstep A s (EvDeliver now g c frame ms err) (s\<lparr>sy_broker := b\<rparr>)"
| st_recv_opened: "try_recv (b_opened (sy_broker s)) = Some (x, q) \<Longrightarrow>
    bstep A s (EvRecvOpened x) (s\<lparr>sy_broker := (sy_broker s)\<lparr>b_opened := q\<rparr>\<rparr>)"
| st_recv_verified: "try_recv (b_verified (sy_broker s)) = Some (v, q) \<Longrightarrow>
    bstep A s (EvRecvVerified v) (s\<lparr>sy_broker := (sy_broker s)\<lparr>b_verified := q\<rparr>\<rparr>)"
| st_reorder: "mset hs = mset (b_handles (sy_broker s)) \<Longrightarrow> mset cs = mset (b_correlations (sy_broker s)) \<Longrightarrow>
    bstep A s EvReorder (s\<lparr>sy_broker := (sy_broker s)\<lparr>b_handles := hs, b_correlations := cs\<rparr>\<rparr>)"

definition binit :: "('n, 'f) broker_system \<Rightarrow> bool" where
  "binit s \<longleftrightarrow> (\<exists>capacity. sy_broker s = newIngressBroker capacity) \<and> sy_firing s = [] \<and> sy_calls s = []"

definition bsys_inv :: "abi \<Rightarrow> ('n, 'f) broker_system \<Rightarrow> bool" where
  "bsys_inv A s \<longleftrightarrow> broker_inv A (sy_firing s) (sy_broker s)"

lemma distinct_map_mset: "mset xs = mset ys \<Longrightarrow> distinct (map f xs) \<longleftrightarrow> distinct (map f ys)"
  by (metis mset_eq_imp_distinct_iff mset_map)

lemma reorder_inv:
  assumes "broker_inv A F b" "mset hs = mset (b_handles b)" "mset cs = mset (b_correlations b)"
  shows "broker_inv A F (b\<lparr>b_handles := hs, b_correlations := cs\<rparr>)"
proof -
  have s: "set hs = set (b_handles b)" "set cs = set (b_correlations b)" "length hs = length (b_handles b)"
    "hs = [] \<longleftrightarrow> b_handles b = []" "cs = [] \<longleftrightarrow> b_correlations b = []"
    using assms(2,3) by (auto dest: mset_eq_setD mset_eq_length)
  show ?thesis
    using assms(1)
    by (simp add: distinct_map_mset [OF assms(2)] distinct_map_mset [OF assms(3)] broker_inv_def tables_ok_def timers_ok_def queues_ok_def mode_ok_def expire_of_def
        assigningHandles_def s)
qed

lemma bstep_inv: "bstep A s e t \<Longrightarrow> bsys_inv A s \<Longrightarrow> bsys_inv A t"
  unfolding bsys_inv_def
  by (induction rule: bstep.induct) (auto intro: method_inv reorder_inv)

interpretation bsys: invariant_system binit "bstep A" "bsys_inv A" for A
proof
  show "binit s \<Longrightarrow> bsys_inv A s" for s :: "('n, 'f) broker_system"
    using broker_inv_new by (auto simp: binit_def bsys_inv_def)
qed (rule bstep_inv)

section \<open>Tickets\<close>

text \<open>
  A ticket is the right to one delivery: a pending assignment or a queued frame for one
  generation, handle, correlation and expiry.
\<close>

type_synonym ticket = "u64 \<times> u64 \<times> correlation \<times> u64"

definition frame_ticket :: "VerifiedFrame \<Rightarrow> ticket" where
  "frame_ticket v = (vf_generation v, vf_handle v, vf_correlation v, unix_milli (vf_expiresAt v))"

definition assignment_ticket :: "ConnectionAssignment \<Rightarrow> ticket" where
  "assignment_ticket a = (ca_generation a, ca_handle a, ca_correlation a, unix_milli (ca_expiresAt a))"

definition pending_ticket :: "('n, 'f) ingressBroker \<Rightarrow> correlation \<times> ingressPending \<Rightarrow> ticket" where
  "pending_ticket b = (\<lambda>(c, p). (b_generation b, ip_handle p, c, unix_milli (ip_expiresAt p)))"

definition tickets :: "('n, 'f) ingressBroker \<Rightarrow> ticket multiset" where
  "tickets b = image_mset frame_ticket (mset (chan_buf (b_verified b))) +
     image_mset (pending_ticket b) (mset (b_correlations b))"

text \<open>A handle that is open and not being assigned is the right to one assignment.\<close>

definition idle :: "('n, 'f) ingressBroker \<Rightarrow> (u64 \<times> u64) multiset" where
  "idle b = image_mset (Pair (b_generation b)) (mset (filter (\<lambda>h. h \<notin> set (assigningHandles b)) (map fst (b_handles b))))"

lemma tickets_clear [simp]: "tickets (clearLocked b) = {#}" "idle (clearLocked b) = {#}"
  by (simp_all add: tickets_def idle_def)

lemma mset_filter_le: "(\<And>x. x \<in> set xs \<Longrightarrow> P x \<Longrightarrow> P' x) \<Longrightarrow> mset (filter P xs) \<subseteq># mset (filter P' xs)"
  by (induction xs) (auto intro: subset_mset.order_trans)

lemma mset_delete_present:
  "gwf m \<Longrightarrow> map_of m k = Some v \<Longrightarrow> mset m = add_mset (k, v) (mset (AList.delete k m))"
proof (induction m)
  case (Cons x m)
  show ?case
  proof (cases "fst x = k")
    case True
    then have "k \<notin> fst ` set m" using Cons.prems(1) by auto
    then have "AList.delete k m = m" by simp
    then show ?thesis using True Cons.prems(2) by (cases x) simp
  next
    case False
    then show ?thesis using Cons by (cases x) auto
  qed
qed simp

lemma mset_remove_distinct:
  "distinct xs \<Longrightarrow> x \<in> set xs \<Longrightarrow> mset xs = add_mset x (mset (filter (\<lambda>y. y \<noteq> x) xs))"
proof (induction xs)
  case (Cons y ys)
  show ?case
  proof (cases "y = x")
    case True
    then have "filter (\<lambda>y. y \<noteq> x) ys = ys" using Cons.prems(1) by (intro filter_True) auto
    then show ?thesis using True by simp
  next
    case False
    then show ?thesis using Cons by auto
  qed
qed simp

lemma shrinks_tickets: "shrinks b b' \<Longrightarrow> tickets b' \<subseteq># tickets b"
  by (erule shrinksE) (auto simp: tickets_def pending_ticket_def intro!: image_mset_subseteq_mono)

lemma shrinks_idle:
  assumes "shrinks b b'"
  shows "idle b' \<subseteq># idle b"
  using assms
proof (rule shrinksE)
  fix Q R S
  assume b': "b' = b\<lparr>b_handles := filter Q (b_handles b), b_correlations := filter R (b_correlations b),
       b_timers := filter S (b_timers b)\<rparr>"
    and Q: "\<And>c p t. (c, p) \<in> set (b_correlations b) \<Longrightarrow> Q (ip_handle p, t) \<longleftrightarrow> R (c, p)"
  have "h \<notin> set (assigningHandles b)" if "(h, t) \<in> set (b_handles b)" "Q (h, t)" "h \<notin> set (assigningHandles b')" for h t
  proof
    assume "h \<in> set (assigningHandles b)"
    then obtain c p where p: "(c, p) \<in> set (b_correlations b)" "ip_handle p = h"
      by (auto simp: assigningHandles_def)
    then have "(c, p) \<in> set (b_correlations b')" using Q [of c p t] that(2) by (simp add: b')
    then show False using p(2) that(3) by (auto dest: assigning_member)
  qed
  then have "mset (filter (\<lambda>x. Q x \<and> fst x \<notin> set (assigningHandles b')) (b_handles b)) \<subseteq>#
      mset (filter (\<lambda>x. fst x \<notin> set (assigningHandles b)) (b_handles b))"
    by (intro mset_filter_le) auto
  then have "image_mset f (mset (filter (\<lambda>x. fst x \<notin> set (assigningHandles b')) (filter Q (b_handles b)))) \<subseteq>#
      image_mset f (mset (filter (\<lambda>x. fst x \<notin> set (assigningHandles b)) (b_handles b)))" for f :: "_ \<Rightarrow> u64 \<times> u64"
    by (intro image_mset_subseteq_mono) (simp add: filter_filter conj_commute)
  from this [of "\<lambda>x. (b_generation b, fst x)"] show ?thesis
    unfolding idle_def by (simp add: b' filter_map o_def multiset.map_comp)
qed

text \<open>How each method moves tickets.\<close>

lemma tickets_frame:
  assumes "b_verified b' = b_verified b" "b_generation b' = b_generation b" "b_correlations b' = b_correlations b"
  shows "tickets b' = tickets b"
  using assms by (simp add: tickets_def pending_ticket_def)

lemma failWith_tickets: "failWith e b = (err, f, b') \<Longrightarrow> tickets b' = {#} \<and> idle b' = {#} \<and> err = Some e"
  by (auto simp: failWith_eq)

lemma idle_add_handle:
  assumes "tables_ok A b" "map_of (b_handles b) h = None"
  shows "idle (b\<lparr>b_handles := AList.update h now (b_handles b)\<rparr>) = add_mset (b_generation b, h) (idle b)"
proof -
  have "h \<notin> set (assigningHandles b)"
    using tables_okD(8) [OF assms(1)] assms(2) by (auto simp: assigningHandles_def map_of_eq_None_iff)
  then show ?thesis
    using assms(2) by (simp add: idle_def update_fresh assigningHandles_def)
qed

lemma open_tickets:
  assumes inv: "broker_inv A F b" and op: "broker_open now g h b = (err, f, b')"
  shows "tickets b' \<subseteq># tickets b"
    and "idle b' \<subseteq># idle b + (if err = None then {#(g, h)#} else {#})"
proof -
  have "tickets b' \<subseteq># tickets b \<and> idle b' \<subseteq># idle b + (if err = None then {#(g, h)#} else {#})"
    using op
  proof (cases rule: open_cases)
    case (opened b1 q)
    have b1: "broker_inv A F b1" "map_of (b_handles b1) h = None"
      using evict_inv [OF inv opened(7)] opened(6) by auto
    note sh = evict_shrinks [OF opened(7)]
    note fr = evict_frame [OF opened(7)]
    have "tickets b' = tickets b1" "idle b' = idle (b1\<lparr>b_handles := AList.update h now (b_handles b1)\<rparr>)"
      unfolding opened(9) by (simp_all add: tickets_def pending_ticket_def idle_def assigningHandles_def)
    then show ?thesis
      using idle_add_handle [OF broker_invD(1) [OF b1(1)] b1(2), of now] fr(2) opened(1,4)
        shrinks_tickets [OF sh] shrinks_idle [OF sh] by simp
  qed (auto dest: failWith_tickets)
  then show "tickets b' \<subseteq># tickets b"
    and "idle b' \<subseteq># idle b + (if err = None then {#(g, h)#} else {#})" by blast+
qed

lemma add_pending_tickets:
  assumes inv: "broker_inv A F b" and c: "map_of (b_correlations b) (ca_correlation a) = None"
    and g: "ca_generation a = b_generation b"
    and h: "map_of (b_handles b) (ca_handle a) \<noteq> None" "ca_handle a \<notin> set (assigningHandles b)"
  shows "tickets (add_pending a b) = add_mset (assignment_ticket a) (tickets b)"
    and "add_mset (ca_generation a, ca_handle a) (idle (add_pending a b)) = idle b"
proof -
  show "tickets (add_pending a b) = add_mset (assignment_ticket a) (tickets b)"
    using c g by (simp add: tickets_def add_pending_def update_fresh pending_ticket_def new_pending_def assignment_ticket_def)
  let ?idle = "filter (\<lambda>h. h \<notin> set (assigningHandles b)) (map fst (b_handles b))"
  have "distinct ?idle" using tables_okD(1) [OF broker_invD(1) [OF inv]] by simp
  moreover have "ca_handle a \<in> set ?idle"
    using h by (auto simp: map_of_eq_None_iff)
  ultimately have "mset ?idle = add_mset (ca_handle a) (mset (filter (\<lambda>h. h \<noteq> ca_handle a) ?idle))"
    by (rule mset_remove_distinct)
  moreover have "set (assigningHandles (add_pending a b)) = insert (ca_handle a) (set (assigningHandles b))"
    using c by (simp add: assigningHandles_def add_pending_def update_fresh new_pending_def)
  ultimately show "add_mset (ca_generation a, ca_handle a) (idle (add_pending a b)) = idle b"
    using g by (simp add: idle_def add_pending_def filter_filter conj_commute)
qed

lemma deliver_tickets:
  assumes inv: "broker_inv A F b" and dl: "broker_deliver A now g c frame ms b = (err, f, b')"
  shows "tickets b' \<subseteq># tickets b \<and> idle b' \<subseteq># idle b"
  using dl
proof (cases rule: deliver_cases)
  case (delivered p q)
  note sh = shrinks_drop_one [OF broker_invD(1) [OF inv] broker_invD(2) [OF inv] delivered(7)]
  have "mset (b_correlations b) = add_mset (c, p) (mset (AList.delete c (b_correlations b)))"
    by (rule mset_delete_present [OF tables_okD(2) [OF broker_invD(1) [OF inv]] delivered(7)])
  then have "tickets b' = tickets b"
    using ch.send_Some [OF delivered(9)] delivered(5,8) unfolding delivered(10)
    by (simp add: tickets_def drop_one_def stopTimer_eq pending_ticket_def frame_ticket_def verified_of_def)
  moreover have "idle b' = idle (drop_one c p b)"
    unfolding delivered(10) by (simp add: idle_def assigningHandles_def)
  ultimately show ?thesis using shrinks_idle [OF sh] by simp
next
  case (closed e)
  then show ?thesis
    using shrinks_closeCorrelation [OF broker_invD(1) [OF inv] broker_invD(2) [OF inv]]
    by (auto intro: shrinks_tickets shrinks_idle)
next
  case (mismatch p)
  then show ?thesis
    using shrinks_drop_one [OF broker_invD(1) [OF inv] broker_invD(2) [OF inv] mismatch(4)]
    by (auto intro: shrinks_tickets shrinks_idle)
next
  case (overflow p)
  then show ?thesis by (auto dest: failWith_tickets)
qed simp

lemma assign_begin_tickets:
  assumes inv: "broker_inv A F b" and as: "broker_assign_begin A now a b = (r, b')"
  shows "tickets b' \<subseteq># tickets b + (if isl r then {#} else {#assignment_ticket a#}) \<and>
    (if isl r then {#} else {#(ca_generation a, ca_handle a)#}) + idle b' \<subseteq># idle b"
proof -
  note ok = broker_invD(1) [OF inv] broker_invD(2) [OF inv]
  show ?thesis
    using as
  proof (cases rule: assign_begin_cases)
    case (closed e)
    then show ?thesis using shrinks_closeHandle [OF ok] by (auto intro: shrinks_tickets shrinks_idle)
  next
    case (duplicate c)
    then show ?thesis using shrinks_clearAssignmentLocked [OF ok] by (auto intro: shrinks_tickets shrinks_idle)
  next
    case begun
    then show ?thesis using add_pending_tickets [OF inv begun(8,5,7,9)] by simp
  qed auto
qed

section \<open>Accounting over a run\<close>

fun opens :: "('n, 'f) broker_event list \<Rightarrow> (u64 \<times> u64) list" where
  "opens [] = []"
| "opens (EvOpen _ g h None # es) = (g, h) # opens es"
| "opens (_ # es) = opens es"

fun assigned :: "('n, 'f) broker_event list \<Rightarrow> ConnectionAssignment list" where
  "assigned [] = []"
| "assigned (EvAssign _ a None # es) = a # assigned es"
| "assigned (_ # es) = assigned es"

fun received :: "('n, 'f) broker_event list \<Rightarrow> VerifiedFrame list" where
  "received [] = []"
| "received (EvRecvVerified v # es) = v # received es"
| "received (_ # es) = received es"

lemma opens_append [simp]: "opens (es @ fs) = opens es @ opens fs"
  by (induction es rule: opens.induct) simp_all

lemma assigned_append [simp]: "assigned (es @ fs) = assigned es @ assigned fs"
  by (induction es rule: assigned.induct) simp_all

lemma received_append [simp]: "received (es @ fs) = received es @ received fs"
  by (induction es rule: received.induct) simp_all

definition assigned_handle :: "ConnectionAssignment \<Rightarrow> u64 \<times> u64" where
  "assigned_handle a = (ca_generation a, ca_handle a)"

lemma bstep_tickets:
  assumes "bstep A s e t" "bsys_inv A s"
  shows "mset (map frame_ticket (received [e])) + tickets (sy_broker t) \<subseteq>#
      tickets (sy_broker s) + mset (map assignment_ticket (assigned [e]))"
    and "mset (map assigned_handle (assigned [e])) + idle (sy_broker t) \<subseteq>#
      idle (sy_broker s) + mset (opens [e])"
proof -
  note inv = assms(2) [unfolded bsys_inv_def]
  note ok = broker_invD(1) [OF inv] broker_invD(2) [OF inv]
  have "mset (map frame_ticket (received [e])) + tickets (sy_broker t) \<subseteq>#
      tickets (sy_broker s) + mset (map assignment_ticket (assigned [e])) \<and>
      mset (map assigned_handle (assigned [e])) + idle (sy_broker t) \<subseteq># idle (sy_broker s) + mset (opens [e])"
    using assms(1)
  proof cases
    case (st_open now g h err f b)
    then show ?thesis using open_tickets [OF inv, of now g h err f b] by (cases err) auto
  next
    case (st_assign_error now a e b)
    then show ?thesis using assign_begin_tickets [OF inv, of now a "Inl e" b] by auto
  next
    case (st_assign now a f b)
    then show ?thesis using assign_begin_tickets [OF inv, of now a "Inr f" b] by (auto simp: assigned_handle_def)
  next
    case (st_assign_return a rc e b)
    have "shrinks (sy_broker s) b"
      using st_assign_return(4) shrinks_closeHandle [OF ok] shrinks_refl
      by (auto simp: broker_assign_end_def Let_def split: if_splits)
    then show ?thesis using st_assign_return shrinks_tickets shrinks_idle by auto
  next
    case (st_expire x)
    have "shrinks (sy_broker s) (broker_expire x (sy_broker s))" by (rule shrinks_expire [OF ok(1)])
    then show ?thesis using st_expire shrinks_tickets shrinks_idle by auto
  next
    case (st_deliver now g c frame ms err f b)
    then show ?thesis using deliver_tickets [OF inv, of now g c frame ms err f b] by auto
  next
    case (st_recv_verified v q)
    then show ?thesis using ch.recv_Some [of "b_verified (sy_broker s)" v q]
      by (auto simp: tickets_def pending_ticket_def idle_def assigningHandles_def)
  next
    case (st_reorder hs cs)
    have "filter_mset P (mset (map fst hs)) = filter_mset P (mset (map fst (b_handles (sy_broker s))))" for P
      using st_reorder(3) by (metis mset_map)
    moreover have "set (assigningHandles (sy_broker t)) = set (assigningHandles (sy_broker s))"
      using st_reorder by (auto simp: assigningHandles_def dest: mset_eq_setD)
    ultimately show ?thesis using st_reorder by (simp add: tickets_def pending_ticket_def idle_def)
  qed (auto simp: tickets_def pending_ticket_def idle_def assigningHandles_def broker_activate_def
      broker_deactivate_def broker_failGeneration_def)
  then show "mset (map frame_ticket (received [e])) + tickets (sy_broker t) \<subseteq>#
      tickets (sy_broker s) + mset (map assignment_ticket (assigned [e]))"
    and "mset (map assigned_handle (assigned [e])) + idle (sy_broker t) \<subseteq>#
      idle (sy_broker s) + mset (opens [e])" by blast+
qed

lemma run_tickets:
  assumes "run (bstep A) s es t" "binit s"
  shows "bsys_inv A t \<and>
    mset (map frame_ticket (received es)) + tickets (sy_broker t) \<subseteq># mset (map assignment_ticket (assigned es)) \<and>
    mset (map assigned_handle (assigned es)) + idle (sy_broker t) \<subseteq># mset (opens es)"
  using assms
proof (induction rule: run.induct)
  case (run_nil s)
  then show ?case
    using bsys.inv_init [of s A] by (auto simp: binit_def tickets_def idle_def newIngressBroker_def make_chan_def Let_def)
next
  case (run_snoc s es t e u)
  then have ih: "bsys_inv A t"
    "mset (map frame_ticket (received es)) + tickets (sy_broker t) \<subseteq># mset (map assignment_ticket (assigned es))"
    "mset (map assigned_handle (assigned es)) + idle (sy_broker t) \<subseteq># mset (opens es)" by auto
  have chain: "a + (b + d) \<subseteq># c' + d'" if "a + c \<subseteq># c'" "b + d \<subseteq># c + d'" for a b c d c' d' :: "'x multiset"
  proof -
    have "a + (b + d) \<subseteq># a + (c + d')" using that(2) by simp
    also have "\<dots> \<subseteq># c' + d'" using that(1) by (simp flip: add.assoc)
    finally show ?thesis .
  qed
  note st = bstep_tickets [OF run_snoc(2) ih(1)]
  show ?case
    using bsys.inv_step [OF run_snoc(2) ih(1)] chain [OF ih(2) st(1)] chain [OF ih(3) st(2)]
    by (simp add: add.assoc)
qed

end
