(* ===== verification/Broker_Spec.thy ===== *)
theory Broker_Spec
  imports Broker_System
begin

text \<open>
  What the broker promises, without its tables and timers: every connection handle is a small
  state machine (absent, idle, in hand-off with one correlation and expiry, absent again), and
  two first-in first-out queues report openings and verified frames. The simulation at the end
  shows that every step of the broker is one step of this machine.
\<close>

datatype conn = Idle | Handoff correlation time

record spec_state =
  sp_active :: bool
  sp_generation :: u64
  sp_conn :: "u64 \<Rightarrow> conn option"
  sp_opened :: "ConnectionOpen list"
  sp_verified :: "VerifiedFrame list"

datatype spec_label =
    LReset
  | LDrop "u64 set"
  | LOpen u64 u64
  | LBind ConnectionAssignment
  | LDeliver VerifiedFrame
  | LRecvOpened ConnectionOpen
  | LRecvVerified VerifiedFrame

inductive spec_step :: "spec_state \<Rightarrow> spec_label \<Rightarrow> spec_state \<Rightarrow> bool" where
  sp_reset: "(active \<longrightarrow> g \<noteq> 0) \<Longrightarrow>
    spec_step s LReset \<lparr>sp_active = active, sp_generation = g, sp_conn = Map.empty, sp_opened = [], sp_verified = []\<rparr>"
| sp_drop: "spec_step s (LDrop H) (s\<lparr>sp_conn := (sp_conn s) |` (- H)\<rparr>)"
| sp_open: "sp_active s \<Longrightarrow> g = sp_generation s \<Longrightarrow> h \<noteq> 0 \<Longrightarrow> sp_conn s h = None \<Longrightarrow>
    (\<And>h'. h' \<in> H \<Longrightarrow> sp_conn s h' = Some Idle) \<Longrightarrow>
    spec_step s (LOpen g h) (s\<lparr>sp_conn := ((sp_conn s) |` (- H))(h \<mapsto> Idle),
      sp_opened := sp_opened s @ [\<lparr>co_generation = g, co_handle = h\<rparr>]\<rparr>)"
| sp_bind: "sp_active s \<Longrightarrow> ca_generation a = sp_generation s \<Longrightarrow> sp_conn s (ca_handle a) = Some Idle \<Longrightarrow>
    (\<And>h e. sp_conn s h \<noteq> Some (Handoff (ca_correlation a) e)) \<Longrightarrow>
    spec_step s (LBind a)
      (s\<lparr>sp_conn := (sp_conn s)(ca_handle a \<mapsto> Handoff (ca_correlation a) (ca_expiresAt a))\<rparr>)"
| sp_deliver: "sp_active s \<Longrightarrow> vf_generation v = sp_generation s \<Longrightarrow>
    sp_conn s (vf_handle v) = Some (Handoff (vf_correlation v) e) \<Longrightarrow>
    unix_milli (vf_expiresAt v) = unix_milli e \<Longrightarrow>
    spec_step s (LDeliver v) (s\<lparr>sp_conn := (sp_conn s)(vf_handle v := None), sp_verified := sp_verified s @ [v]\<rparr>)"
| sp_recv_opened: "sp_opened s = x # xs \<Longrightarrow> spec_step s (LRecvOpened x) (s\<lparr>sp_opened := xs\<rparr>)"
| sp_recv_verified: "sp_verified s = v # vs \<Longrightarrow> spec_step s (LRecvVerified v) (s\<lparr>sp_verified := vs\<rparr>)"

section \<open>Abstraction\<close>

definition conn_of :: "('n, 'f) ingressBroker \<Rightarrow> u64 \<Rightarrow> conn option" where
  "conn_of b h =
     (if map_of (b_handles b) h = None then None
      else case find (\<lambda>(_, p). ip_handle p = h) (b_correlations b) of
        None \<Rightarrow> Some Idle
      | Some (c, p) \<Rightarrow> Some (Handoff c (ip_expiresAt p)))"

definition spec_of :: "('n, 'f) ingressBroker \<Rightarrow> spec_state" where
  "spec_of b = \<lparr>sp_active = b_active b, sp_generation = b_generation b, sp_conn = conn_of b,
     sp_opened = chan_buf (b_opened b), sp_verified = chan_buf (b_verified b)\<rparr>"

text \<open>The label a step of the broker stands for; an error never opens, binds or delivers.\<close>

fun label_ok :: "('n, 'f) broker_event \<Rightarrow> spec_label \<Rightarrow> bool" where
  "label_ok (EvOpen _ g h None) l = (l = LOpen g h)"
| "label_ok (EvAssign _ a None) l = (l = LBind a)"
| "label_ok (EvDeliver _ g c frame ms None) l = (\<exists>v. l = LDeliver v \<and> vf_generation v = g \<and>
     vf_correlation v = c \<and> vf_frame v = frame \<and> unix_milli (vf_expiresAt v) = ms)"
| "label_ok (EvRecvOpened x) l = (l = LRecvOpened x)"
| "label_ok (EvRecvVerified v) l = (l = LRecvVerified v)"
| "label_ok (EvActivate _ _ _) l = (l = LReset)"
| "label_ok (EvTimer _) l = (l = LDrop {})"
| "label_ok EvReorder l = (l = LDrop {})"
| "label_ok _ l = (l = LReset \<or> (\<exists>H. l = LDrop H))"

lemma find_pending:
  assumes "tables_ok A b" "(c, p) \<in> set (b_correlations b)"
  shows "find (\<lambda>(_, q). ip_handle q = ip_handle p) (b_correlations b) = Some (c, p)"
proof (cases "find (\<lambda>(_, q). ip_handle q = ip_handle p) (b_correlations b)")
  case None
  then show ?thesis using assms(2) by (auto simp: find_None_iff)
next
  case (Some x)
  then have "x \<in> set (b_correlations b)" "ip_handle (snd x) = ip_handle p"
    by (auto simp: find_Some_iff split_def)
  then show ?thesis
    using Some pending_unique_handle [OF assms(1), of "fst x" "snd x" c p] assms(2) by auto
qed

lemma conn_of_Handoff:
  assumes "tables_ok A b"
  shows "conn_of b h = Some (Handoff c e) \<longleftrightarrow> (\<exists>p. (c, p) \<in> set (b_correlations b) \<and> ip_handle p = h \<and> ip_expiresAt p = e)"
proof
  assume "conn_of b h = Some (Handoff c e)"
  then obtain p where "find (\<lambda>(_, p). ip_handle p = h) (b_correlations b) = Some (c, p)" "ip_expiresAt p = e"
    by (auto simp: conn_of_def split: if_splits option.splits)
  then show "\<exists>p. (c, p) \<in> set (b_correlations b) \<and> ip_handle p = h \<and> ip_expiresAt p = e"
    by (auto simp: find_Some_iff in_set_conv_nth intro!: exI [of _ p])
next
  assume "\<exists>p. (c, p) \<in> set (b_correlations b) \<and> ip_handle p = h \<and> ip_expiresAt p = e"
  then obtain p where p: "(c, p) \<in> set (b_correlations b)" "ip_handle p = h" "ip_expiresAt p = e" by blast
  then show "conn_of b h = Some (Handoff c e)"
    using find_pending [OF assms p(1)] tables_okD(8) [OF assms p(1)]
    by (auto simp: conn_of_def map_of_eq_None_iff)
qed

lemma conn_of_Idle:
  "conn_of b h = Some Idle \<longleftrightarrow> h \<in> fst ` set (b_handles b) \<and> h \<notin> set (assigningHandles b)"
  using find_pending_None [of h b] by (auto simp: conn_of_def map_of_eq_None_iff split: option.splits)

lemma conn_of_None: "conn_of b h = None \<longleftrightarrow> h \<notin> fst ` set (b_handles b)"
  by (auto simp: conn_of_def map_of_eq_None_iff split: option.splits)

lemma conn_of_frame [simp]:
  "conn_of (b\<lparr>b_opened := q\<rparr>) = conn_of b" "conn_of (b\<lparr>b_verified := r\<rparr>) = conn_of b"
  "conn_of (b\<lparr>b_timers := ts\<rparr>) = conn_of b"
  by (simp_all add: conn_of_def fun_eq_iff)

text \<open>Two tables with the same pending entries and handles have the same connections.\<close>

lemma conn_of_cong:
  assumes "tables_ok A b" "tables_ok A b'"
    and "\<And>c p. ip_handle p = h \<Longrightarrow> (c, p) \<in> set (b_correlations b) \<longleftrightarrow> (c, p) \<in> set (b_correlations b')"
    and "h \<in> fst ` set (b_handles b) \<longleftrightarrow> h \<in> fst ` set (b_handles b')"
  shows "conn_of b h = conn_of b' h"
proof (cases "conn_of b h")
  case None
  then show ?thesis using assms(4) conn_of_None [of b h] conn_of_None [of b' h] by auto
next
  case (Some k)
  show ?thesis
  proof (cases k)
    case Idle
    then have "conn_of b' h = Some Idle"
      using Some assms(3,4) by (auto simp: conn_of_Idle assigningHandles_def image_iff split_paired_all)
    then show ?thesis using Some Idle by simp
  next
    case (Handoff c e)
    then have "conn_of b h = Some (Handoff c e)" using Some by simp
    moreover have "conn_of b h = Some (Handoff c e) \<longleftrightarrow> conn_of b' h = Some (Handoff c e)"
      unfolding conn_of_Handoff [OF assms(1)] conn_of_Handoff [OF assms(2)] using assms(3) by blast
    ultimately show ?thesis by simp
  qed
qed

section \<open>Simulation\<close>

definition dropped :: "('n, 'f) ingressBroker \<Rightarrow> ('n, 'f) ingressBroker \<Rightarrow> u64 set" where
  "dropped b b' = fst ` set (b_handles b) - fst ` set (b_handles b')"

lemma shrinks_conn:
  assumes ok: "tables_ok A b" and sh: "shrinks b b'"
  shows "conn_of b' = (conn_of b) |` (- dropped b b')"
proof
  fix h
  have ok': "tables_ok A b'" by (rule shrinks_tables [OF sh ok])
  obtain Q R S where b': "b' = b\<lparr>b_handles := filter Q (b_handles b), b_correlations := filter R (b_correlations b),
       b_timers := filter S (b_timers b)\<rparr>"
    and Q: "\<And>c p t. (c, p) \<in> set (b_correlations b) \<Longrightarrow> Q (ip_handle p, t) \<longleftrightarrow> R (c, p)"
    using sh by (rule shrinksE) blast
  show "conn_of b' h = ((conn_of b) |` (- dropped b b')) h"
  proof (cases "h \<in> fst ` set (b_handles b')")
    case True
    then obtain t where "Q (h, t)" "(h, t) \<in> set (b_handles b)" by (auto simp: b')
    then have "conn_of b' h = conn_of b h"
      using Q True by (intro conn_of_cong [OF ok' ok]) (auto simp: b')
    then show ?thesis using True by (simp add: dropped_def)
  next
    case False
    then show ?thesis
      using conn_of_None [of b' h] conn_of_None [of b h] by (auto simp: dropped_def restrict_map_def)
  qed
qed

lemma shrinks_spec:
  assumes "tables_ok A b" "shrinks b b'"
  shows "spec_step (spec_of b) (LDrop (dropped b b')) (spec_of b')"
proof -
  have "spec_of b' = (spec_of b)\<lparr>sp_conn := (sp_conn (spec_of b)) |` (- dropped b b')\<rparr>"
    using shrinks_conn [OF assms] by (rule_tac shrinksE [OF assms(2)]) (simp add: spec_of_def)
  then show ?thesis using sp_drop [of "spec_of b" "dropped b b'"] by simp
qed

lemma stutter_spec: "spec_of b' = spec_of b \<Longrightarrow> spec_step (spec_of b) (LDrop {}) (spec_of b')"
  using sp_drop [of "spec_of b" "{}"] by (simp add: spec_of_def restrict_map_def)

lemma clear_spec:
  assumes "b_active b \<Longrightarrow> b_generation b \<noteq> 0"
  shows "spec_step s LReset (spec_of (clearLocked b))"
proof -
  have "conn_of (clearLocked b) = Map.empty" by (rule ext) (simp add: conn_of_def)
  then show ?thesis
    using assms sp_reset [of "b_active b" "b_generation b" s] by (simp add: spec_of_def)
qed

lemma failWith_spec: "failWith e b = (err, f, b') \<Longrightarrow> spec_step s LReset (spec_of b')"
  by (auto simp: failWith_eq intro: clear_spec)

lemma open_spec:
  assumes inv: "broker_inv A F b" and op: "broker_open now g h b = (err, f, b')"
  shows "\<exists>l. label_ok (EvOpen now g h err) l \<and> spec_step (spec_of b) l (spec_of b')"
  using op
proof (cases rule: open_cases)
  case refused
  then show ?thesis using stutter_spec [of b b] by (intro exI [of _ "LDrop {}"]) auto
next
  case (failed b0 e)
  then have "err = Some e" by (simp add: failWith_eq)
  then show ?thesis using failWith_spec [OF failed(1)] by auto
next
  case (opened b1 q)
  note tb = broker_invD(1) [OF inv] and sh = evict_shrinks [OF opened(7)] and fr = evict_frame [OF opened(7)]
  have tb1: "tables_ok A b1" by (rule shrinks_tables [OF sh tb])
  have "map_of (b_handles b1) h = None" using evict_inv(3) [OF inv opened(7,6)] .
  then have "b_handles b' = b_handles b1 @ [(h, now)]" by (simp add: opened(9) update_fresh)
  moreover have "broker_inv A F b'" by (rule open_inv [OF inv op])
  moreover have "h \<notin> fst ` set (b_handles b1)" using \<open>map_of (b_handles b1) h = None\<close> by (simp add: map_of_eq_None_iff)
  moreover have "h \<notin> set (assigningHandles b1)"
    using tables_okD(8) [OF tb1] \<open>h \<notin> fst ` set (b_handles b1)\<close> by (auto simp: assigningHandles_def)
  ultimately have "conn_of b' = (conn_of b1)(h \<mapsto> Idle)"
    using conn_of_cong [OF broker_invD(1) [of A F b'] tb1]
    by (auto simp: fun_eq_iff opened(9) conn_of_Idle assigningHandles_def)
  moreover have "conn_of b1 = (conn_of b) |` (- dropped b b1)" by (rule shrinks_conn [OF tb sh])
  moreover have "conn_of b h' = Some Idle" if "h' \<in> dropped b b1" for h'
    using that tables_okD(8) [OF tb1] fr(3) by (auto simp: conn_of_Idle dropped_def assigningHandles_def)
  moreover have "conn_of b h = None" using opened(6) by (simp add: conn_of_def)
  ultimately have "spec_step (spec_of b) (LOpen g h) (spec_of b')"
    using sp_open [of "spec_of b" g h "dropped b b1"] opened(3-5) ch.send_Some [OF opened(8)] fr(1,2,4,5)
    by (simp add: spec_of_def opened(9))
  then show ?thesis using opened(1) by simp
qed

lemma drop_spec:
  "tables_ok A b \<Longrightarrow> shrinks b b' \<Longrightarrow> (\<And>H. label_ok e (LDrop H)) \<Longrightarrow>
    \<exists>l. label_ok e l \<and> spec_step (spec_of b) l (spec_of b')"
  using shrinks_spec by blast

lemma assign_begin_spec:
  assumes inv: "broker_inv A F b" and as: "broker_assign_begin A now a b = (r, b')"
  shows "\<exists>l. label_ok (EvAssign now a (case r of Inl e \<Rightarrow> Some e | Inr _ \<Rightarrow> None)) l \<and> spec_step (spec_of b) l (spec_of b')"
proof -
  note ok = broker_invD(1) [OF inv] broker_invD(2) [OF inv]
  show ?thesis
    using as
  proof (cases rule: assign_begin_cases)
    case (closed e)
    then show ?thesis using shrinks_closeHandle [OF ok] by (intro drop_spec [OF ok(1)]) auto
  next
    case (refused e)
    then show ?thesis using shrinks_refl [of b] by (intro drop_spec [OF ok(1)]) auto
  next
    case (duplicate c)
    then show ?thesis using shrinks_clearAssignmentLocked [OF ok] by (intro drop_spec [OF ok(1)]) auto
  next
    case begun
    let ?p = "new_pending a (b_nextTimer b)"
    have "broker_inv A F b'" by (rule assign_begin_inv [OF inv as])
    then have ok': "tables_ok A b'" by (rule broker_invD)
    have cs: "b_correlations b' = b_correlations b @ [(ca_correlation a, ?p)]" "b_handles b' = b_handles b"
      using begun by (simp_all add: add_pending_def update_fresh)
    have "conn_of b' = (conn_of b)(ca_handle a \<mapsto> Handoff (ca_correlation a) (ca_expiresAt a))"
    proof (rule ext)
      fix h
      show "conn_of b' h = ((conn_of b)(ca_handle a \<mapsto> Handoff (ca_correlation a) (ca_expiresAt a))) h"
    proof (cases "h = ca_handle a")
      case True
      then show ?thesis using conn_of_Handoff [OF ok'] cs by (auto simp: new_pending_def)
    next
      case False
      then have "conn_of b' h = conn_of b h"
        by (intro conn_of_cong [OF ok' ok(1)]) (auto simp: cs new_pending_def)
      then show ?thesis using False by simp
    qed
    qed
    moreover have "conn_of b (ca_handle a) = Some Idle"
      using begun(7,9) by (auto simp: conn_of_Idle map_of_eq_None_iff)
    moreover have "conn_of b h \<noteq> Some (Handoff (ca_correlation a) e)" for h e
      using begun(8) by (auto simp: conn_of_Handoff [OF ok(1)] map_of_eq_None_iff image_iff)
    moreover have "b_active b' = b_active b" "b_generation b' = b_generation b" "b_opened b' = b_opened b"
      "b_verified b' = b_verified b" using begun(2) by (simp_all add: add_pending_def)
    ultimately have "spec_step (spec_of b) (LBind a) (spec_of b')"
      using sp_bind [of "spec_of b" a] begun(5,6) by (simp add: spec_of_def)
    then show ?thesis using begun(1) by simp
  qed
qed

lemma drop_one_conn:
  assumes ok: "tables_ok A b" "timers_ok F b" and p: "map_of (b_correlations b) c = Some p"
  shows "conn_of (drop_one c p b) = (conn_of b)(ip_handle p := None)"
proof -
  have "ip_handle p \<in> fst ` set (b_handles b)" using tables_okD(8) [OF ok(1) map_of_SomeD [OF p]] .
  then have "dropped b (drop_one c p b) = {ip_handle p}"
    by (auto simp: dropped_def drop_one_def stopTimer_eq set_delete_iff)
  then show ?thesis
    using shrinks_conn [OF ok(1) shrinks_drop_one [OF ok p]]
    by (simp add: restrict_complement_singleton_eq)
qed

lemma deliver_spec:
  assumes inv: "broker_inv A F b" and dl: "broker_deliver A now g c frame ms b = (err, f, b')"
  shows "\<exists>l. label_ok (EvDeliver now g c frame ms err) l \<and> spec_step (spec_of b) l (spec_of b')"
proof -
  note ok = broker_invD(1) [OF inv] broker_invD(2) [OF inv]
  show ?thesis
    using dl
  proof (cases rule: deliver_cases)
    case (closed e)
    then show ?thesis using shrinks_closeCorrelation [OF ok] by (intro drop_spec [OF ok(1)]) auto
  next
    case (refused e)
    then show ?thesis using shrinks_refl [of b] by (intro drop_spec [OF ok(1)]) auto
  next
    case (mismatch p)
    then show ?thesis using shrinks_drop_one [OF ok mismatch(4)] by (intro drop_spec [OF ok(1)]) auto
  next
    case (overflow p)
    then have "err = Some ErrIngressOverflow" by (simp add: failWith_eq)
    then show ?thesis using failWith_spec [OF overflow(1)] by auto
  next
    case (delivered p q)
    let ?v = "verified_of g c frame ms p"
    have "conn_of b (ip_handle p) = Some (Handoff c (ip_expiresAt p))"
      using map_of_SomeD [OF delivered(7)] by (auto simp: conn_of_Handoff [OF ok(1)])
    moreover have "conn_of b' = (conn_of b)(ip_handle p := None)"
      using drop_one_conn [OF ok delivered(7)] unfolding delivered(10) by simp
    ultimately have "spec_step (spec_of b) (LDeliver ?v) (spec_of b')"
      using sp_deliver [of "spec_of b" ?v "ip_expiresAt p"] delivered(5,6,8) ch.send_Some [OF delivered(9)]
      unfolding delivered(10) by (simp add: spec_of_def verified_of_def drop_one_def stopTimer_eq)
    then show ?thesis using delivered(1) by (auto simp: verified_of_def intro!: exI [of _ "LDeliver ?v"])
  qed
qed

lemma failGeneration_deactivate: "broker_failGeneration g b = broker_deactivate g b"
  by (auto simp: broker_failGeneration_def broker_deactivate_def)

lemma deactivate_spec:
  "\<exists>l. (l = LReset \<or> (\<exists>H. l = LDrop H)) \<and> spec_step (spec_of b) l (spec_of (broker_deactivate g b))"
proof (cases "b_generation b = g")
  case True
  then show ?thesis
    using clear_spec [of "b\<lparr>b_active := False, b_assignNative := None, b_fatal := None\<rparr>" "spec_of b"]
    by (intro exI [of _ LReset]) (simp add: broker_deactivate_def)
next
  case False
  then show ?thesis
    using stutter_spec [of b b] by (intro exI [of _ "LDrop {}"]) (simp add: broker_deactivate_def)
qed

lemma bstep_spec:
  assumes st: "bstep A s e t" and i: "bsys_inv A s"
  shows "\<exists>l. label_ok e l \<and> spec_step (spec_of (sy_broker s)) l (spec_of (sy_broker t))"
proof -
  note inv = i [unfolded bsys_inv_def]
  note ok = broker_invD(1) [OF inv] broker_invD(2) [OF inv]
  show ?thesis
    using st
  proof cases
    case (st_open now g h err f b)
    then show ?thesis using open_spec [OF inv] by simp
  next
    case (st_assign_error now a e b)
    then show ?thesis using assign_begin_spec [OF inv st_assign_error(3)] by simp
  next
    case (st_assign now a f b)
    then show ?thesis using assign_begin_spec [OF inv st_assign(3)] by simp
  next
    case (st_assign_return a rc e b)
    have "shrinks (sy_broker s) b"
      using st_assign_return(4) shrinks_closeHandle [OF ok] shrinks_refl
      by (auto simp: broker_assign_end_def Let_def split: if_splits)
    then show ?thesis using st_assign_return by (intro drop_spec [OF ok(1)]) auto
  next
    case (st_expire x)
    then show ?thesis using shrinks_expire [OF ok(1)] by (intro drop_spec [OF ok(1)]) auto
  next
    case (st_deliver now g c frame ms err f b)
    then show ?thesis using deliver_spec [OF inv] by simp
  next
    case (st_recv_opened x q)
    then show ?thesis
      using ch.recv_Some [OF st_recv_opened(3)] sp_recv_opened [of "spec_of (sy_broker s)" x "chan_buf q"]
      by (simp add: spec_of_def)
  next
    case (st_recv_verified v q)
    then show ?thesis
      using ch.recv_Some [OF st_recv_verified(3)] sp_recv_verified [of "spec_of (sy_broker s)" v "chan_buf q"]
      by (simp add: spec_of_def)
  next
    case (st_reorder hs cs)
    then have "tables_ok A (sy_broker t)"
      using reorder_inv [OF inv st_reorder(3,4)] broker_invD(1) by auto
    then have "conn_of (sy_broker t) h = conn_of (sy_broker s) h" for h
      using st_reorder by (intro conn_of_cong [OF _ ok(1)]) (auto dest: mset_eq_setD)
    then have "spec_of (sy_broker t) = spec_of (sy_broker s)"
      using st_reorder by (simp add: spec_of_def fun_eq_iff)
    then show ?thesis using stutter_spec [of "sy_broker t" "sy_broker s"] st_reorder(1) by auto
  next
    case (st_timer i x)
    then have "spec_of (sy_broker t) = spec_of (sy_broker s)" by (simp add: spec_of_def)
    then show ?thesis using stutter_spec [of "sy_broker t" "sy_broker s"] st_timer(1) by auto
  next
    case (st_activate g n f)
    then show ?thesis by (auto simp: broker_activate_def intro!: clear_spec)
  next
    case (st_deactivate g)
    then show ?thesis using deactivate_spec [of "sy_broker s" g] by simp
  next
    case (st_failGeneration g)
    then show ?thesis using deactivate_spec [of "sy_broker s" g] by (simp add: failGeneration_deactivate)
  qed
qed

lemma run_spec:
  assumes "run (bstep A) s es t" "bsys_inv A s"
  shows "\<exists>ls. list_all2 label_ok es ls \<and> run spec_step (spec_of (sy_broker s)) ls (spec_of (sy_broker t))"
  using assms
proof (induction rule: run.induct)
  case (run_nil s)
  then show ?case using run.run_nil by (intro exI [of _ "[]"]) simp
next
  case (run_snoc s es t e u)
  then obtain ls where ls: "list_all2 label_ok es ls" "run spec_step (spec_of (sy_broker s)) ls (spec_of (sy_broker t))"
    by blast
  have "bsys_inv A t" by (rule bsys.run_inv [OF run_snoc(1,4)])
  then obtain l where l: "label_ok e l" "spec_step (spec_of (sy_broker t)) l (spec_of (sy_broker u))"
    using bstep_spec [OF run_snoc(2)] by blast
  show ?case
    using ls l by (intro exI [of _ "ls @ [l]"]) (auto intro: list_all2_appendI run.run_snoc)
qed

end
