(* ===== verification/Broker_Correct.thy ===== *)
theory Broker_Correct
  imports Broker_Spec
begin

text \<open>
  The properties of the broker: over all runs of the concurrent system (invariant, at most one
  hand-off per assignment, refinement of the connection machine, fail-closed behaviour, expiry)
  and of the single methods on every branch.
\<close>

section \<open>A run used as a witness\<close>

definition demo_broker :: "(unit, unit) ingressBroker" where
  "demo_broker = broker_activate 7 (Some ()) (Some ()) (newIngressBroker 1)"

definition demo_open :: "(unit, unit) ingressBroker" where
  "demo_open = snd (snd (broker_open 0 7 9 demo_broker))"

definition demo_assignment :: ConnectionAssignment where
  "demo_assignment = \<lparr>ca_generation = 7, ca_handle = 9, ca_correlation = replicate 16 1, ca_expiresAt = second\<rparr>"

definition demo_assigning :: "(unit, unit) ingressBroker" where
  "demo_assigning = snd (broker_assign_begin abi_v1 0 demo_assignment demo_open)"

definition demo_delivered :: "(unit, unit) ingressBroker" where
  "demo_delivered = snd (snd (broker_deliver abi_v1 0 7 (replicate 16 1) [1] 1000 demo_assigning))"

definition demo_frame :: VerifiedFrame where
  "demo_frame = \<lparr>vf_generation = 7, vf_handle = 9, vf_correlation = replicate 16 1, vf_frame = [1], vf_expiresAt = second\<rparr>"

definition demo_system :: "(unit, unit) ingressBroker \<Rightarrow> ConnectionAssignment list \<Rightarrow> (unit, unit) broker_system" where
  "demo_system b calls = \<lparr>sy_broker = b, sy_firing = [], sy_calls = calls\<rparr>"

lemma demo_broker_eq: "demo_broker =
  \<lparr>b_opened = \<lparr>chan_cap = 1, chan_buf = []\<rparr>, b_verified = \<lparr>chan_cap = 1, chan_buf = []\<rparr>,
   b_active = True, b_generation = 7, b_assignNative = Some (), b_fatal = Some (),
   b_handles = [], b_correlations = [], b_timers = [], b_nextTimer = 0\<rparr>"
  by (simp add: demo_broker_def broker_activate_def newIngressBroker_def clearLocked_def dropPendings_def
      drain_eq make_chan_def)

lemma demo_broker_inv: "broker_inv abi_v1 [] demo_broker"
  unfolding demo_broker_def by (rule activate_inv [OF broker_inv_new])

lemma demo_open_result: "broker_open 0 7 9 demo_broker = (None, None, demo_broker\<lparr>b_handles := [(9, 0)],
    b_opened := \<lparr>chan_cap = 1, chan_buf = [\<lparr>co_generation = 7, co_handle = 9\<rparr>]\<rparr>\<rparr>)"
  by (simp add: demo_broker_eq broker_open_def evictStaleHandlesLocked_def assigningHandles_def
      maxIngressHandles_def try_send_def Let_def)

lemma demo_open_eq: "demo_open = demo_broker\<lparr>b_handles := [(9, 0)],
    b_opened := \<lparr>chan_cap = 1, chan_buf = [\<lparr>co_generation = 7, co_handle = 9\<rparr>]\<rparr>\<rparr>"
  by (simp only: demo_open_def demo_open_result snd_conv)

lemma demo_assign_result: "broker_assign_begin abi_v1 0 demo_assignment demo_open =
   (Inr (Some ()), add_pending demo_assignment demo_open)"
  by (simp add: demo_assignment_def demo_open_eq demo_broker_eq broker_assign_begin_def
      time_sub_def zero_correlation_def numeral_eq_Suc add_pending_def new_pending_def assign_args_def Let_def)

lemma demo_assigning_eq: "demo_assigning = add_pending demo_assignment demo_open"
  by (simp only: demo_assigning_def demo_assign_result snd_conv)

lemma time_of_unix_milli_1000: "time_of_unix_milli 1000 = second"
  by (simp add: time_of_unix_milli_def)

lemma demo_deliver_result: "broker_deliver abi_v1 0 7 (replicate 16 1) [1] 1000 demo_assigning =
   (None, None, demo_broker\<lparr>b_opened := \<lparr>chan_cap = 1, chan_buf = [\<lparr>co_generation = 7, co_handle = 9\<rparr>]\<rparr>,
      b_verified := \<lparr>chan_cap = 1, chan_buf = [demo_frame]\<rparr>, b_nextTimer := 1\<rparr>)"
  by (simp add: demo_assigning_eq add_pending_def demo_open_eq demo_broker_eq
      demo_assignment_def new_pending_def assign_args_def broker_deliver_def time_of_unix_milli_1000 time_sub_def
      unix_milli_def stopTimer_def try_send_def demo_frame_def Let_def)

lemma demo_delivered_eq: "demo_delivered = demo_broker\<lparr>b_opened := \<lparr>chan_cap = 1,
      chan_buf = [\<lparr>co_generation = 7, co_handle = 9\<rparr>]\<rparr>,
      b_verified := \<lparr>chan_cap = 1, chan_buf = [demo_frame]\<rparr>, b_nextTimer := 1\<rparr>"
  by (simp only: demo_delivered_def demo_deliver_result snd_conv)

lemma demo_prefix: "run (bstep abi_v1) (demo_system (newIngressBroker 1) [])
  [EvActivate 7 (Some ()) (Some ()), EvOpen 0 7 9 None, EvAssign 0 demo_assignment None]
  (demo_system demo_assigning [demo_assignment])"
proof -
  have 1: "bstep abi_v1 (demo_system (newIngressBroker 1) []) (EvActivate 7 (Some ()) (Some ())) (demo_system demo_broker [])"
    using st_activate [of abi_v1 "demo_system (newIngressBroker 1) []" 7 "Some ()" "Some ()"]
    by (simp add: demo_system_def demo_broker_def)
  have 2: "bstep abi_v1 (demo_system demo_broker []) (EvOpen 0 7 9 None) (demo_system demo_open [])"
    using st_open [of 0 7 9 "demo_system demo_broker []" None None demo_open abi_v1] demo_open_result
    by (simp add: demo_system_def demo_open_eq)
  have 3: "bstep abi_v1 (demo_system demo_open []) (EvAssign 0 demo_assignment None)
      (demo_system demo_assigning [demo_assignment])"
    using st_assign [of abi_v1 0 demo_assignment "demo_system demo_open []" "Some ()" demo_assigning] demo_assign_result
    by (simp add: demo_system_def demo_assigning_eq)
  note step = run_cons [where step = "bstep abi_v1"] run_nil [where step = "bstep abi_v1"]
  show ?thesis by (rule step(1), rule 1, rule step(1), rule 2, rule step(1), rule 3, rule step(2))
qed

lemma demo_run: "run (bstep abi_v1) (demo_system (newIngressBroker 1) [])
  [EvActivate 7 (Some ()) (Some ()), EvOpen 0 7 9 None, EvAssign 0 demo_assignment None,
   EvDeliver 0 7 (replicate 16 1) [1] 1000 None, EvRecvVerified demo_frame]
  (demo_system (demo_delivered\<lparr>b_verified := \<lparr>chan_cap = 1, chan_buf = []\<rparr>\<rparr>) [demo_assignment])"
proof -
  have 4: "bstep abi_v1 (demo_system demo_assigning [demo_assignment])
      (EvDeliver 0 7 (replicate 16 1) [1] 1000 None) (demo_system demo_delivered [demo_assignment])"
    using st_deliver [of abi_v1 0 7 "replicate 16 1" "[1]" 1000 "demo_system demo_assigning [demo_assignment]" None None demo_delivered]
      demo_deliver_result by (simp add: demo_system_def demo_delivered_eq)
  have 5: "bstep abi_v1 (demo_system demo_delivered [demo_assignment]) (EvRecvVerified demo_frame)
      (demo_system (demo_delivered\<lparr>b_verified := \<lparr>chan_cap = 1, chan_buf = []\<rparr>\<rparr>) [demo_assignment])"
    using st_recv_verified [of "demo_system demo_delivered [demo_assignment]" demo_frame "\<lparr>chan_cap = 1, chan_buf = []\<rparr>" abi_v1]
    by (simp add: demo_system_def demo_delivered_eq try_recv_def)
  from run_snoc [OF run_snoc [OF demo_prefix 4] 5] show ?thesis by simp
qed

lemma demo_init: "binit (demo_system (newIngressBroker 1) [])"
  by (auto simp: binit_def demo_system_def)

lemma demo_reachable: "reachable binit (bstep abi_v1) (demo_system demo_assigning [demo_assignment])"
  using demo_init demo_prefix unfolding reachable_def by blast

section \<open>All interleavings\<close>

text \<open>
  C3: In every interleaving of the broker's methods, its timers, the native calls and the
  consumers of its channels, the broker keeps its invariant: the tables have distinct keys, at
  most 4096 handles, no zero handle or correlation, at most one assignment per handle and only
  for an open handle; every pending assignment has its own armed or firing timer; the queues
  stay within their capacity and hold only events of the current generation with frames of
  legal length; an inactive broker holds nothing, and an active one has a native function to
  call.
\<close>

theorem broker_run_invariant:
  assumes "binit s" "run (bstep A) s es t"
  shows "broker_inv A (sy_firing t) (sy_broker t)"
  using bsys.run_inv [OF assms(2) bsys.inv_init [OF assms(1)]] by (simp add: bsys_inv_def)

theorem broker_run_invariant_witness:
  "broker_inv abi_v1 [] (demo_delivered\<lparr>b_verified := \<lparr>chan_cap = 1, chan_buf = []\<rparr>\<rparr>)"
  using broker_run_invariant [OF demo_init demo_run] by (simp add: demo_system_def)

text \<open>
  C1: A verified frame reaches the consumer at most once per assignment, and a handle is
  assigned at most once per opening. In every run, the received frames (by generation, handle,
  correlation and expiry) are a sub-multiset of the assignments handed to the native side, and
  the assigned handles are a sub-multiset of the successfully opened ones: nothing is
  delivered that was not assigned, nothing is assigned that was not opened, and nothing twice.
\<close>

theorem handoff_at_most_once:
  assumes "binit s" "run (bstep A) s es t"
  shows "mset (map frame_ticket (received es)) \<subseteq># mset (map assignment_ticket (assigned es)) \<and>
    mset (map assigned_handle (assigned es)) \<subseteq># mset (opens es)"
  using run_tickets [OF assms(2,1)] by (auto dest: subset_mset.le_iff_add [THEN iffD1] simp: mset_subset_eq_add_left
      intro: subset_mset.order_trans [OF mset_subset_eq_add_left])

theorem handoff_at_most_once_witness:
  "received [EvActivate 7 (Some ()) (Some ()), EvOpen 0 7 9 None, EvAssign 0 demo_assignment None,
     EvDeliver 0 7 (replicate 16 1) [1] 1000 None, EvRecvVerified demo_frame] = [demo_frame] \<and>
   {#frame_ticket demo_frame#} \<subseteq># {#assignment_ticket demo_assignment#}"
  using handoff_at_most_once [OF demo_init demo_run] by simp

text \<open>
  C2: The broker refines the connection machine of the specification. Every run of the
  concurrent broker is a run of the specification, event by event, in which a successful
  \<open>open\<close> makes an absent handle idle, a successful \<open>assign\<close> moves an idle handle into hand-off
  with a correlation no other connection has, a successful \<open>deliver\<close> ends the hand-off of
  exactly that correlation and queues its frame, and an error can only drop connections.
\<close>

theorem broker_refines_spec:
  assumes "binit s" "run (bstep A) s es t"
  shows "\<exists>ls. list_all2 label_ok es ls \<and> run spec_step (spec_of (sy_broker s)) ls (spec_of (sy_broker t))"
  by (rule run_spec [OF assms(2) bsys.inv_init [OF assms(1)]])

theorem broker_refines_spec_witness:
  "\<exists>l0 l4. run spec_step (spec_of (newIngressBroker 1 :: (unit, unit) ingressBroker))
     [l0, LOpen 7 9, LBind demo_assignment, l4, LRecvVerified demo_frame]
     (spec_of (demo_delivered\<lparr>b_verified := \<lparr>chan_cap = 1, chan_buf = []\<rparr>\<rparr>))"
  using broker_refines_spec [OF demo_init demo_run]
  by (auto simp: list_all2_Cons1 demo_system_def)

text \<open>The events of a run that starts in an inactive broker, up to the next activation.\<close>

definition quiet :: "('n, 'f) broker_event \<Rightarrow> bool" where
  "quiet e \<longleftrightarrow> (case e of
     EvOpen _ _ _ err \<Rightarrow> err \<noteq> None | EvAssign _ _ err \<Rightarrow> err \<noteq> None | EvDeliver _ _ _ _ _ err \<Rightarrow> err \<noteq> None
   | EvRecvOpened _ \<Rightarrow> False | EvRecvVerified _ \<Rightarrow> False | _ \<Rightarrow> True)"

fun activates :: "('n, 'f) broker_event \<Rightarrow> bool" where
  "activates (EvActivate _ _ _) = True"
| "activates _ = False"

lemma shrinks_active: "shrinks b b' \<Longrightarrow> b_active b' = b_active b"
  by (erule shrinksE) simp

lemma inactive_step:
  assumes st: "bstep A s e t" and i: "bsys_inv A s" and off: "\<not> b_active (sy_broker s)" "\<not> activates e"
  shows "quiet e \<and> \<not> b_active (sy_broker t)"
proof -
  note inv = i [unfolded bsys_inv_def]
  note ok = broker_invD(1) [OF inv] broker_invD(2) [OF inv]
  note close = shrinks_closeHandle [OF ok, THEN shrinks_active] shrinks_closeCorrelation [OF ok, THEN shrinks_active]
    shrinks_expire [OF ok(1), THEN shrinks_active]
  have empty: "chan_buf (b_opened (sy_broker s)) = []" "chan_buf (b_verified (sy_broker s)) = []"
    using broker_invD(4) [OF inv] off(1) by (simp_all add: mode_ok_def)
  show ?thesis
    using st
  proof cases
    case (st_open now g h err f b)
    from st_open(3) show ?thesis
      by (cases rule: open_cases) (use off st_open in \<open>auto simp: quiet_def\<close>)
  next
    case (st_assign_error now a e b)
    from st_assign_error(3) show ?thesis
      by (cases rule: assign_begin_cases) (use off st_assign_error close in \<open>auto simp: quiet_def\<close>)
  next
    case (st_assign now a f b)
    from st_assign(3) show ?thesis
      by (cases rule: assign_begin_cases) (use off in auto)
  next
    case (st_assign_return a rc e b)
    then show ?thesis using close off
      by (auto simp: quiet_def broker_assign_end_def Let_def split: if_splits)
  next
    case (st_deliver now g c frame ms err f b)
    from st_deliver(3) show ?thesis
      by (cases rule: deliver_cases) (use off st_deliver close in \<open>auto simp: quiet_def\<close>)
  next
    case (st_recv_opened x q)
    then show ?thesis using empty by (simp add: try_recv_def)
  next
    case (st_recv_verified x q)
    then show ?thesis using empty by (simp add: try_recv_def)
  qed (use off close in \<open>auto simp: quiet_def broker_deactivate_def broker_failGeneration_def\<close>)
qed

text \<open>
  C25: The broker fails closed. From a reachable state in which it is inactive (after a
  deactivation, a failed generation or any fatal error), every run without a new activation
  leaves it inactive: each \<open>open\<close>, \<open>assign\<close> and \<open>deliver\<close> returns an error and the channels
  yield nothing.
\<close>

theorem broker_fails_closed:
  assumes "reachable binit (bstep A) s" "\<not> b_active (sy_broker s)" "run (bstep A) s es t"
    and "list_all (\<lambda>e. \<not> activates e) es"
  shows "list_all quiet es \<and> \<not> b_active (sy_broker t)"
proof -
  have "bsys_inv A s" by (rule bsys.reachable_inv [OF assms(1)])
  with assms(3,2,4) show ?thesis
  proof (induction rule: run.induct)
    case (run_snoc s es t e u)
    then have "list_all quiet es" "\<not> b_active (sy_broker t)" "\<not> activates e" by simp_all
    moreover have "bsys_inv A t" using bsys.run_inv [OF run_snoc(1)] run_snoc.prems by blast
    ultimately show ?case using inactive_step [OF run_snoc(2)] by simp
  qed simp
qed

theorem broker_fails_closed_witness:
  "list_all quiet [EvOpen 0 7 9 (Some ErrIngressGeneration) :: (unit, unit) broker_event] \<and>
   \<not> b_active (newIngressBroker 1 :: (unit, unit) ingressBroker)"
proof -
  let ?s = "demo_system (newIngressBroker 1) []"
  have "reachable binit (bstep abi_v1) ?s"
    using demo_init run_nil [of "bstep abi_v1" ?s] unfolding reachable_def by blast
  moreover have "bstep abi_v1 ?s (EvOpen 0 7 9 (Some ErrIngressGeneration)) ?s"
    using st_open [of 0 7 9 ?s "Some ErrIngressGeneration" None "newIngressBroker 1" abi_v1]
    by (simp add: demo_system_def broker_open_def newIngressBroker_def)
  ultimately show ?thesis
    using broker_fails_closed [of abi_v1 ?s "[EvOpen 0 7 9 (Some ErrIngressGeneration)]" ?s] run_one [of "bstep abi_v1" ?s]
    by (simp add: demo_system_def newIngressBroker_def)
qed

text \<open>
  C26: No assignment outlives its timer. In every reachable state, a pending assignment can be
  removed together with its handle by its own timer: at most one firing and the \<open>expire\<close> call
  it makes, whatever else has happened.
\<close>

theorem pending_expires:
  assumes "reachable binit (bstep A) s" "map_of (b_correlations (sy_broker s)) c = Some p"
  shows "\<exists>i x t. (run (bstep A) s [EvTimer i, EvExpire x] t \<or> run (bstep A) s [EvExpire x] t) \<and>
    ex_correlation x = c \<and> map_of (b_correlations (sy_broker t)) c = None \<and>
    map_of (b_handles (sy_broker t)) (ip_handle p) = None"
proof -
  let ?b = "sy_broker s" and ?x = "expire_of (sy_broker s) p"
  have inv: "broker_inv A (sy_firing s) ?b" using bsys.reachable_inv [OF assms(1)] by (simp add: bsys_inv_def)
  note p = map_of_SomeD [OF assms(2)]
  have pc: "ip_correlation p = c" by (rule tables_okD(6) [OF broker_invD(1) [OF inv] p])
  have gone: "map_of (b_correlations (broker_expire ?x (?b\<lparr>b_timers := ts\<rparr>))) c = None \<and>
      map_of (b_handles (broker_expire ?x (?b\<lparr>b_timers := ts\<rparr>))) (ip_handle p) = None" for ts
    using assms(2) pc by (simp add: broker_expire_def expire_of_def)
  obtain i where i: "(i, ?x) \<in> set (b_timers ?b) \<or> ?x \<in> set (sy_firing s)"
    using broker_invD(2) [OF inv] p by (fastforce simp: timers_ok_def)
  then show ?thesis
  proof
    assume "(i, ?x) \<in> set (b_timers ?b)"
    then have tm: "map_of (b_timers ?b) i = Some ?x" using broker_invD(2) [OF inv] by (simp add: timers_ok_def)
    let ?u = "s\<lparr>sy_broker := ?b\<lparr>b_timers := AList.delete i (b_timers ?b)\<rparr>, sy_firing := ?x # sy_firing s\<rparr>"
    have "run (bstep A) s [EvTimer i, EvExpire ?x]
        (?u\<lparr>sy_broker := broker_expire ?x (sy_broker ?u), sy_firing := remove1 ?x (sy_firing ?u)\<rparr>)"
      by (rule run_cons [where step = "bstep A"], rule st_timer [OF tm],
          rule run_one [where step = "bstep A"], rule st_expire) simp
    then show ?thesis using pc gone [of "AList.delete i (b_timers ?b)"] by (intro exI [of _ i] exI [of _ ?x] exI) (auto simp: expire_of_def)
  next
    assume "?x \<in> set (sy_firing s)"
    then have "run (bstep A) s [EvExpire ?x]
        (s\<lparr>sy_broker := broker_expire ?x (sy_broker s), sy_firing := remove1 ?x (sy_firing s)\<rparr>)"
      by (intro run_one [where step = "bstep A"] st_expire)
    then show ?thesis using gone [of "b_timers ?b"] pc by (intro exI [of _ i] exI [of _ ?x] exI) (auto simp: expire_of_def)
  qed
qed

theorem pending_expires_witness:
  "\<exists>i x t. (run (bstep abi_v1) (demo_system demo_assigning [demo_assignment]) [EvTimer i, EvExpire x] t \<or>
      run (bstep abi_v1) (demo_system demo_assigning [demo_assignment]) [EvExpire x] t) \<and>
    ex_correlation x = replicate 16 1 \<and> map_of (b_correlations (sy_broker t)) (replicate 16 1) = None \<and>
    map_of (b_handles (sy_broker t)) 9 = None"
proof -
  have "map_of (b_correlations (sy_broker (demo_system demo_assigning [demo_assignment]))) (replicate 16 1) =
      Some (new_pending demo_assignment 0)"
    by (simp add: demo_system_def demo_assigning_eq add_pending_def demo_open_eq demo_broker_eq demo_assignment_def)
  from pending_expires [OF demo_reachable this] show ?thesis
    by (simp add: new_pending_def demo_assignment_def)
qed

section \<open>The methods\<close>

lemma lifetime_exact:
  "abi_ok A \<Longrightarrow> lifetime_ok A now e \<longleftrightarrow> now < e \<and> e - now \<le> MaxIngressLifetime A"
  using abi_layout.lifetime_range [OF abi_layout.intro, of A] by (auto simp: lifetime_ok_def time_sub_def)

lemma filter_same_length: "length (filter P xs) = length xs \<Longrightarrow> filter P xs = xs"
proof (induction xs)
  case (Cons x xs)
  then show ?case using length_filter_le [of P xs] by (cases "P x") simp_all
qed simp

lemma evict_false_iff:
  assumes inv: "broker_inv A F b"
  shows "\<not> fst (evictStaleHandlesLocked now b) \<longleftrightarrow>
    length (b_handles b) = maxIngressHandles \<and> fst ` set (b_handles b) \<subseteq> set (assigningHandles b)"
    (is "_ \<longleftrightarrow> ?len \<and> ?all")
proof -
  have le: "length (b_handles b) \<le> maxIngressHandles" by (rule tables_okD(4) [OF broker_invD(1) [OF inv]])
  have all: "fresh_handles now b = b_handles b" if ?all
    using that by (auto simp: fresh_handles_def filter_id_conv)
  show ?thesis
  proof (cases rule: evict_cases [of now b])
    case room
    then show ?thesis using all by fastforce
  next
    case busy
    have "length (fresh_handles now b) \<le> length (b_handles b)" by (simp add: fresh_handles_def)
    then have len: "length (fresh_handles now b) = length (b_handles b)" ?len using busy(1) le by auto
    have "fresh_handles now b = b_handles b"
      using len(1) unfolding fresh_handles_def by (rule filter_same_length)
    then have ?all using busy(2) by auto
    then show ?thesis using len(2) busy(3) by simp
  next
    case (oldest h0 t0)
    then have "\<not> ?all" by (force simp: fresh_handles_def)
    then show ?thesis using oldest(5) by simp
  qed
qed

lemma evicted_handle:
  assumes inv: "broker_inv A F b" and ev: "evictStaleHandlesLocked now b = (room, b')"
    and h: "(h, t) \<in> set (b_handles b)" "(h, t) \<notin> set (b_handles b')"
  shows "h \<notin> set (assigningHandles b) \<and> (ingressHandleTTL < time_sub now t \<or>
       (\<forall>(h', t') \<in> set (b_handles b'). h' \<notin> set (assigningHandles b) \<longrightarrow> t \<le> t'))"
proof (cases "(h, t) \<in> set (fresh_handles now b)")
  case False
  then show ?thesis using h(1) by (auto simp: fresh_handles_def)
next
  case fresh: True
  show ?thesis
  proof (cases rule: evict_cases [of now b])
    case (oldest h0 t0)
    then have b': "b_handles b' = AList.delete h0 (fresh_handles now b)" using ev by auto
    have "gwf (fresh_handles now b)"
      using tables_okD(1) [OF broker_invD(1) [OF inv]] by (simp add: fresh_handles_def)
    moreover have "h = h0" using fresh h(2) b' by (simp add: set_delete_iff)
    ultimately have "t = t0" using fresh oldest(2) by (auto dest: eq_key_imp_eq_value)
    then show ?thesis using oldest(3,4) b' \<open>h = h0\<close> by (auto simp: set_delete_iff)
  qed (use fresh h(2) ev in auto)
qed

text \<open>
  Eviction. In a broker that satisfies its invariant, \<open>evictStaleHandlesLocked\<close> returns
  false exactly when the table is at capacity with every handle being assigned, as its comment
  says; otherwise there is room for one more handle. A handle that is being assigned is never
  evicted, and an evicted handle was idle for longer than the TTL or, at capacity, no younger
  than every idle handle that stays.
\<close>

theorem evict_exact:
  assumes inv: "broker_inv A F b" and ev: "evictStaleHandlesLocked now b = (room, b')"
  shows "(\<not> room \<longleftrightarrow> length (b_handles b) = maxIngressHandles \<and> fst ` set (b_handles b) \<subseteq> set (assigningHandles b)) \<and>
    (room \<longrightarrow> length (b_handles b') < maxIngressHandles) \<and>
    (\<forall>h t. (h, t) \<in> set (b_handles b) \<and> (h, t) \<notin> set (b_handles b') \<longrightarrow> h \<notin> set (assigningHandles b) \<and>
      (ingressHandleTTL < time_sub now t \<or>
       (\<forall>(h', t') \<in> set (b_handles b'). h' \<notin> set (assigningHandles b) \<longrightarrow> t \<le> t')))"
  using evict_false_iff [OF inv, of now] evict_inv(2) [OF inv ev] evicted_handle [OF inv ev] unfolding ev fst_conv by blast

theorem evict_exact_witness:
  "evictStaleHandlesLocked 0 demo_assigning = (True, demo_assigning) \<and> length (b_handles demo_assigning) < 4096"
proof -
  have "broker_inv abi_v1 [] demo_assigning"
    using bsys.reachable_inv [OF demo_reachable] by (simp add: bsys_inv_def demo_system_def)
  moreover have "evictStaleHandlesLocked 0 demo_assigning = (True, demo_assigning)"
    by (simp add: demo_assigning_eq add_pending_def demo_open_eq demo_broker_eq evictStaleHandlesLocked_def
        time_sub_def ingressHandleTTL_def maxIngressHandles_def)
  ultimately show ?thesis using evict_exact [of abi_v1 "[]" demo_assigning 0 True demo_assigning]
    by (simp add: maxIngressHandles_def)
qed

text \<open>
  \<open>open\<close> succeeds exactly for the current generation of an active broker, for a nonzero
  handle that is not open, with room in the table and in the queue; then the handle is open
  since \<open>now\<close> and its event is queued last. A stale generation or an inactive broker changes
  nothing; every other error deactivates and empties the broker and hands out the fatal
  callback.
\<close>

theorem open_outcome:
  assumes inv: "broker_inv A F b" and op: "broker_open now g h b = (err, f, b')"
  shows "(err = None \<longleftrightarrow> g = b_generation b \<and> b_active b \<and> h \<noteq> 0 \<and> map_of (b_handles b) h = None \<and>
      fst (evictStaleHandlesLocked now b) \<and> length (chan_buf (b_opened b)) < chan_cap (b_opened b)) \<and>
    (case err of
       None \<Rightarrow> map_of (b_handles b') h = Some now \<and> f = None \<and>
         chan_buf (b_opened b') = chan_buf (b_opened b) @ [\<lparr>co_generation = g, co_handle = h\<rparr>]
     | Some e \<Rightarrow> if g \<noteq> b_generation b \<or> \<not> b_active b then b' = b \<and> f = None
         else \<not> b_active b' \<and> b_handles b' = [] \<and> b_correlations b' = [] \<and> chan_buf (b_opened b') = [] \<and>
           chan_buf (b_verified b') = [] \<and> f = b_fatal b)"
  using op
proof (cases rule: open_cases)
  case refused
  then show ?thesis by auto
next
  case (failed b0 e)
  then have e: "err = Some e" "f = b_fatal b0" "b' = clearLocked (b0\<lparr>b_active := False, b_assignNative := None\<rparr>)"
    by (simp_all add: failWith_eq)
  have "b_fatal b0 = b_fatal b" using failed(4) evict_frame(7) by (cases "b0 = b") fastforce+
  moreover have "\<not> (h \<noteq> 0 \<and> map_of (b_handles b) h = None \<and> fst (evictStaleHandlesLocked now b) \<and>
      length (chan_buf (b_opened b)) < chan_cap (b_opened b))"
  proof
    assume a: "h \<noteq> 0 \<and> map_of (b_handles b) h = None \<and> fst (evictStaleHandlesLocked now b) \<and>
      length (chan_buf (b_opened b)) < chan_cap (b_opened b)"
    obtain b1 where b1: "evictStaleHandlesLocked now b = (True, b1)" using a by (cases "evictStaleHandlesLocked now b") auto
    then have "err = None" using op a failed(2,3) evict_frame(4) [OF b1]
      by (auto simp: broker_open_def Let_def try_send_def)
    then show False using e(1) by simp
  qed
  ultimately show ?thesis using e failed(2,3) by auto
next
  case (opened b1 q)
  have "length (chan_buf (b_opened b)) < chan_cap (b_opened b)"
    using opened(8) evict_frame(4) [OF opened(7)] by (auto simp: try_send_def split: if_splits)
  then show ?thesis using opened ch.send_Some [OF opened(8)] evict_frame(4) [OF opened(7)] by auto
qed

theorem open_outcome_witness:
  "map_of (b_handles demo_open) 9 = Some 0 \<and>
   chan_buf (b_opened demo_open) = [\<lparr>co_generation = 7, co_handle = 9\<rparr>]"
proof -
  from open_outcome [OF demo_broker_inv demo_open_result] show ?thesis by (simp add: demo_open_eq demo_broker_eq)
qed

text \<open>
  C36: \<open>assign\<close> never calls a nil native function, and succeeds exactly for a lifetime in
  \<open>(0, MaxIngressLifetime]\<close>, a nonzero correlation, the current generation of an active broker,
  an open handle, an unused correlation and a handle with no assignment, when the native
  function returns \<open>AssignmentOK\<close>. The native function runs on a broker that already holds the
  pending assignment. When it does not itself change the broker, every error of a current
  assignment closes its handle.
\<close>

theorem assign_outcome:
  assumes ok: "abi_ok A" and inv: "broker_inv A F b"
  shows "\<exists>err b'. broker_assign A now native a b = Some (err, b') \<and>
    (err = None \<longleftrightarrow> now < ca_expiresAt a \<and> ca_expiresAt a - now \<le> MaxIngressLifetime A \<and>
       ca_correlation a \<noteq> zero_correlation A \<and> ca_generation a = b_generation b \<and> b_active b \<and>
       map_of (b_handles b) (ca_handle a) \<noteq> None \<and> map_of (b_correlations b) (ca_correlation a) = None \<and>
       ca_handle a \<notin> set (assigningHandles b) \<and>
       fst (native (the (b_assignNative b)) a (add_pending a b)) = AssignmentOK A) \<and>
    (err \<noteq> None \<and> ca_generation a = b_generation b \<and> (\<forall>f c. snd (native f a c) = c) \<longrightarrow>
       map_of (b_handles b') (ca_handle a) = None)"
proof -
  note tb = broker_invD(1) [OF inv]
  have shut: "map_of (b_handles (broker_closeHandle (b_generation b) h b)) h = None"
    "map_of (b_handles (clearAssignmentLocked h c b)) h = None"
    "map_of (b_handles (broker_closeHandle (b_generation b) h (add_pending a b))) h = None" for h c
    by (simp_all add: broker_closeHandle_def clearAssignmentLocked_def dropPendings_raw Let_def
        add_pending_def stopTimer_eq split: option.splits)
  obtain r b1 where beg: "broker_assign_begin A now a b = (r, b1)" by force
  then show ?thesis
  proof (cases rule: assign_begin_cases)
    case (closed e)
    then show ?thesis using beg lifetime_exact [OF ok] shut closed by (auto simp: broker_assign_def)
  next
    case (refused e)
    have "map_of (b_handles b) (ca_handle a) = None" if "\<not> b_active b"
      using that broker_invD(4) [OF inv] by (simp add: mode_ok_def)
    then show ?thesis using refused beg by (auto simp: broker_assign_def)
  next
    case (duplicate c)
    then show ?thesis using beg shut by (auto simp: broker_assign_def)
  next
    case begun
    have "b_assignNative b \<noteq> None" using broker_invD(4) [OF inv] begun(6) by (simp add: mode_ok_def)
    then obtain n where n: "b_assignNative b = Some n" by blast
    obtain rc b2 where nat: "native n a (add_pending a b) = (rc, b2)" by force
    have "broker_assign A now native a b = Some (broker_assign_end A rc a b2)"
      using beg begun n nat by (simp add: broker_assign_def)
    moreover have "b2 = add_pending a b" if "\<forall>f c. snd (native f a c) = c"
      using that nat by (metis snd_conv)
    ultimately show ?thesis using begun n nat shut lifetime_exact [OF ok, of now]
      by (auto simp: broker_assign_end_def Let_def)
  qed
qed

theorem assign_outcome_witness:
  "\<exists>b'. broker_assign abi_v1 0 (\<lambda>_ _ c. (AssignmentOK abi_v1, c)) demo_assignment demo_open = Some (None, b')"
proof -
  have "broker_inv abi_v1 [] demo_open"
    using open_inv [OF demo_broker_inv demo_open_result] by (simp only: demo_open_eq)
  from assign_outcome [OF abi_v1_ok this, of 0 "\<lambda>_ _ c. (AssignmentOK abi_v1, c)" demo_assignment]
  show ?thesis
    by (auto simp: demo_assignment_def zero_correlation_def numeral_eq_Suc demo_open_eq demo_broker_eq
        assigningHandles_def)
qed

text \<open>
  C35: \<open>deliver\<close> queues a frame exactly when it has a legal length, its expiry lies in
  \<open>(now, now + MaxIngressLifetime]\<close>, the broker is active in that generation, the correlation
  is pending with the same expiry and the queue has room; the queued value carries the handle
  the assignment was made for. It is one-shot: after any \<open>deliver\<close> for the current generation,
  successful or not, the correlation and its handle are gone, so the same frame cannot be
  delivered again; on an error nothing is queued.
\<close>

theorem deliver_outcome:
  assumes ok: "abi_ok A" and inv: "broker_inv A F b" and dl: "broker_deliver A now g c frame ms b = (err, f, b')"
  shows "(err = None \<longleftrightarrow> MinIngressFrameBytes A \<le> length frame \<and> length frame \<le> MaxIngressFrameBytes A \<and>
      now < time_of_unix_milli ms \<and> time_of_unix_milli ms - now \<le> MaxIngressLifetime A \<and>
      g = b_generation b \<and> b_active b \<and>
      (\<exists>p. map_of (b_correlations b) c = Some p \<and> unix_milli (ip_expiresAt p) = ms) \<and>
      length (chan_buf (b_verified b)) < chan_cap (b_verified b)) \<and>
    (g = b_generation b \<longrightarrow> map_of (b_correlations b') c = None) \<and>
    (\<forall>p. g = b_generation b \<and> map_of (b_correlations b) c = Some p \<longrightarrow>
      map_of (b_handles b') (ip_handle p) = None) \<and>
    (case err of
       None \<Rightarrow> chan_buf (b_verified b') = chan_buf (b_verified b) @
         [verified_of g c frame ms (the (map_of (b_correlations b) c))]
     | Some e \<Rightarrow> set (chan_buf (b_verified b')) \<subseteq> set (chan_buf (b_verified b)))"
proof -
  note lt = lifetime_exact [OF ok, of now "time_of_unix_milli ms"]
  have off: "map_of (b_correlations b) c = None" if "\<not> b_active b"
    using that broker_invD(4) [OF inv] by (simp add: mode_ok_def)
  have gone: "map_of (b_correlations (drop_one c p b)) c = None" "map_of (b_handles (drop_one c p b)) (ip_handle p) = None"
    "b_verified (drop_one c p b) = b_verified b" for p
    by (simp_all add: drop_one_def stopTimer_eq)
  show ?thesis
    using dl
  proof (cases rule: deliver_cases)
    case (closed e)
    then show ?thesis using lt gone off
      by (auto simp: frame_length_ok_def closeCorrelation_eq split: option.splits if_splits)
  next
    case (refused e)
    then show ?thesis using off by auto
  next
    case (mismatch p)
    then show ?thesis using gone by auto
  next
    case (overflow p)
    then show ?thesis by (auto simp: failWith_eq)
  next
    case (delivered p q)
    have "length (chan_buf (b_verified b)) < chan_cap (b_verified b)"
      using delivered(9) by (auto simp: try_send_def split: if_splits)
    then show ?thesis using delivered lt gone ch.send_Some [OF delivered(9)] by (auto simp: frame_length_ok_def)
  qed
qed

theorem deliver_outcome_witness:
  "chan_buf (b_verified demo_delivered) = [demo_frame] \<and> map_of (b_correlations demo_delivered) (replicate 16 1) = None"
proof -
  have "broker_inv abi_v1 [] demo_assigning"
    using bsys.reachable_inv [OF demo_reachable] by (simp add: bsys_inv_def demo_system_def)
  from deliver_outcome [OF abi_v1_ok this demo_deliver_result] show ?thesis
    by (simp add: demo_delivered_eq demo_broker_eq)
qed

text \<open>
  A frame from the subprocess is only queued for the handle it names. When
  \<open>deliverIPCFrame\<close> succeeds, the frame queued last carries the generation, handle and
  correlation it was called with and the expiry, to the millisecond, of the assignment that was
  pending for them.
\<close>

theorem deliverIPCFrame_binds_handle:
  assumes "broker_deliverIPCFrame A now g h c frame b = (None, f, b')"
  shows "\<exists>p. map_of (b_correlations b) c = Some p \<and> ip_handle p = h \<and> chan_buf (b_verified b') = chan_buf (b_verified b) @
    [\<lparr>vf_generation = g, vf_handle = h, vf_correlation = c, vf_frame = frame,
      vf_expiresAt = time_of_unix_milli (unix_milli (ip_expiresAt p))\<rparr>]"
proof -
  obtain p where p: "map_of (b_correlations b) c = Some p" "ip_handle p = h"
    and dl: "broker_deliver A now g c frame (unix_milli (ip_expiresAt p)) b = (None, f, b')"
    using assms by (auto simp: broker_deliverIPCFrame_def broker_lookupIPC_def split: option.splits if_splits)
  from dl show ?thesis
  proof (cases rule: deliver_cases)
    case (delivered p' q)
    then show ?thesis using p ch.send_Some [OF delivered(9)] by (auto simp: verified_of_def)
  qed (auto simp: failWith_eq)
qed

theorem deliverIPCFrame_binds_handle_witness:
  "\<exists>p. map_of (b_correlations demo_assigning) (replicate 16 1) = Some p \<and> ip_handle p = 9"
proof -
  have "broker_lookupIPC 9 (replicate 16 1) demo_assigning = Inr 1000"
    by (simp add: broker_lookupIPC_def demo_assigning_eq add_pending_def demo_open_eq demo_broker_eq
        demo_assignment_def new_pending_def unix_milli_def)
  then have "broker_deliverIPCFrame abi_v1 0 7 9 (replicate 16 1) [1] demo_assigning = (None, None, demo_delivered)"
    unfolding broker_deliverIPCFrame_def by (simp only: sum.case demo_deliver_result demo_delivered_eq)
  from deliverIPCFrame_binds_handle [OF this] show ?thesis by blast
qed

end
