(* ===== verification/Session.thy ===== *)
theory Session
  imports Packets Ingress_Frame Broker
begin

text \<open>
  The subprocess ingress session of \<^verbatim>\<open>go/subprocess_ingress.go\<close>: the pending assignments waiting
  for an acknowledgement, the read loop that handles the child's packets, and closing.

  A session works on its own state and on the broker; the functions below take both. The
  packet connection is not part of the model: what \<open>Write\<close> and \<open>Read\<close> return is an argument.
  Every packet handed to \<open>Write\<close> is recorded in \<open>ss_sent\<close>. \<open>s.now()\<close> is an argument, one per
  reading. Waiter channels are named by numbers; \<open>ss_waiters\<close> holds their buffers. The broker's
  \<open>fatal\<close> callback is \<open>session.fail\<close>, as \<^verbatim>\<open>go/subprocess.go\<close> installs it.
\<close>

section \<open>State\<close>

text \<open>
  Why a session ended: a protocol error, an end of file, another error of the connection
  (of the type \<open>'e\<close>), or a short write. \<open>None\<close> is Go's nil, the reason after a clean exit.
\<close>

datatype 'e session_error = ProtocolErr ingress_error | EOFErr | ConnErr 'e | ShortWrite nat nat

text \<open>An error of \<open>Read\<close>, by what \<open>errors.Is\<close> says of it.\<close>

datatype 'e read_error = ReadClosed | ReadEOF | ReadOther 'e

type_synonym subprocessPendingKey = "u64 \<times> correlation"

record subprocessPending =
  pe_waiter :: nat
  pe_expiresAt :: time
  pe_acknowledged :: bool
  pe_timer :: "nat option"

record 'e subprocessIngressSession =
  ss_generation :: u64
  ss_key :: bytes
  ss_writeSequence :: u64
  ss_accepting :: bool
  ss_ops :: nat
  ss_pending :: "(subprocessPendingKey \<times> subprocessPending) list"
  ss_closed :: bool
  ss_closeErr :: "'e session_error option"
  ss_done :: bool
  ss_waiters :: "(nat \<times> u8 chan) list"
  ss_timers :: "(nat \<times> subprocessPendingKey \<times> time) list"
  ss_next :: nat
  ss_sent :: "bytes list"

type_synonym session_broker = "(unit, unit) ingressBroker"

definition newSubprocessIngressSession :: "u64 \<Rightarrow> bytes \<Rightarrow> 'e subprocessIngressSession" where
  "newSubprocessIngressSession generation key =
     \<lparr>ss_generation = generation, ss_key = key, ss_writeSequence = 0, ss_accepting = True, ss_ops = 0,
      ss_pending = [], ss_closed = False, ss_closeErr = None, ss_done = False, ss_waiters = [],
      ss_timers = [], ss_next = 0, ss_sent = []\<rparr>"

section \<open>Pending assignments\<close>

text \<open>\<open>select { case waiter <- status: default: }\<close>\<close>

definition notifyWaiter :: "nat \<Rightarrow> u8 \<Rightarrow> (nat \<times> u8 chan) list \<Rightarrow> (nat \<times> u8 chan) list" where
  "notifyWaiter w status ws =
     (case map_of ws w of
        None \<Rightarrow> ws
      | Some c \<Rightarrow> (case try_send c status of None \<Rightarrow> ws | Some c' \<Rightarrow> AList.update w c' ws))"

definition stopPendingTimer :: "subprocessPending \<Rightarrow> 'e subprocessIngressSession \<Rightarrow> 'e subprocessIngressSession" where
  "stopPendingTimer p s =
     (case pe_timer p of None \<Rightarrow> s | Some i \<Rightarrow> s\<lparr>ss_timers := AList.delete i (ss_timers s)\<rparr>)"

definition removePending :: "subprocessPendingKey \<Rightarrow> 'e subprocessIngressSession \<Rightarrow> 'e subprocessIngressSession" where
  "removePending key s =
     (case map_of (ss_pending s) key of
        None \<Rightarrow> s
      | Some pending \<Rightarrow> (stopPendingTimer pending s)\<lparr>ss_pending := AList.delete key (ss_pending s)\<rparr>)"

definition expirePending ::
    "abi \<Rightarrow> subprocessPendingKey \<Rightarrow> time \<Rightarrow> 'e subprocessIngressSession \<Rightarrow> 'e subprocessIngressSession" where
  "expirePending A key expiresAt s =
     (case map_of (ss_pending s) key of
        None \<Rightarrow> s
      | Some pending \<Rightarrow>
          if pe_expiresAt pending \<noteq> expiresAt then s
          else s\<lparr>ss_pending := AList.delete key (ss_pending s),
                 ss_waiters := notifyWaiter (pe_waiter pending) (SubprocessACKNegative A) (ss_waiters s)\<rparr>)"

section \<open>Closing\<close>

text \<open>The body \<open>closeOnce.Do\<close> runs the first time, in the order of its statements.\<close>

definition session_close ::
    "abi \<Rightarrow> 'e session_error option \<Rightarrow> 'e subprocessIngressSession \<times> session_broker \<Rightarrow>
      'e subprocessIngressSession \<times> session_broker" where
  "session_close A reason = (\<lambda>(s, b).
     if ss_closed s then (s, b)
     else (let s = s\<lparr>ss_closed := True, ss_accepting := False\<rparr>;
               s = s\<lparr>ss_closeErr := reason\<rparr>;
               b = broker_deactivate (ss_generation s) b;
               s = s\<lparr>ss_done := True\<rparr>;
               s = fold (\<lambda>(_, p) s. (stopPendingTimer p s)
                     \<lparr>ss_waiters := notifyWaiter (pe_waiter p) (SubprocessACKNegative A) (ss_waiters s)\<rparr>)
                     (ss_pending s) s
           in (s\<lparr>ss_pending := []\<rparr>, b)))"

definition session_fail ::
    "abi \<Rightarrow> 'e session_error \<Rightarrow> 'e subprocessIngressSession \<times> session_broker \<Rightarrow>
      'e subprocessIngressSession \<times> session_broker" where
  "session_fail A reason = session_close A (Some reason)"

definition session_err :: "'e subprocessIngressSession \<Rightarrow> 'e session_error option" where
  "session_err s = ss_closeErr s"

text \<open>
  \<open>wait\<close> returns when the read loop has ended and no \<open>assign\<close> is in progress, and then clears
  the key; \<open>None\<close> while it has to wait.
\<close>

definition session_wait :: "bool \<Rightarrow> 'e subprocessIngressSession \<Rightarrow> 'e subprocessIngressSession option" where
  "session_wait reading s =
     (if reading \<or> ss_ops s > 0 then None
      else Some (s\<lparr>ss_key := map (\<lambda>_. 0) (ss_key s)\<rparr>))"

text \<open>The result of \<open>conn.Write(packet)\<close>: the number of bytes written and the error.\<close>

definition writeFullPacket :: "nat \<times> 'e option \<Rightarrow> bytes \<Rightarrow> 'e session_error option" where
  "writeFullPacket result packet =
     (case result of
        (_, Some err) \<Rightarrow> Some (ConnErr err)
      | (n, None) \<Rightarrow> if n \<noteq> length packet then Some (ShortWrite n (length packet)) else None)"

section \<open>assign\<close>

text \<open>
  \<open>assign\<close> runs concurrently with the read loop, the timers and other \<open>assign\<close> calls; it is
  split where it gives up a lock or waits. Each part returns \<open>Inl\<close> with the result of the
  call, or \<open>Inr\<close> to go on. The deferred \<open>opWG.Done()\<close> is \<open>assign_return\<close>.
\<close>

definition assign_enter :: "'e subprocessIngressSession \<Rightarrow> (int + unit) \<times> 'e subprocessIngressSession" where
  "assign_enter s =
     (if \<not> ss_accepting s then (Inl embeddedAssignmentTransportFailure, s)
      else (Inr (), s\<lparr>ss_ops := ss_ops s + 1\<rparr>))"

definition assign_return :: "'e subprocessIngressSession \<Rightarrow> 'e subprocessIngressSession" where
  "assign_return s = s\<lparr>ss_ops := ss_ops s - 1\<rparr>"

definition pendingKey :: "ConnectionAssignment \<Rightarrow> subprocessPendingKey" where
  "pendingKey a = (ca_handle a, ca_correlation a)"

definition remaining_ok :: "abi \<Rightarrow> time \<Rightarrow> ConnectionAssignment \<Rightarrow> bool" where
  "remaining_ok A now a \<longleftrightarrow>
     \<not> (time_sub (ca_expiresAt a) now \<le> 0 \<or> time_sub (ca_expiresAt a) now > MaxIngressLifetime A)"

text \<open>From the generation check to \<open>s.mu.Unlock()\<close>; \<open>Inr\<close> names the waiter.\<close>

definition assign_register ::
    "abi \<Rightarrow> time \<Rightarrow> ConnectionAssignment \<Rightarrow> 'e subprocessIngressSession \<Rightarrow>
      (int + nat) \<times> 'e subprocessIngressSession" where
  "assign_register A now a s =
     (if ca_generation a \<noteq> ss_generation s then (Inl embeddedAssignmentTransportFailure, s)
      else if \<not> remaining_ok A now a then (Inl (AssignmentInvalidOrExpiredTime A), s)
      else if map_of (ss_pending s) (pendingKey a) \<noteq> None
      then (Inl (AssignmentDuplicateHandleOrCorrelation A), s)
      else (let w = ss_next s;
                pending = \<lparr>pe_waiter = w, pe_expiresAt = ca_expiresAt a, pe_acknowledged = False,
                  pe_timer = Some w\<rparr>
            in (Inr w, s\<lparr>ss_next := Suc w,
                  ss_waiters := AList.update w (make_chan 1) (ss_waiters s),
                  ss_timers := AList.update w (pendingKey a, ca_expiresAt a) (ss_timers s),
                  ss_pending := AList.update (pendingKey a) pending (ss_pending s)\<rparr>)))"

text \<open>
  Under \<open>s.writeMu\<close>, with \<open>result\<close> what \<open>Write\<close> returns. The result is \<open>None\<close> only if the
  encoder panics, which it does not for a well formed layout.
\<close>

definition assign_write ::
    "abi \<Rightarrow> time \<Rightarrow> nat \<times> 'e option \<Rightarrow> ConnectionAssignment \<Rightarrow> 'e subprocessIngressSession \<times> session_broker \<Rightarrow>
      ((int + unit) \<times> 'e subprocessIngressSession \<times> session_broker) option" where
  "assign_write A now result a = (\<lambda>(s, b).
     if \<not> remaining_ok A now a
     then Some (Inl (AssignmentInvalidOrExpiredTime A), removePending (pendingKey a) s, b)
     else (let s = s\<lparr>ss_writeSequence := ss_writeSequence s + 1\<rparr> in
       case encodeAssignmentPacket A (ss_key s) (ss_generation s) (ss_writeSequence s) (ca_handle a)
              (ca_correlation a) (unix_milli (ca_expiresAt a)) of
         None \<Rightarrow> None
       | Some packet \<Rightarrow>
           (let s = s\<lparr>ss_sent := ss_sent s @ [packet]\<rparr> in
            case writeFullPacket result packet of
              Some err \<Rightarrow>
                (case session_fail A err (s, b) of
                   (s, b) \<Rightarrow> Some (Inl embeddedAssignmentTransportFailure, removePending (pendingKey a) s, b))
            | None \<Rightarrow> Some (Inr (), s, b))))"

text \<open>The check of the remaining time after the write.\<close>

definition assign_written ::
    "abi \<Rightarrow> time \<Rightarrow> ConnectionAssignment \<Rightarrow> 'e subprocessIngressSession \<Rightarrow>
      (int + unit) \<times> 'e subprocessIngressSession" where
  "assign_written A now a s =
     (if \<not> remaining_ok A now a
      then (Inl (AssignmentInvalidOrExpiredTime A), removePending (pendingKey a) s)
      else (Inr (), s))"

text \<open>
  The final \<open>select\<close>: it takes a branch that is ready, so which one is an argument, and \<open>None\<close>
  says that the chosen branch is not ready. \<open>WakeTimer\<close> is the call's own timer.
\<close>

datatype wake = WakeStatus | WakeTimer | WakeDone

definition assign_finish ::
    "abi \<Rightarrow> time \<Rightarrow> wake \<Rightarrow> ConnectionAssignment \<Rightarrow> nat \<Rightarrow> 'e subprocessIngressSession \<Rightarrow>
      (int \<times> 'e subprocessIngressSession) option" where
  "assign_finish A now wake a w s =
     (case wake of
        WakeStatus \<Rightarrow>
          (case map_of (ss_waiters s) w of
             None \<Rightarrow> None
           | Some c \<Rightarrow>
               (case try_recv c of
                  None \<Rightarrow> None
                | Some (status, c') \<Rightarrow>
                    (let s = s\<lparr>ss_waiters := AList.update w c' (ss_waiters s)\<rparr> in
                     if status = SubprocessACKPositive A
                     then (if \<not> now < ca_expiresAt a
                           then Some (AssignmentInvalidOrExpiredTime A, removePending (pendingKey a) s)
                           else Some (AssignmentOK A, s))
                     else Some (AssignmentWrongConnectionState A, removePending (pendingKey a) s))))
      | WakeTimer \<Rightarrow> Some (AssignmentInvalidOrExpiredTime A, removePending (pendingKey a) s)
      | WakeDone \<Rightarrow> if ss_done s then Some (embeddedAssignmentTransportFailure, s) else None)"

section \<open>readLoop\<close>

text \<open>\<open>broker.open\<close> and \<open>broker.deliverIPCFrame\<close> run the fatal callback after unlocking.\<close>

definition run_fatal ::
    "abi \<Rightarrow> ingress_error option \<Rightarrow> unit option \<Rightarrow> 'e subprocessIngressSession \<times> session_broker \<Rightarrow>
      'e subprocessIngressSession \<times> session_broker" where
  "run_fatal A err fatal sb =
     (case (err, fatal) of (Some e, Some _) \<Rightarrow> session_fail A (ProtocolErr e) sb | _ \<Rightarrow> sb)"

text \<open>
  What a packet does; \<open>True\<close> when the loop goes on. In the acknowledgement branch the pending
  entry is examined and changed under \<open>s.mu\<close>, then either the session fails or the waiter is
  notified.
\<close>

definition handle_ack ::
    "abi \<Rightarrow> time \<Rightarrow> subprocessPendingKey \<Rightarrow> u8 \<Rightarrow> 'e subprocessIngressSession \<times> session_broker \<Rightarrow>
      bool \<times> 'e subprocessIngressSession \<times> session_broker" where
  "handle_ack A now key status = (\<lambda>(s, b).
     case map_of (ss_pending s) key of
       None \<Rightarrow> (True, s, b)
     | Some pending \<Rightarrow>
         (let drop = (stopPendingTimer pending s)\<lparr>ss_pending := AList.delete key (ss_pending s)\<rparr> in
          if \<not> now < pe_expiresAt pending then
            (True, drop\<lparr>ss_waiters := notifyWaiter (pe_waiter pending) (SubprocessACKNegative A) (ss_waiters drop)\<rparr>, b)
          else if status = SubprocessACKPositive A then
            (if pe_acknowledged pending then (False, session_fail A (ProtocolErr ErrIngressDuplicate) (s, b))
             else (True, s\<lparr>ss_pending := AList.update key (pending\<lparr>pe_acknowledged := True\<rparr>) (ss_pending s),
                     ss_waiters := notifyWaiter (pe_waiter pending) status (ss_waiters s)\<rparr>, b))
          else if pe_acknowledged pending then (False, session_fail A (ProtocolErr ErrIngressRejected) (s, b))
          else (True, drop\<lparr>ss_waiters := notifyWaiter (pe_waiter pending) status (ss_waiters drop)\<rparr>, b)))"

definition handle_verified ::
    "abi \<Rightarrow> time \<Rightarrow> u64 \<Rightarrow> bytes \<Rightarrow> 'e subprocessIngressSession \<times> session_broker \<Rightarrow>
      bool \<times> 'e subprocessIngressSession \<times> session_broker" where
  "handle_verified A now handle payload = (\<lambda>(s, b).
     case extractIngressCorrelation A payload of
       Inl err \<Rightarrow> (False, session_fail A (ProtocolErr err) (s, b))
     | Inr correlation \<Rightarrow>
         (case map_of (ss_pending s) (handle, correlation) of
            None \<Rightarrow> (True, s, b)
          | Some pending \<Rightarrow>
              (let s = (stopPendingTimer pending s)\<lparr>ss_pending := AList.delete (handle, correlation) (ss_pending s)\<rparr> in
               if \<not> pe_acknowledged pending then (False, session_fail A (ProtocolErr ErrIngressRejected) (s, b))
               else case broker_deliverIPCFrame A now (ss_generation s) handle correlation payload b of
                 (None, _, b) \<Rightarrow> (True, s, b)
               | (Some err, fatal, b) \<Rightarrow>
                   (let sb = run_fatal A (Some err) fatal (s, b) in
                    if err = ErrIngressMismatch \<or> err = ErrIngressLifetime then (True, sb)
                    else (False, session_fail A (ProtocolErr err) sb)))))"

definition handle_open ::
    "abi \<Rightarrow> time \<Rightarrow> u64 \<Rightarrow> 'e subprocessIngressSession \<times> session_broker \<Rightarrow>
      bool \<times> 'e subprocessIngressSession \<times> session_broker" where
  "handle_open A now handle = (\<lambda>(s, b).
     case broker_open now (ss_generation s) handle b of
       (None, _, b) \<Rightarrow> (True, s, b)
     | (Some err, fatal, b) \<Rightarrow>
         (False, session_fail A (ProtocolErr err) (run_fatal A (Some err) fatal (s, b))))"

definition handle_packet ::
    "abi \<Rightarrow> time \<Rightarrow> authenticatedPacket \<Rightarrow> 'e subprocessIngressSession \<times> session_broker \<Rightarrow>
      bool \<times> 'e subprocessIngressSession \<times> session_broker" where
  "handle_packet A now packet sb =
     (if ap_typ packet = SubprocessConnectionOpen A then handle_open A now (ap_handle packet) sb
      else if ap_typ packet = SubprocessAssignmentACK A
      then handle_ack A now (ap_handle packet, ap_correlation packet) (ap_status packet) sb
      else if ap_typ packet = SubprocessVerifiedIngress A
      then handle_verified A now (ap_handle packet) (ap_payload packet) sb
      else (False, session_fail A (ProtocolErr ErrIngressABI) sb))"

text \<open>
  One iteration of the loop: \<open>input\<close> is what \<open>Read\<close> returned, at most a buffer of
  \<open>MaxAuthenticatedPacketBytes\<close>; \<open>sequence\<close> is the loop's counter. \<open>None\<close> would be a panic of the
  decoder.
\<close>

definition readLoop_step ::
    "abi \<Rightarrow> time \<Rightarrow> 'e read_error + bytes \<Rightarrow> u64 \<Rightarrow> 'e subprocessIngressSession \<times> session_broker \<Rightarrow>
      (bool \<times> u64 \<times> 'e subprocessIngressSession \<times> session_broker) option" where
  "readLoop_step A now input sequence = (\<lambda>(s, b).
     case input of
       Inl (ReadOther err) \<Rightarrow> Some (False, sequence, session_fail A (ConnErr err) (s, b))
     | Inl _ \<Rightarrow> Some (False, sequence, session_fail A EOFErr (s, b))
     | Inr bytes \<Rightarrow>
         (case decodeAuthenticatedPacket A bytes (ss_key s) (ss_generation s) sequence of
            None \<Rightarrow> None
          | Some (Inl err) \<Rightarrow> Some (False, sequence, session_fail A (ProtocolErr err) (s, b))
          | Some (Inr packet) \<Rightarrow>
              (case handle_packet A now packet (s, b) of (go, sb) \<Rightarrow> Some (go, sequence + 1, sb))))"

text \<open>The loop over the inputs \<open>Read\<close> returns; it stops at the first failure.\<close>

fun readLoop ::
    "abi \<Rightarrow> (time \<times> ('e read_error + bytes)) list \<Rightarrow> u64 \<Rightarrow> 'e subprocessIngressSession \<times> session_broker \<Rightarrow>
      (bool \<times> u64 \<times> 'e subprocessIngressSession \<times> session_broker) option" where
  "readLoop A [] sequence sb = Some (True, sequence, sb)"
| "readLoop A ((now, input) # rest) sequence sb =
     (case readLoop_step A now input sequence sb of
        None \<Rightarrow> None
      | Some (True, sequence', sb') \<Rightarrow> readLoop A rest sequence' sb'
      | Some (False, sequence', sb') \<Rightarrow> Some (False, sequence', sb'))"

end
