(* ===== verification/Session_System.thy ===== *)
theory Session_System
  imports Session Packets_Correct Broker_Inv
begin

text \<open>
  The session under concurrency: any number of \<open>assign\<close> calls in their phases, the read loop,
  the timers, a supervisor that closes the session and waits for it, and a broker that other
  goroutines change at any time. Two histories are kept for the statements: the authenticated
  packets the read loop accepted (\<open>sx_log\<close>) and the key each waiter channel was made for
  (\<open>sx_owner\<close>).
\<close>

datatype call_phase = Entered | Registered nat | Written nat | Waiting nat

record 'e session_system =
  sx_session :: "'e subprocessIngressSession"
  sx_broker :: session_broker
  sx_sequence :: u64
  sx_reading :: bool
  sx_calls :: "(ConnectionAssignment \<times> call_phase) list"
  sx_firing :: "(subprocessPendingKey \<times> time) list"
  sx_log :: "authenticatedPacket list"
  sx_owner :: "(nat \<times> subprocessPendingKey) list"

datatype 'e session_event =
    XEnter ConnectionAssignment
  | XRegister time ConnectionAssignment
  | XWrite time ConnectionAssignment
  | XWritten time ConnectionAssignment
  | XReturn int ConnectionAssignment
  | XRead "'e read_error + bytes"
  | XTimer nat
  | XExpire subprocessPendingKey
  | XClose
  | XWait
  | XBroker

definition accepted :: "abi \<Rightarrow> 'e read_error + bytes \<Rightarrow> u64 \<Rightarrow> 'e subprocessIngressSession \<Rightarrow> authenticatedPacket list" where
  "accepted A input sequence s =
     (case input of
        Inl _ \<Rightarrow> []
      | Inr bytes \<Rightarrow>
          (case decodeAuthenticatedPacket A bytes (ss_key s) (ss_generation s) sequence of
             Some (Inr packet) \<Rightarrow> [packet]
           | _ \<Rightarrow> []))"

inductive sxstep :: "abi \<Rightarrow> 'e session_system \<Rightarrow> 'e session_event \<Rightarrow> 'e session_system \<Rightarrow> bool"
  for A :: abi where
  sx_enter: "assign_enter (sx_session x) = (Inr (), s) \<Longrightarrow>
    sxstep A x (XEnter a) (x\<lparr>sx_session := s, sx_calls := (a, Entered) # sx_calls x\<rparr>)"
| sx_refuse: "assign_enter (sx_session x) = (Inl rc, s) \<Longrightarrow>
    sxstep A x (XReturn rc a) (x\<lparr>sx_session := s\<rparr>)"
| sx_register: "(a, Entered) \<in> set (sx_calls x) \<Longrightarrow> assign_register A now a (sx_session x) = (Inr w, s) \<Longrightarrow>
    sxstep A x (XRegister now a) (x\<lparr>sx_session := s,
      sx_calls := (a, Registered w) # remove1 (a, Entered) (sx_calls x),
      sx_owner := (w, pendingKey a) # sx_owner x\<rparr>)"
| sx_register_error: "(a, Entered) \<in> set (sx_calls x) \<Longrightarrow> assign_register A now a (sx_session x) = (Inl rc, s) \<Longrightarrow>
    sxstep A x (XReturn rc a) (x\<lparr>sx_session := assign_return s, sx_calls := remove1 (a, Entered) (sx_calls x)\<rparr>)"
| sx_write: "(a, Registered w) \<in> set (sx_calls x) \<Longrightarrow>
    assign_write A now result a (sx_session x, sx_broker x) = Some (Inr (), s, b) \<Longrightarrow>
    sxstep A x (XWrite now a) (x\<lparr>sx_session := s, sx_broker := b,
      sx_calls := (a, Written w) # remove1 (a, Registered w) (sx_calls x)\<rparr>)"
| sx_write_error: "(a, Registered w) \<in> set (sx_calls x) \<Longrightarrow>
    assign_write A now result a (sx_session x, sx_broker x) = Some (Inl rc, s, b) \<Longrightarrow>
    sxstep A x (XReturn rc a) (x\<lparr>sx_session := assign_return s, sx_broker := b,
      sx_calls := remove1 (a, Registered w) (sx_calls x)\<rparr>)"
| sx_written: "(a, Written w) \<in> set (sx_calls x) \<Longrightarrow> assign_written A now a (sx_session x) = (Inr (), s) \<Longrightarrow>
    sxstep A x (XWritten now a) (x\<lparr>sx_session := s,
      sx_calls := (a, Waiting w) # remove1 (a, Written w) (sx_calls x)\<rparr>)"
| sx_written_error: "(a, Written w) \<in> set (sx_calls x) \<Longrightarrow> assign_written A now a (sx_session x) = (Inl rc, s) \<Longrightarrow>
    sxstep A x (XReturn rc a) (x\<lparr>sx_session := assign_return s, sx_calls := remove1 (a, Written w) (sx_calls x)\<rparr>)"
| sx_finish: "(a, Waiting w) \<in> set (sx_calls x) \<Longrightarrow> assign_finish A now wake a w (sx_session x) = Some (rc, s) \<Longrightarrow>
    sxstep A x (XReturn rc a) (x\<lparr>sx_session := assign_return s, sx_calls := remove1 (a, Waiting w) (sx_calls x)\<rparr>)"
| sx_read: "sx_reading x \<Longrightarrow>
    readLoop_step A now input (sx_sequence x) (sx_session x, sx_broker x) = Some (go, sequence, s, b) \<Longrightarrow>
    sxstep A x (XRead input) (x\<lparr>sx_session := s, sx_broker := b, sx_sequence := sequence, sx_reading := go,
      sx_log := sx_log x @ accepted A input (sx_sequence x) (sx_session x)\<rparr>)"
| sx_timer: "map_of (ss_timers (sx_session x)) i = Some k \<Longrightarrow>
    sxstep A x (XTimer i) (x\<lparr>sx_session := (sx_session x)\<lparr>ss_timers := AList.delete i (ss_timers (sx_session x))\<rparr>,
      sx_firing := k # sx_firing x\<rparr>)"
| sx_expire: "(k, t) \<in> set (sx_firing x) \<Longrightarrow>
    sxstep A x (XExpire k) (x\<lparr>sx_session := expirePending A k t (sx_session x), sx_firing := remove1 (k, t) (sx_firing x)\<rparr>)"
| sx_close: "session_close A reason (sx_session x, sx_broker x) = (s, b) \<Longrightarrow>
    sxstep A x XClose (x\<lparr>sx_session := s, sx_broker := b\<rparr>)"
| sx_wait: "session_wait (sx_reading x) (sx_session x) = Some s \<Longrightarrow> sxstep A x XWait (x\<lparr>sx_session := s\<rparr>)"
| sx_broker: "sxstep A x XBroker (x\<lparr>sx_broker := b\<rparr>)"

definition sxinit :: "u64 \<Rightarrow> bytes \<Rightarrow> 'e session_system \<Rightarrow> bool" where
  "sxinit g key x \<longleftrightarrow> sx_session x = newSubprocessIngressSession g key \<and> sx_sequence x = 1 \<and> sx_reading x \<and>
     sx_calls x = [] \<and> sx_firing x = [] \<and> sx_log x = [] \<and> sx_owner x = []"

section \<open>What most operations keep\<close>

definition pos :: "abi \<Rightarrow> (nat \<times> u8 chan) list \<Rightarrow> nat \<Rightarrow> bool" where
  "pos A ws w \<longleftrightarrow> (\<exists>c. map_of ws w = Some c \<and> SubprocessACKPositive A \<in> set (chan_buf c))"

lemma pos_notify: "pos A (notifyWaiter v status ws) w \<Longrightarrow> pos A ws w \<or> w = v \<and> status = SubprocessACKPositive A"
  by (auto simp: pos_def notifyWaiter_def try_send_def split: option.splits if_splits)

text \<open>
  An operation that adds no pending assignment and no positive status, and leaves the
  identity of the session, its counters and its output alone.
\<close>

definition quieter :: "abi \<Rightarrow> 'e subprocessIngressSession \<Rightarrow> 'e subprocessIngressSession \<Rightarrow> bool" where
  "quieter A s s' \<longleftrightarrow> map_of (ss_pending s') \<subseteq>\<^sub>m map_of (ss_pending s) \<and>
     (\<forall>w. pos A (ss_waiters s') w \<longrightarrow> pos A (ss_waiters s) w) \<and>
     ss_next s' = ss_next s \<and> ss_generation s' = ss_generation s \<and> ss_key s' = ss_key s \<and>
     ss_writeSequence s' = ss_writeSequence s \<and> ss_sent s' = ss_sent s \<and> ss_ops s' = ss_ops s \<and>
     (ss_closed s' \<and> \<not> ss_accepting s' \<and> ss_done s' \<or>
      ss_closed s' = ss_closed s \<and> ss_accepting s' = ss_accepting s \<and> ss_done s' = ss_done s)"

lemma quieter_refl [simp]: "quieter A s s"
  by (simp add: quieter_def)

lemma quieter_trans: "quieter A s t \<Longrightarrow> quieter A t u \<Longrightarrow> quieter A s u"
  unfolding quieter_def by (elim conjE, intro conjI) (auto intro: map_le_trans)

lemma map_le_delete [simp]: "map_of (AList.delete k m) \<subseteq>\<^sub>m map_of m"
  by (simp add: map_le_def)

lemma stopPendingTimer_eq: "stopPendingTimer p s = s\<lparr>ss_timers := ss_timers (stopPendingTimer p s)\<rparr>"
  by (simp add: stopPendingTimer_def split: option.splits)

lemma stopPendingTimer_fields [simp]:
  "ss_pending (stopPendingTimer p s) = ss_pending s" "ss_waiters (stopPendingTimer p s) = ss_waiters s"
  "ss_next (stopPendingTimer p s) = ss_next s" "ss_generation (stopPendingTimer p s) = ss_generation s"
  "ss_key (stopPendingTimer p s) = ss_key s" "ss_writeSequence (stopPendingTimer p s) = ss_writeSequence s"
  "ss_sent (stopPendingTimer p s) = ss_sent s" "ss_ops (stopPendingTimer p s) = ss_ops s"
  "ss_closed (stopPendingTimer p s) = ss_closed s" "ss_accepting (stopPendingTimer p s) = ss_accepting s"
  "ss_done (stopPendingTimer p s) = ss_done s" "ss_closeErr (stopPendingTimer p s) = ss_closeErr s"
  by (simp_all add: stopPendingTimer_def split: option.splits)

lemma drop_quieter:
  "quieter A s ((stopPendingTimer p s)\<lparr>ss_pending := AList.delete k (ss_pending s)\<rparr>)"
  by (simp add: quieter_def)

lemma removePending_quieter: "quieter A s (removePending k s)"
  by (auto simp: removePending_def drop_quieter split: option.splits)

text \<open>The loop of \<open>close\<close> over the pending entries.\<close>

definition notify_all :: "abi \<Rightarrow> (subprocessPendingKey \<times> subprocessPending) list \<Rightarrow> 'e subprocessIngressSession \<Rightarrow> 'e subprocessIngressSession" where
  "notify_all A ps s = fold (\<lambda>(_, p) s. (stopPendingTimer p s)
     \<lparr>ss_waiters := notifyWaiter (pe_waiter p) (SubprocessACKNegative A) (ss_waiters s)\<rparr>) ps s"

locale session_status = abi_layout
begin

lemma positive_not_negative [simp]: "SubprocessACKPositive A \<noteq> SubprocessACKNegative A"
    "SubprocessACKNegative A \<noteq> SubprocessACKPositive A"
  using ok by (auto simp: abi_ok_def)

lemma expirePending_quieter: "quieter A s (expirePending A k t s)"
  by (auto simp: expirePending_def quieter_def dest: pos_notify split: option.splits)

lemma notify_all_effect:
  "ss_pending (notify_all A ps s) = ss_pending s \<and> ss_next (notify_all A ps s) = ss_next s \<and>
   ss_generation (notify_all A ps s) = ss_generation s \<and> ss_key (notify_all A ps s) = ss_key s \<and>
   ss_writeSequence (notify_all A ps s) = ss_writeSequence s \<and> ss_sent (notify_all A ps s) = ss_sent s \<and>
   ss_ops (notify_all A ps s) = ss_ops s \<and> ss_closed (notify_all A ps s) = ss_closed s \<and>
   ss_accepting (notify_all A ps s) = ss_accepting s \<and> ss_done (notify_all A ps s) = ss_done s \<and>
   ss_closeErr (notify_all A ps s) = ss_closeErr s \<and>
   (pos A (ss_waiters (notify_all A ps s)) w \<longrightarrow> pos A (ss_waiters s) w)"
  unfolding notify_all_def
proof (induction ps arbitrary: s)
  case (Cons x ps)
  obtain k p where x: "x = (k, p)" by (cases x)
  show ?case using Cons.IH [of "(stopPendingTimer p s)
     \<lparr>ss_waiters := notifyWaiter (pe_waiter p) (SubprocessACKNegative A) (ss_waiters s)\<rparr>"]
    by (auto simp: x dest: pos_notify)
qed simp

lemma session_close_eq:
  "session_close A reason (s, b) = (if ss_closed s then (s, b)
    else ((notify_all A (ss_pending s) (s\<lparr>ss_closed := True, ss_accepting := False, ss_closeErr := reason,
            ss_done := True\<rparr>))\<lparr>ss_pending := []\<rparr>, broker_deactivate (ss_generation s) b))"
  by (simp add: session_close_def notify_all_def Let_def)

lemma session_close_quieter: "session_close A reason (s, b) = (s', b') \<Longrightarrow> quieter A s s'"
  using notify_all_effect [of "ss_pending s" "s\<lparr>ss_closed := True, ss_accepting := False, ss_closeErr := reason, ss_done := True\<rparr>"]
  by (auto simp: session_close_eq quieter_def split: if_splits)

lemma session_close_closed: "session_close A reason (s, b) = (s', b') \<Longrightarrow> ss_closed s'"
  using notify_all_effect [of "ss_pending s" "s\<lparr>ss_closed := True, ss_accepting := False, ss_closeErr := reason, ss_done := True\<rparr>"]
  by (auto simp: session_close_eq split: if_splits)

lemma session_fail_quieter: "session_fail A reason (s, b) = (s', b') \<Longrightarrow> quieter A s s' \<and> ss_closed s'"
  unfolding session_fail_def using session_close_quieter session_close_closed by blast

lemma run_fatal_quieter: "run_fatal A err f (s, b) = (s', b') \<Longrightarrow> quieter A s s'"
  by (auto simp: run_fatal_def dest: session_fail_quieter split: option.splits)

lemma fail_after_quieter:
  assumes "session_fail A e sb = (s', b')" "quieter A s (fst sb)"
  shows "quieter A s s' \<and> ss_closed s'"
  using assms session_fail_quieter [of e "fst sb" "snd sb" s' b'] quieter_trans by auto

lemma handle_open_quieter:
  assumes "handle_open A now h (s, b) = (go, s', b')"
  shows "quieter A s s' \<and> (\<not> go \<longrightarrow> ss_closed s')"
proof (cases "broker_open now (ss_generation s) h b")
  case (fields err f b1)
  show ?thesis
  proof (cases err)
    case None
    then show ?thesis using assms fields by (simp add: handle_open_def)
  next
    case (Some e)
    obtain s1 b2 where rf: "run_fatal A (Some e) f (s, b1) = (s1, b2)" by force
    then have "quieter A s s1" by (rule run_fatal_quieter)
    then show ?thesis
      using assms fields Some rf fail_after_quieter [of "ProtocolErr e" "(s1, b2)" s' b' s] by (simp add: handle_open_def)
  qed
qed

lemma handle_verified_quieter:
  assumes "handle_verified A now h payload (s, b) = (go, s', b')"
  shows "quieter A s s' \<and> (\<not> go \<longrightarrow> ss_closed s')"
proof (cases "extractIngressCorrelation A payload")
  case (Inl e)
  then show ?thesis using assms by (auto simp: handle_verified_def dest: session_fail_quieter)
next
  case c: (Inr c)
  show ?thesis
  proof (cases "map_of (ss_pending s) (h, c)")
    case None
    then show ?thesis using assms c by (simp add: handle_verified_def)
  next
    case (Some p)
    let ?s = "(stopPendingTimer p s)\<lparr>ss_pending := AList.delete (h, c) (ss_pending s)\<rparr>"
    have q: "quieter A s ?s" by (rule drop_quieter)
    obtain err f b1 where d: "broker_deliverIPCFrame A now (ss_generation s) h c payload b = (err, f, b1)"
      by (rule prod_cases3)
    obtain s1 b2 where rf: "run_fatal A err f (?s, b1) = (s1, b2)" by force
    then have q1: "quieter A s s1" using run_fatal_quieter quieter_trans [OF q] by blast
    show ?thesis
      using assms c Some d q q1 rf fail_after_quieter [of _ "(s1, b2)" s' b' s]
        fail_after_quieter [of _ "(?s, b)" s' b' s]
      by (cases err) (auto simp: handle_verified_def Let_def split: if_splits)
  qed
qed

lemma handle_ack_cases:
  assumes "handle_ack A now k status (s, b) = (go, s', b')"
  obtains (quieter) "quieter A s s'" "\<not> go \<longrightarrow> ss_closed s'"
  | (mark) p where "go" "b' = b" "map_of (ss_pending s) k = Some p" "\<not> pe_acknowledged p"
      "status = SubprocessACKPositive A" "now < pe_expiresAt p"
      "s' = s\<lparr>ss_pending := AList.update k (p\<lparr>pe_acknowledged := True\<rparr>) (ss_pending s),
         ss_waiters := notifyWaiter (pe_waiter p) (SubprocessACKPositive A) (ss_waiters s)\<rparr>"
proof (cases "map_of (ss_pending s) k")
  case None
  then show ?thesis using assms quieter by (simp add: handle_ack_def)
next
  case (Some p)
  have n: "quieter A s ((stopPendingTimer p s)\<lparr>ss_pending := AList.delete k (ss_pending s),
      ss_waiters := notifyWaiter (pe_waiter p) st (ss_waiters s)\<rparr>)" if "st \<noteq> SubprocessACKPositive A" for st
    using that by (auto simp: quieter_def dest: pos_notify)
  consider "\<not> now < pe_expiresAt p" | "now < pe_expiresAt p" "pe_acknowledged p"
    | "now < pe_expiresAt p" "\<not> pe_acknowledged p" "status \<noteq> SubprocessACKPositive A"
    | "now < pe_expiresAt p" "\<not> pe_acknowledged p" "status = SubprocessACKPositive A" by blast
  then show ?thesis
  proof cases
    case 1
    then show ?thesis using assms Some n by (intro quieter) (auto simp: handle_ack_def Let_def)
  next
    case 2
    then have "\<not> go" "\<exists>e. session_fail A (ProtocolErr e) (s, b) = (s', b')"
      using assms Some by (auto simp: handle_ack_def Let_def split: if_splits)
    then show ?thesis using session_fail_quieter quieter by blast
  next
    case 3
    then show ?thesis using assms Some n by (intro quieter) (auto simp: handle_ack_def Let_def)
  next
    case 4
    then show ?thesis using assms Some by (intro mark [of p]) (auto simp: handle_ack_def Let_def)
  qed
qed

text \<open>One iteration of the read loop: quiet, or it marks a pending assignment acknowledged.\<close>

lemma readLoop_step_cases:
  assumes "readLoop_step A now input sq (s, b) = Some (go, sq', s', b')"
  obtains (quieter) "quieter A s s'" "\<not> go \<longrightarrow> ss_closed s'"
  | (mark) p packet where "accepted A input sq s = [packet]" "ap_typ packet = SubprocessAssignmentACK A"
      "ap_status packet = SubprocessACKPositive A" "go" "b' = b"
      "map_of (ss_pending s) (ap_handle packet, ap_correlation packet) = Some p" "\<not> pe_acknowledged p"
      "s' = s\<lparr>ss_pending := AList.update (ap_handle packet, ap_correlation packet) (p\<lparr>pe_acknowledged := True\<rparr>) (ss_pending s),
         ss_waiters := notifyWaiter (pe_waiter p) (SubprocessACKPositive A) (ss_waiters s)\<rparr>"
proof (cases "accepted A input sq s")
  case Nil
  then have "\<not> go" "\<exists>e. session_fail A e (s, b) = (s', b')"
    using assms by (auto simp: readLoop_step_def accepted_def split: sum.splits option.splits read_error.splits)
  then show ?thesis using session_fail_quieter quieter by blast
next
  case (Cons packet rest)
  then obtain bytes where dec: "input = Inr bytes" "rest = []"
      "decodeAuthenticatedPacket A bytes (ss_key s) (ss_generation s) sq = Some (Inr packet)"
    by (auto simp: accepted_def split: sum.splits option.splits)
  then have hp: "handle_packet A now packet (s, b) = (go, s', b')"
    using assms by (auto simp: readLoop_step_def split: prod.splits)
  show ?thesis
  proof (cases "ap_typ packet = SubprocessAssignmentACK A \<and> ap_typ packet \<noteq> SubprocessConnectionOpen A")
    case True
    then have "handle_ack A now (ap_handle packet, ap_correlation packet) (ap_status packet) (s, b) = (go, s', b')"
      using hp unfolding handle_packet_def by (auto split: if_splits)
    then show ?thesis
      by (cases rule: handle_ack_cases) (use True Cons dec in \<open>auto intro: quieter mark\<close>)
  next
    case False
    then have "quieter A s s' \<and> (\<not> go \<longrightarrow> ss_closed s')"
      using hp unfolding handle_packet_def
      by (auto dest: handle_open_quieter handle_verified_quieter session_fail_quieter split: if_splits)
    then show ?thesis using quieter by blast
  qed
qed

end

interpretation v1s: session_status abi_v1
  by unfold_locales

end
