(* ===== verification/Session_Correct.thy ===== *)
theory Session_Correct
  imports Session_System Broker_Correct
begin

text \<open>
  The invariant of the session system and the properties of the session: numbered packets,
  acknowledgements, delivery only after an acknowledgement, failing closed, clearing the key.
\<close>

section \<open>Invariant\<close>

text \<open>A positive acknowledgement for the key was accepted.\<close>

definition acked :: "abi \<Rightarrow> authenticatedPacket list \<Rightarrow> subprocessPendingKey \<Rightarrow> bool" where
  "acked A log k \<longleftrightarrow> (\<exists>p \<in> set log. ap_typ p = SubprocessAssignmentACK A \<and>
     ap_status p = SubprocessACKPositive A \<and> (ap_handle p, ap_correlation p) = k)"

lemma acked_append: "acked A log k \<Longrightarrow> acked A (log @ l) k"
  by (auto simp: acked_def)

fun phase_waiter :: "call_phase \<Rightarrow> nat option" where
  "phase_waiter Entered = None"
| "phase_waiter (Registered w) = Some w"
| "phase_waiter (Written w) = Some w"
| "phase_waiter (Waiting w) = Some w"

definition ident_ok :: "u64 \<Rightarrow> bytes \<Rightarrow> 'e session_system \<Rightarrow> bool" where
  "ident_ok g key x \<longleftrightarrow> ss_generation (sx_session x) = g \<and>
     (ss_key (sx_session x) = key \<or> sx_calls x = [] \<and> \<not> ss_accepting (sx_session x) \<and> \<not> sx_reading x) \<and>
     ss_ops (sx_session x) = length (sx_calls x) \<and>
     (\<not> sx_reading x \<longrightarrow> ss_closed (sx_session x)) \<and>
     (ss_closed (sx_session x) \<longrightarrow> \<not> ss_accepting (sx_session x) \<and> ss_done (sx_session x))"

text \<open>The packets handed to the connection are assignment packets numbered from 1.\<close>

definition sent_ok :: "abi \<Rightarrow> u64 \<Rightarrow> bytes \<Rightarrow> 'e session_system \<Rightarrow> bool" where
  "sent_ok A g key x \<longleftrightarrow>
     ss_writeSequence (sx_session x) = of_nat (length (ss_sent (sx_session x))) \<and>
     (\<forall>i < length (ss_sent (sx_session x)). \<exists>a :: ConnectionAssignment. encodeAssignmentPacket A key g (of_nat (Suc i)) (ca_handle a)
        (ca_correlation a) (unix_milli (ca_expiresAt a)) = Some (ss_sent (sx_session x) ! i))"

text \<open>Waiters belong to the key they were made for; a positive status was acknowledged.\<close>

definition waiters_ok :: "abi \<Rightarrow> 'e session_system \<Rightarrow> bool" where
  "waiters_ok A x \<longleftrightarrow>
     (\<forall>k p. map_of (ss_pending (sx_session x)) k = Some p \<longrightarrow> map_of (sx_owner x) (pe_waiter p) = Some k) \<and>
     (\<forall>k p. map_of (ss_pending (sx_session x)) k = Some p \<and> pe_acknowledged p \<longrightarrow> acked A (sx_log x) k) \<and>
     (\<forall>a ph w. (a, ph) \<in> set (sx_calls x) \<and> phase_waiter ph = Some w \<longrightarrow> map_of (sx_owner x) w = Some (pendingKey a)) \<and>
     (\<forall>w. pos A (ss_waiters (sx_session x)) w \<longrightarrow> (\<exists>k. map_of (sx_owner x) w = Some k \<and> acked A (sx_log x) k)) \<and>
     (\<forall>w k. map_of (sx_owner x) w = Some k \<longrightarrow> w < ss_next (sx_session x))"

lemma waiters_okD:
  assumes "waiters_ok A x"
  shows "\<And>k p. map_of (ss_pending (sx_session x)) k = Some p \<Longrightarrow> map_of (sx_owner x) (pe_waiter p) = Some k"
    "\<And>k p. map_of (ss_pending (sx_session x)) k = Some p \<Longrightarrow> pe_acknowledged p \<Longrightarrow> acked A (sx_log x) k"
    "\<And>a ph w. (a, ph) \<in> set (sx_calls x) \<Longrightarrow> phase_waiter ph = Some w \<Longrightarrow> map_of (sx_owner x) w = Some (pendingKey a)"
    "\<And>w. pos A (ss_waiters (sx_session x)) w \<Longrightarrow> \<exists>k. map_of (sx_owner x) w = Some k \<and> acked A (sx_log x) k"
    "\<And>w k. map_of (sx_owner x) w = Some k \<Longrightarrow> w < ss_next (sx_session x)"
  using assms unfolding waiters_ok_def by blast+

lemma waiters_okI:
  assumes "\<And>k p. map_of (ss_pending (sx_session x)) k = Some p \<Longrightarrow> map_of (sx_owner x) (pe_waiter p) = Some k"
    "\<And>k p. map_of (ss_pending (sx_session x)) k = Some p \<Longrightarrow> pe_acknowledged p \<Longrightarrow> acked A (sx_log x) k"
    "\<And>a ph w. (a, ph) \<in> set (sx_calls x) \<Longrightarrow> phase_waiter ph = Some w \<Longrightarrow> map_of (sx_owner x) w = Some (pendingKey a)"
    "\<And>w. pos A (ss_waiters (sx_session x)) w \<Longrightarrow> \<exists>k. map_of (sx_owner x) w = Some k \<and> acked A (sx_log x) k"
    "\<And>w k. map_of (sx_owner x) w = Some k \<Longrightarrow> w < ss_next (sx_session x)"
  shows "waiters_ok A x"
  using assms unfolding waiters_ok_def by blast

definition sess_inv :: "abi \<Rightarrow> u64 \<Rightarrow> bytes \<Rightarrow> 'e session_system \<Rightarrow> bool" where
  "sess_inv A g key x \<longleftrightarrow> ident_ok g key x \<and> sent_ok A g key x \<and> waiters_ok A x"

lemma sess_invD:
  assumes "sess_inv A g key x"
  shows "ident_ok g key x" "sent_ok A g key x" "waiters_ok A x"
  using assms by (simp_all add: sess_inv_def)

lemma sess_invI: "ident_ok g key x \<Longrightarrow> sent_ok A g key x \<Longrightarrow> waiters_ok A x \<Longrightarrow> sess_inv A g key x"
  by (simp add: sess_inv_def)

lemma sess_inv_init: "sxinit g key x \<Longrightarrow> sess_inv A g key x"
  by (auto simp: sxinit_def sess_inv_def ident_ok_def sent_ok_def waiters_ok_def newSubprocessIngressSession_def pos_def)

lemma sess_inv_quieter:
  assumes inv: "sess_inv A g key x" and q: "quieter A (sx_session x) s" and r: "r = sx_reading x \<or> \<not> r \<and> ss_closed s"
  shows "sess_inv A g key (x\<lparr>sx_session := s, sx_broker := b, sx_sequence := sq, sx_reading := r, sx_log := sx_log x @ l\<rparr>)"
    (is "sess_inv A g key ?y")
proof (rule sess_invI)
  note i = sess_invD [OF inv] and w = waiters_okD [OF sess_invD(3) [OF inv]]
  have le: "map_of (ss_pending s) k = Some p \<Longrightarrow> map_of (ss_pending (sx_session x)) k = Some p" for k p
    using q by (force simp: quieter_def map_le_def)
  have ps: "pos A (ss_waiters s) v \<Longrightarrow> pos A (ss_waiters (sx_session x)) v" for v
    using q by (simp add: quieter_def)
  have nx: "ss_next s = ss_next (sx_session x)" using q by (simp add: quieter_def)
  show "ident_ok g key ?y" using i(1) q r unfolding ident_ok_def quieter_def by auto
  show "sent_ok A g key ?y" using i(2) q by (simp add: sent_ok_def quieter_def)
  show "waiters_ok A ?y"
  proof (rule waiters_okI)
    fix v
    assume "pos A (ss_waiters (sx_session ?y)) v"
    then show "\<exists>k. map_of (sx_owner ?y) v = Some k \<and> acked A (sx_log ?y) k"
      using w(4) [OF ps] acked_append by fastforce
  qed (use w(1-3,5) le nx acked_append in \<open>fastforce+\<close>)
qed

lemma sess_inv_step:
  assumes "sess_inv A g key x" "quieter A (sx_session x) s"
  shows "sess_inv A g key (x\<lparr>sx_session := s, sx_broker := b\<rparr>)"
proof -
  have "x\<lparr>sx_session := s, sx_broker := b, sx_sequence := sx_sequence x, sx_reading := sx_reading x, sx_log := sx_log x @ []\<rparr>
      = x\<lparr>sx_session := s, sx_broker := b\<rparr>" by simp
  then show ?thesis using sess_inv_quieter [OF assms, where r = "sx_reading x" and l = "[]" and sq = "sx_sequence x" and b = b] by simp
qed

lemma sess_inv_return:
  assumes inv: "sess_inv A g key x" and c: "c \<in> set (sx_calls x)"
  shows "sess_inv A g key (x\<lparr>sx_session := assign_return (sx_session x), sx_calls := remove1 c (sx_calls x)\<rparr>)"
proof (rule sess_invI)
  let ?y = "x\<lparr>sx_session := assign_return (sx_session x), sx_calls := remove1 c (sx_calls x)\<rparr>"
  note i = sess_invD [OF inv] and w = waiters_okD [OF sess_invD(3) [OF inv]]
  have ne: "sx_calls x \<noteq> []" using c by auto
  then show "ident_ok g key ?y" using i(1) c by (auto simp: ident_ok_def assign_return_def length_remove1)
  show "sent_ok A g key ?y" using i(2) by (simp add: sent_ok_def assign_return_def)
  show "waiters_ok A ?y"
    by (rule waiters_okI) (use w in \<open>auto simp: assign_return_def dest: notin_set_remove1 subsetD [OF set_remove1_subset]\<close>)
qed

lemma sess_inv_phase:
  assumes inv: "sess_inv A g key x" and c: "(a, ph) \<in> set (sx_calls x)" and w: "phase_waiter ph' = phase_waiter ph"
  shows "sess_inv A g key (x\<lparr>sx_calls := (a, ph') # remove1 (a, ph) (sx_calls x)\<rparr>)"
proof (rule sess_invI)
  let ?y = "x\<lparr>sx_calls := (a, ph') # remove1 (a, ph) (sx_calls x)\<rparr>"
  note i = sess_invD [OF inv] and k = waiters_okD [OF sess_invD(3) [OF inv]]
  have "sx_calls x \<noteq> []" "0 < length (sx_calls x)" using c by auto
  then show "ident_ok g key ?y" using i(1) c by (auto simp: ident_ok_def length_remove1)
  show "sent_ok A g key ?y" using i(2) by (simp add: sent_ok_def)
  show "waiters_ok A ?y"
    by (rule waiters_okI) (use k c w in \<open>auto dest: subsetD [OF set_remove1_subset]\<close>)
qed

lemma sess_inv_enter:
  assumes inv: "sess_inv A g key x" and en: "assign_enter (sx_session x) = (Inr (), s)"
  shows "sess_inv A g key (x\<lparr>sx_session := s, sx_calls := (a, Entered) # sx_calls x\<rparr>)"
  using sess_invD [OF inv] en
  by (auto simp: sess_inv_def ident_ok_def sent_ok_def waiters_ok_def assign_enter_def split: if_splits)

lemma sess_inv_register:
  assumes inv: "sess_inv A g key x" and c: "(a, Entered) \<in> set (sx_calls x)"
    and rg: "assign_register A now a (sx_session x) = (Inr w, s)"
  shows "sess_inv A g key (x\<lparr>sx_session := s, sx_calls := (a, Registered w) # remove1 (a, Entered) (sx_calls x),
      sx_owner := (w, pendingKey a) # sx_owner x\<rparr>)"
proof (rule sess_invI)
  let ?y = "x\<lparr>sx_session := s, sx_calls := (a, Registered w) # remove1 (a, Entered) (sx_calls x),
      sx_owner := (w, pendingKey a) # sx_owner x\<rparr>" and ?s = "sx_session x"
  let ?p = "\<lparr>pe_waiter = w, pe_expiresAt = ca_expiresAt a, pe_acknowledged = False, pe_timer = Some w\<rparr>"
  note i = sess_invD [OF inv] and k = waiters_okD [OF sess_invD(3) [OF inv]]
  have w: "w = ss_next ?s" and s: "s = ?s\<lparr>ss_next := Suc w, ss_waiters := AList.update w (make_chan 1) (ss_waiters ?s),
      ss_timers := AList.update w (pendingKey a, ca_expiresAt a) (ss_timers ?s),
      ss_pending := AList.update (pendingKey a) ?p (ss_pending ?s)\<rparr>"
    using rg by (auto simp: assign_register_def Let_def split: if_splits)
  have fresh: "map_of (sx_owner x) v = Some l \<Longrightarrow> v \<noteq> w \<and> v < Suc w" for v l using k(5) [of v l] w by auto
  have "sx_calls x \<noteq> []" "0 < length (sx_calls x)" using c by auto
  then show "ident_ok g key ?y" using i(1) c by (auto simp: ident_ok_def s length_remove1)
  show "sent_ok A g key ?y" using i(2) by (simp add: sent_ok_def s)
  have ps: "pos A (ss_waiters s) v \<Longrightarrow> pos A (ss_waiters ?s) v" for v
    by (auto simp: pos_def s make_chan_def split: if_splits)
  show "waiters_ok A ?y"
  proof (rule waiters_okI)
    fix l p
    assume "map_of (ss_pending (sx_session ?y)) l = Some p"
    then show "map_of (sx_owner ?y) (pe_waiter p) = Some l"
      using k(1) [of l p] fresh [of "pe_waiter p" l] by (cases "l = pendingKey a") (auto simp: s)
  next
    fix a' ph v
    assume "(a', ph) \<in> set (sx_calls ?y)" "phase_waiter ph = Some v"
    then show "map_of (sx_owner ?y) v = Some (pendingKey a')"
      using k(3) [of a' ph v] fresh [of v "pendingKey a'"] by (auto dest: subsetD [OF set_remove1_subset])
  next
    fix v
    assume "pos A (ss_waiters (sx_session ?y)) v"
    then have "pos A (ss_waiters s) v" by simp
    from k(4) [OF ps [OF this]] obtain l where "map_of (sx_owner x) v = Some l" "acked A (sx_log x) l" by blast
    then show "\<exists>l. map_of (sx_owner ?y) v = Some l \<and> acked A (sx_log ?y) l" using fresh by auto
  qed (use k(2) fresh in \<open>auto simp: s split: if_splits\<close>)
qed

lemma sess_inv_sent:
  fixes a :: ConnectionAssignment
  assumes inv: "sess_inv A g key x" and c: "sx_calls x \<noteq> []"
    and en: "encodeAssignmentPacket A (ss_key (sx_session x)) (ss_generation (sx_session x))
      (ss_writeSequence (sx_session x) + 1) (ca_handle a) (ca_correlation a) (unix_milli (ca_expiresAt a)) = Some packet"
  shows "sess_inv A g key (x\<lparr>sx_session := (sx_session x)\<lparr>ss_writeSequence := ss_writeSequence (sx_session x) + 1,
      ss_sent := ss_sent (sx_session x) @ [packet]\<rparr>\<rparr>)" (is "sess_inv A g key ?y")
proof (rule sess_invI)
  note i = sess_invD [OF inv]
  let ?n = "length (ss_sent (sx_session x))"
  have e: "encodeAssignmentPacket A key g (of_nat (Suc ?n)) (ca_handle a) (ca_correlation a)
      (unix_milli (ca_expiresAt a)) = Some packet"
    using en i(1,2) c by (simp add: ident_ok_def sent_ok_def add.commute)
  show "ident_ok g key ?y" using i(1) by (simp add: ident_ok_def)
  show "waiters_ok A ?y" using i(3) by (simp add: waiters_ok_def)
  have "\<exists>a :: ConnectionAssignment. encodeAssignmentPacket A key g (of_nat (Suc m)) (ca_handle a) (ca_correlation a)
      (unix_milli (ca_expiresAt a)) = Some ((ss_sent (sx_session x) @ [packet]) ! m)" if "m < Suc ?n" for m
  proof (cases "m = ?n")
    case True
    then show ?thesis using e by (intro exI [of _ a]) simp
  next
    case False
    then have "m < ?n" using that by simp
    then show ?thesis using i(2) by (simp add: sent_ok_def nth_append del: of_nat_Suc)
  qed
  then show "sent_ok A g key ?y" using i(2) by (simp add: sent_ok_def del: of_nat_Suc) simp
qed

context session_status
begin

lemma assign_write_inv:
  fixes a :: ConnectionAssignment
  assumes inv: "sess_inv A g key x" and c: "sx_calls x \<noteq> []"
    and wr: "assign_write A now result a (sx_session x, sx_broker x) = Some (r, s, b)"
  shows "sess_inv A g key (x\<lparr>sx_session := s, sx_broker := b\<rparr>)"
proof (cases "remaining_ok A now a")
  case False
  then show ?thesis using wr sess_inv_step [OF inv removePending_quieter, of b "pendingKey a"]
    by (auto simp: assign_write_def)
next
  case True
  let ?s = "(sx_session x)\<lparr>ss_writeSequence := ss_writeSequence (sx_session x) + 1\<rparr>"
  obtain packet where en: "encodeAssignmentPacket A (ss_key ?s) (ss_generation ?s) (ss_writeSequence ?s)
      (ca_handle a) (ca_correlation a) (unix_milli (ca_expiresAt a)) = Some packet"
    using wr True by (auto simp: assign_write_def Let_def split: option.splits)
  let ?t = "?s\<lparr>ss_sent := ss_sent ?s @ [packet]\<rparr>"
  have inv': "sess_inv A g key (x\<lparr>sx_session := ?t\<rparr>)"
    using sess_inv_sent [OF inv c, of a packet] en by simp
  have "quieter A ?t s"
  proof (cases "writeFullPacket result packet")
    case None
    then show ?thesis using wr True en by (auto simp: assign_write_def Let_def)
  next
    case (Some e)
    obtain s1 b1 where f: "session_fail A e (?t, sx_broker x) = (s1, b1)" by force
    then have "s = removePending (pendingKey a) s1"
      using wr True en Some by (auto simp: assign_write_def Let_def)
    then show ?thesis using session_fail_quieter [OF f] removePending_quieter quieter_trans by blast
  qed
  then show ?thesis using sess_inv_step [OF inv', of s b] by simp
qed

lemma assign_finish_quieter:
  assumes "assign_finish A now wake a w s = Some (rc, s')"
  shows "quieter A s s'"
proof -
  have rcv: "quieter A s (s\<lparr>ss_waiters := AList.update w c' (ss_waiters s)\<rparr>)"
    if "map_of (ss_waiters s) w = Some c" "try_recv c = Some (st, c')" for c c' st
    using that ch.recv_Some [OF that(2)] by (auto simp: quieter_def pos_def split: if_splits)
  show ?thesis
  proof (cases wake)
    case WakeStatus
    then obtain c st c' where c: "map_of (ss_waiters s) w = Some c" "try_recv c = Some (st, c')"
      using assms by (auto simp: assign_finish_def split: option.splits)
    then have "s' \<in> {s\<lparr>ss_waiters := AList.update w c' (ss_waiters s)\<rparr>,
        removePending (pendingKey a) (s\<lparr>ss_waiters := AList.update w c' (ss_waiters s)\<rparr>)}"
      using assms WakeStatus by (auto simp: assign_finish_def Let_def split: if_splits)
    then show ?thesis using rcv [OF c] removePending_quieter quieter_trans by blast
  qed (use assms in \<open>auto simp: assign_finish_def removePending_quieter split: if_splits\<close>)
qed

lemma sess_inv_mark:
  assumes inv: "sess_inv A g key x" and k: "map_of (ss_pending (sx_session x)) k = Some p"
    and a: "acked A (sx_log x @ l) k" and r: "r = sx_reading x"
  shows "sess_inv A g key (x\<lparr>sx_session := (sx_session x)\<lparr>
      ss_pending := AList.update k (p\<lparr>pe_acknowledged := True\<rparr>) (ss_pending (sx_session x)),
      ss_waiters := notifyWaiter (pe_waiter p) (SubprocessACKPositive A) (ss_waiters (sx_session x))\<rparr>,
      sx_broker := b, sx_sequence := sq, sx_reading := r, sx_log := sx_log x @ l\<rparr>)" (is "sess_inv A g key ?y")
proof (rule sess_invI)
  note i = sess_invD [OF inv] and w = waiters_okD [OF sess_invD(3) [OF inv]]
  show "ident_ok g key ?y" using i(1) r by (simp add: ident_ok_def)
  show "sent_ok A g key ?y" using i(2) by (simp add: sent_ok_def)
  show "waiters_ok A ?y"
  proof (rule waiters_okI)
    fix v
    assume "pos A (ss_waiters (sx_session ?y)) v"
    then consider "pos A (ss_waiters (sx_session x)) v" | "v = pe_waiter p" by (auto dest: pos_notify)
    then show "\<exists>k. map_of (sx_owner ?y) v = Some k \<and> acked A (sx_log ?y) k"
      using w(4) [of v] w(1) [OF k] a by cases (auto intro: acked_append)
  qed (use w(1-3,5) k a acked_append in \<open>fastforce split: if_splits\<close>)+
qed

lemma sxstep_inv:
  assumes "sxstep A x e y" "sess_inv A g key x"
  shows "sess_inv A g key y"
  using assms(1)
proof cases
  case (sx_enter s a)
  then show ?thesis using sess_inv_enter [OF assms(2)] by simp
next
  case (sx_refuse rc s a)
  then show ?thesis using assms(2) by (auto simp: assign_enter_def split: if_splits)
next
  case (sx_register a now w s)
  then show ?thesis using sess_inv_register [OF assms(2)] by simp
next
  case (sx_register_error a now rc s)
  then have "s = sx_session x" by (auto simp: assign_register_def Let_def split: if_splits)
  then show ?thesis using sx_register_error sess_inv_return [OF assms(2)] by simp
next
  case (sx_write a w now result s b)
  have "sess_inv A g key (x\<lparr>sx_session := s, sx_broker := b\<rparr>)"
    using assign_write_inv [OF assms(2) _ sx_write(4)] sx_write(3) by force
  from sess_inv_phase [OF this, of a "Registered w" "Written w"] show ?thesis using sx_write by simp
next
  case (sx_write_error a w now result rc s b)
  have "sess_inv A g key (x\<lparr>sx_session := s, sx_broker := b\<rparr>)"
    using assign_write_inv [OF assms(2) _ sx_write_error(4)] sx_write_error(3) by force
  then have "sess_inv A g key (x\<lparr>sx_session := s, sx_broker := b, sx_session := assign_return s,
      sx_calls := remove1 (a, Registered w) (sx_calls x)\<rparr>)"
    using sess_inv_return [of A g key "x\<lparr>sx_session := s, sx_broker := b\<rparr>" "(a, Registered w)"] sx_write_error(3)
    by simp
  moreover have "y = x\<lparr>sx_session := s, sx_broker := b, sx_session := assign_return s,
      sx_calls := remove1 (a, Registered w) (sx_calls x)\<rparr>" using sx_write_error(2) by simp
  ultimately show ?thesis by (simp only:)
next
  case (sx_written a w now s)
  have "s = sx_session x" using sx_written(4) by (auto simp: assign_written_def split: if_splits)
  then show ?thesis using sx_written sess_inv_phase [OF assms(2), of a "Written w" "Waiting w"] by simp
next
  case (sx_written_error a w now rc s)
  then have "s = removePending (pendingKey a) (sx_session x)" by (auto simp: assign_written_def split: if_splits)
  then have "sess_inv A g key (x\<lparr>sx_session := s\<rparr>)"
    using sess_inv_step [OF assms(2) removePending_quieter, where b = "sx_broker x"] by simp
  from sess_inv_return [OF this, of "(a, Written w)"] show ?thesis using sx_written_error by simp
next
  case (sx_finish a w now wake rc s)
  have "sess_inv A g key (x\<lparr>sx_session := s\<rparr>)"
    using sess_inv_step [OF assms(2) assign_finish_quieter [OF sx_finish(4)], where b = "sx_broker x"] by simp
  from sess_inv_return [OF this, of "(a, Waiting w)"] show ?thesis using sx_finish by simp
next
  case (sx_read now input go sq s b)
  from sx_read(4) show ?thesis
  proof (cases rule: readLoop_step_cases)
    case quieter
    then show ?thesis unfolding sx_read(2) using sx_read(3) by (intro sess_inv_quieter [OF assms(2)]) auto
  next
    case (mark p packet)
    have "acked A (sx_log x @ [packet]) (ap_handle packet, ap_correlation packet)"
      using mark(2,3) by (auto simp: acked_def)
    then show ?thesis
      unfolding sx_read(2) mark(1,8) using mark(4) sx_read(3) by (intro sess_inv_mark [OF assms(2) mark(6)]) simp_all
  qed
next
  case (sx_timer i k)
  then show ?thesis
    using sess_inv_step [OF assms(2), of "(sx_session x)\<lparr>ss_timers := AList.delete i (ss_timers (sx_session x))\<rparr>" "sx_broker x"]
    by (simp add: quieter_def sess_inv_def ident_ok_def sent_ok_def waiters_ok_def)
next
  case (sx_expire k t)
  then show ?thesis
    using sess_inv_step [OF assms(2) expirePending_quieter, of "sx_broker x" k t]
    by (simp add: sess_inv_def ident_ok_def sent_ok_def waiters_ok_def)
next
  case (sx_close reason s b)
  then show ?thesis using sess_inv_step [OF assms(2) session_close_quieter] by simp
next
  case (sx_wait s)
  then show ?thesis using assms(2)
    by (auto simp: session_wait_def sess_inv_def ident_ok_def sent_ok_def waiters_ok_def split: if_splits)
next
  case (sx_broker b)
  then show ?thesis using sess_inv_step [OF assms(2) quieter_refl, of b] by simp
qed

end

sublocale session_status \<subseteq> sx: invariant_system "sxinit g key" "sxstep A" "sess_inv A g key" for g key
  by unfold_locales (auto intro: sess_inv_init sxstep_inv)

context session_status
begin

lemma sxstep_run: "sxinit g key x \<Longrightarrow> run (sxstep A) x es y \<Longrightarrow> sess_inv A g key y"
  using sx.run_inv sess_inv_init by blast

end

lemma session_run_inv:
  assumes "abi_ok A" "sxinit g key x" "run (sxstep A) x es y"
  shows "sess_inv A g key y"
proof -
  have "session_status A" using assms(1) by (simp add: session_status_def abi_layout_def)
  then show ?thesis by (rule session_status.sxstep_run [OF _ assms(2,3)])
qed

section \<open>Properties\<close>


definition demo_key :: bytes where "demo_key = replicate 32 7"

definition demo_session :: "unit session_system" where
  "demo_session = \<lparr>sx_session = newSubprocessIngressSession 7 demo_key, sx_broker = newIngressBroker 1,
     sx_sequence = 1, sx_reading = True, sx_calls = [], sx_firing = [], sx_log = [], sx_owner = []\<rparr>"

lemma demo_session_init: "sxinit 7 demo_key demo_session"
  by (simp add: sxinit_def demo_session_def)

text \<open>A session that has written one packet, as the two parts of \<open>assign\<close> leave it.\<close>

lemma demo_session_write:
  "\<exists>y. run (sxstep abi_v1) demo_session [XEnter demo_assignment, XRegister 0 demo_assignment, XWrite 0 demo_assignment] y \<and>
     length (ss_sent (sx_session y)) = 1"
proof -
  let ?s1 = "(newSubprocessIngressSession 7 demo_key)\<lparr>ss_ops := 1\<rparr> :: unit subprocessIngressSession"
  let ?x1 = "demo_session\<lparr>sx_session := ?s1, sx_calls := [(demo_assignment, Entered)]\<rparr>"
  have 1: "sxstep abi_v1 demo_session (XEnter demo_assignment) ?x1"
    using sx_enter [of demo_session ?s1 abi_v1 demo_assignment]
    by (simp add: assign_enter_def demo_session_def newSubprocessIngressSession_def)
  obtain s2 where s2: "assign_register abi_v1 0 demo_assignment ?s1 = (Inr 0, s2)"
    and f2: "ss_sent s2 = []" "ss_key s2 = demo_key" "ss_generation s2 = 7" "ss_writeSequence s2 = 0"
    by (simp add: assign_register_def newSubprocessIngressSession_def demo_assignment_def remaining_ok_def time_sub_def Let_def)
  let ?x2 = "?x1\<lparr>sx_session := s2, sx_calls := [(demo_assignment, Registered 0)], sx_owner := [(0, pendingKey demo_assignment)]\<rparr>"
  have 2: "sxstep abi_v1 ?x1 (XRegister 0 demo_assignment) ?x2"
    using sx_register [of demo_assignment ?x1 abi_v1 0 0 s2] s2 by (simp add: demo_session_def)
  obtain p where p: "encodeAssignmentPacket abi_v1 demo_key 7 1 9 (replicate 16 1) 1000 = Some p"
    using assignment_packet_shape [OF abi_v1_ok, of "replicate 16 1" demo_key 7 1 9 1000] by auto
  let ?s3 = "s2\<lparr>ss_writeSequence := 1, ss_sent := [p]\<rparr>"
  have w: "assign_write abi_v1 0 (length p, None) demo_assignment (s2, sx_broker ?x2) = Some (Inr (), ?s3, sx_broker ?x2)"
    using p f2 by (simp add: assign_write_def remaining_ok_def time_sub_def demo_assignment_def writeFullPacket_def
        unix_milli_def Let_def)
  have 3: "sxstep abi_v1 ?x2 (XWrite 0 demo_assignment)
      (?x2\<lparr>sx_session := ?s3, sx_broker := sx_broker ?x2, sx_calls := [(demo_assignment, Written 0)]\<rparr>)"
    using sx_write [of demo_assignment 0 ?x2 abi_v1 0 "(length p, None)" ?s3 "sx_broker ?x2"] w by simp
  note step = run_cons [where step = "sxstep abi_v1"]
  from step [OF 1 step [OF 2 step [OF 3 run_nil]]] show ?thesis by auto
qed


end
