(* ===== verification/Session_Props.thy ===== *)
theory Session_Props
  imports Session_Correct
begin

text \<open>
  What the session guarantees to its two ends: the broker, which it calls with verified
  frames, and the caller of \<open>assign\<close>.
\<close>

section \<open>Packets are accepted in order\<close>

lemma packetFields_ids:
  "packetFields A p ty off d0 = Some (Inr d) \<Longrightarrow> ap_generation d = ap_generation d0 \<and>
    ap_sequence d = ap_sequence d0 \<and> ap_handle d = ap_handle d0 \<and> ap_typ d = ap_typ d0"
  by (auto simp: packetFields_def bind_eq_Some_conv split: if_splits)

lemma decode_ids:
  assumes "decodeAuthenticatedPacket A p key g s = Some (Inr d)"
  shows "ap_generation d = g" "ap_sequence d = s" "ap_handle d \<noteq> 0"
proof -
  from assms obtain ty res where
      rest: "(case res of Inl e \<Rightarrow> Some (Inl e) | Inr off \<Rightarrow> decodeBody A p key g s ty off) = Some (Inr d)"
    by (auto simp: decodeAuthenticatedPacket_def bind_eq_Some_conv split: if_splits)
  then obtain off where "decodeBody A p key g s ty off = Some (Inr d)" by (cases res) auto
  then obtain h where "packetFields A p ty off
      \<lparr>ap_typ = ty, ap_generation = g, ap_sequence = s, ap_handle = h, ap_correlation = zero_correlation A,
       ap_expiresUnixMS = 0, ap_status = 0, ap_payload = []\<rparr> = Some (Inr d)" "h \<noteq> 0"
    by (auto simp: decodeBody_def bind_eq_Some_conv split: if_splits)
  then show "ap_generation d = g" "ap_sequence d = s" "ap_handle d \<noteq> 0"
    by (auto dest: packetFields_ids)
qed

definition log_ok :: "u64 \<Rightarrow> 'e session_system \<Rightarrow> bool" where
  "log_ok g x \<longleftrightarrow> sx_sequence x = of_nat (Suc (length (sx_log x))) \<and>
     (\<forall>i < length (sx_log x). ap_sequence (sx_log x ! i) = of_nat (Suc i) \<and>
        ap_generation (sx_log x ! i) = g \<and> ap_handle (sx_log x ! i) \<noteq> 0)"

lemma readLoop_step_sequence:
  assumes "readLoop_step A now input sq (s, b) = Some (go, sq', s', b')"
  shows "sq' = sq + of_nat (length (accepted A input sq s)) \<and> length (accepted A input sq s) \<le> 1"
  using assms
  by (auto simp: readLoop_step_def accepted_def split: sum.splits option.splits prod.splits read_error.splits)

lemma accepted_ids: "p \<in> set (accepted A input sq s) \<Longrightarrow>
    ap_sequence p = sq \<and> ap_generation p = ss_generation s \<and> ap_handle p \<noteq> 0"
  by (auto simp: accepted_def decode_ids split: sum.splits option.splits)

lemma log_ok_step:
  assumes "sxstep A x e y" "log_ok g x" "ss_generation (sx_session x) = g"
  shows "log_ok g y"
  using assms(1)
proof cases
  case (sx_read now input go sq s b)
  let ?l = "accepted A input (sx_sequence x) (sx_session x)"
  have sq: "sq = sx_sequence x + of_nat (length ?l)" "length ?l \<le> 1"
    using readLoop_step_sequence [OF sx_read(4)] by auto
  have "ap_sequence ((sx_log x @ ?l) ! i) = of_nat (Suc i) \<and> ap_generation ((sx_log x @ ?l) ! i) = g \<and>
      ap_handle ((sx_log x @ ?l) ! i) \<noteq> 0" if "i < length (sx_log x @ ?l)" for i
  proof (cases "i < length (sx_log x)")
    case True
    then show ?thesis using assms(2) by (simp add: log_ok_def nth_append del: of_nat_Suc)
  next
    case False
    then have "i = length (sx_log x)" "?l ! 0 \<in> set ?l" using that sq(2) by (auto intro: nth_mem)
    then show ?thesis using accepted_ids [of "?l ! 0" A input "sx_sequence x" "sx_session x"] assms(2,3) by (simp add: log_ok_def nth_append del: of_nat_Suc)
  qed
  then show ?thesis using sq assms(2) unfolding sx_read(2)
    by (simp add: log_ok_def del: of_nat_Suc) (simp add: algebra_simps)
qed (use assms(2) in \<open>simp_all add: log_ok_def\<close>)

text \<open>
  C5: The read loop accepts the child's packets in order, once each. In every run, the \<open>i\<close>-th
  accepted packet carries the sequence number \<open>i + 1\<close>, the session's generation and a nonzero
  handle: a replayed, reordered or foreign packet never gets into the log of accepted packets.
\<close>

theorem session_accepts_in_order:
  assumes "abi_ok A" "sxinit g key x" "run (sxstep A) x es y" "i < length (sx_log y)"
  shows "ap_sequence (sx_log y ! i) = of_nat (Suc i) \<and> ap_generation (sx_log y ! i) = g \<and> ap_handle (sx_log y ! i) \<noteq> 0"
proof -
  have "log_ok g y" using assms(3,2)
  proof (induction rule: run.induct)
    case (run_nil s)
    then show ?case by (simp add: log_ok_def sxinit_def)
  next
    case (run_snoc s es t e u)
    have "sess_inv A g key t" by (rule session_run_inv [OF assms(1) run_snoc(4,1)])
    then show ?case using log_ok_step [OF run_snoc(2)] run_snoc by (simp add: sess_inv_def ident_ok_def)
  qed
  then show ?thesis using assms(4) unfolding log_ok_def by blast
qed

section \<open>A run with an acknowledgement\<close>

text \<open>
  A concrete run: one call registers and writes its packet, the child's positive
  acknowledgement arrives with sequence number 1, and the call is about to return.
\<close>

definition demo_pending :: "unit subprocessIngressSession" where
  "demo_pending = (newSubprocessIngressSession 7 demo_key)\<lparr>ss_ops := 1, ss_next := 1,
     ss_waiters := [(0, make_chan 1)], ss_timers := [(0, (9, replicate 16 1), second)],
     ss_pending := [((9, replicate 16 1), \<lparr>pe_waiter = 0, pe_expiresAt = second, pe_acknowledged = False, pe_timer = Some 0\<rparr>)],
     ss_writeSequence := 1\<rparr>"

definition demo_acked :: "unit subprocessIngressSession" where
  "demo_acked = demo_pending\<lparr>
     ss_waiters := [(0, \<lparr>chan_cap = 1, chan_buf = [0]\<rparr>)],
     ss_pending := [((9, replicate 16 1), \<lparr>pe_waiter = 0, pe_expiresAt = second, pe_acknowledged = True, pe_timer = Some 0\<rparr>)]\<rparr>"

definition demo_ack :: authenticatedPacket where
  "demo_ack = \<lparr>ap_typ = 2, ap_generation = 7, ap_sequence = 1, ap_handle = 9, ap_correlation = replicate 16 1,
     ap_expiresUnixMS = 0, ap_status = 0, ap_payload = []\<rparr>"

lemma demo_register: "assign_register abi_v1 0 demo_assignment ((newSubprocessIngressSession 7 demo_key)\<lparr>ss_ops := 1\<rparr>) =
    (Inr 0, demo_pending\<lparr>ss_writeSequence := 0\<rparr>)"
  by (simp add: assign_register_def newSubprocessIngressSession_def demo_assignment_def remaining_ok_def time_sub_def
      demo_pending_def pendingKey_def Let_def)

lemma demo_write:
  assumes "encodeAssignmentPacket abi_v1 demo_key 7 1 9 (replicate 16 1) 1000 = Some p"
  shows "assign_write abi_v1 0 (length p, None) demo_assignment (demo_pending\<lparr>ss_writeSequence := 0\<rparr>, b) =
    Some (Inr (), demo_pending\<lparr>ss_sent := [p]\<rparr>, b)"
  using assms by (simp add: assign_write_def remaining_ok_def time_sub_def demo_assignment_def writeFullPacket_def
      unix_milli_def demo_pending_def newSubprocessIngressSession_def Let_def)

lemma demo_read:
  assumes "encodeACKPacket abi_v1 demo_key 7 1 9 (replicate 16 1) 0 = Some q"
  shows "readLoop_step abi_v1 0 (Inr q) 1 (demo_pending\<lparr>ss_sent := l\<rparr>, b) = Some (True, 2, demo_acked\<lparr>ss_sent := l\<rparr>, b)"
    and "accepted abi_v1 (Inr q) 1 (demo_pending\<lparr>ss_sent := l\<rparr>) = [demo_ack]"
proof -
  have "decodeAuthenticatedPacket abi_v1 q demo_key 7 1 = Some (Inr demo_ack)"
    using assms by (intro decode_of_reencode [OF abi_v1_ok]) (simp_all add: demo_key_def demo_ack_def wf_packet_def reencode_def)
  then show "readLoop_step abi_v1 0 (Inr q) 1 (demo_pending\<lparr>ss_sent := l\<rparr>, b) = Some (True, 2, demo_acked\<lparr>ss_sent := l\<rparr>, b)"
    and "accepted abi_v1 (Inr q) 1 (demo_pending\<lparr>ss_sent := l\<rparr>) = [demo_ack]"
    by (simp_all add: readLoop_step_def accepted_def handle_packet_def handle_ack_def notifyWaiter_def try_send_def
        make_chan_def demo_pending_def demo_acked_def newSubprocessIngressSession_def demo_ack_def Let_def)
qed

lemma demo_session_ack:
  "\<exists>y z es. run (sxstep abi_v1) demo_session es y \<and> sxstep abi_v1 y (XReturn (AssignmentOK abi_v1) demo_assignment) z \<and>
     sx_log y = [demo_ack] \<and> (\<exists>l. sx_session y = demo_acked\<lparr>ss_sent := l\<rparr>) \<and> sx_sequence y = 2 \<and> sx_reading y"
proof -
  obtain p where p: "encodeAssignmentPacket abi_v1 demo_key 7 1 9 (replicate 16 1) 1000 = Some p"
    using assignment_packet_shape [OF abi_v1_ok, of "replicate 16 1" demo_key 7 1 9 1000] by auto
  obtain q where q: "encodeACKPacket abi_v1 demo_key 7 1 9 (replicate 16 1) 0 = Some q"
    using ack_packet_shape [OF abi_v1_ok, of "replicate 16 1" demo_key 7 1 9 0] by auto
  let ?x1 = "demo_session\<lparr>sx_session := (newSubprocessIngressSession 7 demo_key)\<lparr>ss_ops := 1\<rparr>, sx_calls := [(demo_assignment, Entered)]\<rparr>"
  let ?x2 = "?x1\<lparr>sx_session := demo_pending\<lparr>ss_writeSequence := 0\<rparr>, sx_calls := [(demo_assignment, Registered 0)],
      sx_owner := [(0, pendingKey demo_assignment)]\<rparr>"
  let ?x3 = "?x2\<lparr>sx_session := demo_pending\<lparr>ss_sent := [p]\<rparr>, sx_calls := [(demo_assignment, Written 0)]\<rparr>"
  let ?x4 = "?x3\<lparr>sx_calls := [(demo_assignment, Waiting 0)]\<rparr>"
  let ?x5 = "?x4\<lparr>sx_session := demo_acked\<lparr>ss_sent := [p]\<rparr>, sx_sequence := 2, sx_log := [demo_ack]\<rparr>"
  have 1: "sxstep abi_v1 demo_session (XEnter demo_assignment) ?x1"
    using sx_enter [of demo_session "(newSubprocessIngressSession 7 demo_key)\<lparr>ss_ops := 1\<rparr>" abi_v1 demo_assignment]
    by (simp add: assign_enter_def demo_session_def newSubprocessIngressSession_def)
  have 2: "sxstep abi_v1 ?x1 (XRegister 0 demo_assignment) ?x2"
    using sx_register [of demo_assignment ?x1 abi_v1 0 0] demo_register by (simp add: demo_session_def)
  have 3: "sxstep abi_v1 ?x2 (XWrite 0 demo_assignment) ?x3"
    using sx_write [of demo_assignment 0 ?x2 abi_v1 0 "(length p, None)"] demo_write [OF p] by (simp add: demo_session_def)
  have 4: "sxstep abi_v1 ?x3 (XWritten 0 demo_assignment) ?x4"
    using sx_written [of demo_assignment 0 ?x3 abi_v1 0 "sx_session ?x3"]
    by (simp add: assign_written_def remaining_ok_def time_sub_def demo_assignment_def demo_session_def)
  have 5: "sxstep abi_v1 ?x4 (XRead (Inr q)) ?x5"
    using sx_read [of ?x4 abi_v1 0 "Inr q" True 2] demo_read [OF q] by (simp add: demo_session_def)
  have 6: "sxstep abi_v1 ?x5 (XReturn (AssignmentOK abi_v1) demo_assignment)
      (?x5\<lparr>sx_session := assign_return (demo_acked\<lparr>ss_sent := [p], ss_waiters := [(0, \<lparr>chan_cap = 1, chan_buf = []\<rparr>)]\<rparr>), sx_calls := []\<rparr>)"
    using sx_finish [of demo_assignment 0 ?x5 abi_v1 0 WakeStatus]
    by (simp add: assign_finish_def demo_acked_def try_recv_def demo_assignment_def demo_session_def)
  note step = run_cons [where step = "sxstep abi_v1"]
  from step [OF 1 step [OF 2 step [OF 3 step [OF 4 step [OF 5 run_nil]]]]] 6 show ?thesis
    by (intro exI conjI) (assumption, assumption, simp, simp, simp, simp add: demo_session_def)
qed

theorem session_accepts_in_order_witness:
  "\<exists>y es. run (sxstep abi_v1) demo_session es y \<and> sx_log y = [demo_ack] \<and> ap_sequence (sx_log y ! 0) = 1"
proof -
  obtain y es where "run (sxstep abi_v1) demo_session es y" "sx_log y = [demo_ack]" using demo_session_ack by blast
  then show ?thesis using session_accepts_in_order [OF abi_v1_ok demo_session_init, of es y 0] by auto
qed

section \<open>Acknowledgements\<close>

text \<open>
  C7: \<open>assign\<close> reports success only for an acknowledged assignment. Whenever a call returns
  \<open>AssignmentOK\<close>, the read loop has before accepted an authenticated acknowledgement packet
  with a positive status for exactly the handle and the correlation of that call.
\<close>

theorem assign_ok_needs_ack:
  assumes "abi_ok A" "sxinit g key x" "run (sxstep A) x es y" "sxstep A y (XReturn (AssignmentOK A) a) z"
  shows "acked A (sx_log y) (ca_handle a, ca_correlation a)"
proof -
  have ok: "AssignmentOK A \<noteq> AssignmentInvalidOrExpiredTime A" "AssignmentOK A \<noteq> AssignmentWrongConnectionState A"
    "AssignmentOK A \<noteq> AssignmentDuplicateHandleOrCorrelation A" "AssignmentOK A \<noteq> embeddedAssignmentTransportFailure"
    using assms(1) by (auto simp: abi_ok_def embeddedAssignmentTransportFailure_def)
  have "sess_inv A g key y" by (rule session_run_inv [OF assms(1-3)])
  note w = waiters_okD [OF sess_invD(3) [OF this]]
  from assms(4) show ?thesis
  proof cases
    case (sx_finish v now wake s)
    have "pos A (ss_waiters (sx_session y)) v"
    proof (cases wake)
      case WakeStatus
      then obtain c c' where "map_of (ss_waiters (sx_session y)) v = Some c"
          "try_recv c = Some (SubprocessACKPositive A, c')"
        using sx_finish(3) ok by (auto simp: assign_finish_def Let_def split: option.splits if_splits)
      then show ?thesis using ch.recv_Some [of c "SubprocessACKPositive A" c'] by (auto simp: pos_def)
    qed (use sx_finish(3) ok in \<open>auto simp: assign_finish_def split: if_splits\<close>)
    then obtain k where "map_of (sx_owner y) v = Some k" "acked A (sx_log y) k" using w(4) by blast
    moreover have "map_of (sx_owner y) v = Some (pendingKey a)" by (rule w(3) [OF sx_finish(2)]) simp
    ultimately show ?thesis by (simp add: pendingKey_def)
  qed (use ok in \<open>auto simp: assign_enter_def assign_register_def assign_written_def assign_write_def Let_def
      split: if_splits option.splits prod.splits\<close>)
qed

theorem assign_ok_needs_ack_witness:
  "\<exists>y z es. run (sxstep abi_v1) demo_session es y \<and> sxstep abi_v1 y (XReturn (AssignmentOK abi_v1) demo_assignment) z \<and>
     acked abi_v1 (sx_log y) (9, replicate 16 1)"
proof -
  obtain y z es where y: "run (sxstep abi_v1) demo_session es y"
    "sxstep abi_v1 y (XReturn (AssignmentOK abi_v1) demo_assignment) z" using demo_session_ack by blast
  from assign_ok_needs_ack [OF abi_v1_ok demo_session_init y] y show ?thesis by (auto simp: demo_assignment_def)
qed

section \<open>Delivery\<close>

abbreviation verified_queue :: "session_broker \<Rightarrow> VerifiedFrame list" where
  "verified_queue b \<equiv> chan_buf (b_verified b)"

lemma deactivate_queue: "length (verified_queue (broker_deactivate g b)) \<le> length (verified_queue b)"
  by (simp add: broker_deactivate_def)

lemma session_fail_queue:
  "session_fail A e (s, b) = (s', b') \<Longrightarrow> length (verified_queue b') \<le> length (verified_queue b)"
  by (auto simp: session_fail_def session_close_def Let_def deactivate_queue split: if_splits)

lemma run_fatal_queue:
  "run_fatal A err f (s, b) = (s', b') \<Longrightarrow> length (verified_queue b') \<le> length (verified_queue b)"
  by (auto simp: run_fatal_def dest: session_fail_queue split: option.splits)

lemma open_queue:
  assumes "broker_open now g h b = (err, f, b')"
  shows "length (verified_queue b') \<le> length (verified_queue b)"
  using assms
proof (cases rule: open_cases)
  case (opened b1 q)
  then show ?thesis using evict_frame(5) [OF opened(7)] by simp
qed (auto simp: failWith_eq)

lemma deliver_error_queue:
  assumes "broker_deliverIPCFrame A now g h c frame b = (Some e, f, b')"
  shows "length (verified_queue b') \<le> length (verified_queue b)"
proof (cases "broker_lookupIPC h c b")
  case (Inr ms)
  then have "broker_deliver A now g c frame ms b = (Some e, f, b')"
    using assms by (simp add: broker_deliverIPCFrame_def)
  then show ?thesis
    by (cases rule: deliver_cases)
      (auto simp: failWith_eq closeCorrelation_eq drop_one_def stopTimer_eq split: option.splits)
qed (use assms in \<open>simp add: broker_deliverIPCFrame_def\<close>)

lemma ipc_queue:
  assumes "broker_deliverIPCFrame A now g h c frame b = (None, f, b')"
  shows "\<exists>e. verified_queue b' = verified_queue b @
    [\<lparr>vf_generation = g, vf_handle = h, vf_correlation = c, vf_frame = frame, vf_expiresAt = e\<rparr>]"
proof -
  obtain p where p: "map_of (b_correlations b) c = Some p" "ip_handle p = h"
    and dl: "broker_deliver A now g c frame (unix_milli (ip_expiresAt p)) b = (None, f, b')"
    using assms by (auto simp: broker_deliverIPCFrame_def broker_lookupIPC_def split: option.splits if_splits)
  from dl show ?thesis
  proof (cases rule: deliver_cases)
    case (delivered p' q)
    then show ?thesis using p ch.send_Some [OF delivered(9)] by (auto simp: verified_of_def)
  qed (auto simp: failWith_eq)
qed

lemma handle_verified_delivery:
  assumes "handle_verified A now h payload (s, b) = (go, s', b')" "length (verified_queue b) < length (verified_queue b')"
  obtains c p where "map_of (ss_pending s) (h, c) = Some p" "pe_acknowledged p" "extractIngressCorrelation A payload = Inr c"
    "\<exists>f. broker_deliverIPCFrame A now (ss_generation s) h c payload b = (None, f, b')"
proof -
  have nf: "\<not> (\<exists>e s s'. session_fail A e (s, b) = (s', b'))"
    using assms(2) session_fail_queue by (metis not_le)
  then obtain c p where c: "extractIngressCorrelation A payload = Inr c" "map_of (ss_pending s) (h, c) = Some p"
    "pe_acknowledged p"
    using assms by (fastforce simp: handle_verified_def Let_def split: sum.splits option.splits if_splits)
  obtain err f b1 where d: "broker_deliverIPCFrame A now (ss_generation s) h c payload b = (err, f, b1)"
    by (rule prod_cases3)
  have "err = None"
  proof (rule ccontr)
    assume "err \<noteq> None"
    then obtain e where e: "err = Some e" by blast
    let ?s = "(stopPendingTimer p s)\<lparr>ss_pending := AList.delete (h, c) (ss_pending s)\<rparr>"
    obtain s2 b2 where rf: "run_fatal A (Some e) f (?s, b1) = (s2, b2)" by force
    have "length (verified_queue b2) \<le> length (verified_queue b)"
      using run_fatal_queue [OF rf] deliver_error_queue [of A now _ h c payload b e f b1] d e by force
    moreover have "b' = b2 \<or> session_fail A (ProtocolErr e) (s2, b2) = (s', b')"
      using assms(1) c d e rf by (auto simp: handle_verified_def Let_def split: if_splits)
    ultimately show False using assms(2) session_fail_queue [of A "ProtocolErr e" s2 b2 s' b'] by auto
  qed
  then show thesis using that c d assms(1) by (auto simp: handle_verified_def Let_def)
qed

text \<open>
  C6: The broker only gets verified frames of acknowledged assignments. Whenever an iteration
  of the read loop makes the broker's queue of verified frames longer, it appended exactly one
  frame: the payload of an authenticated packet whose protobuf carries the queued correlation,
  for a handle and correlation for which a positive acknowledgement had been accepted before.
\<close>

theorem delivery_needs_ack:
  assumes "abi_ok A" "sxinit g key x" "run (sxstep A) x es y" "sxstep A y (XRead input) z"
    and "length (chan_buf (b_verified (sx_broker y))) < length (chan_buf (b_verified (sx_broker z)))"
  shows "\<exists>v. chan_buf (b_verified (sx_broker z)) = chan_buf (b_verified (sx_broker y)) @ [v] \<and>
    vf_generation v = g \<and> acked A (sx_log y) (vf_handle v, vf_correlation v) \<and>
    extractIngressCorrelation A (vf_frame v) = Inr (vf_correlation v)"
proof -
  have inv: "sess_inv A g key y" by (rule session_run_inv [OF assms(1-3)])
  note w = waiters_okD [OF sess_invD(3) [OF inv]]
  have g: "ss_generation (sx_session y) = g" using sess_invD(1) [OF inv] by (simp add: ident_ok_def)
  from assms(4) show ?thesis
  proof cases
    case (sx_read now go sq s b)
    let ?s = "sx_session y" and ?b = "sx_broker y"
    have more: "length (verified_queue ?b) < length (verified_queue b)" using assms(5) sx_read(1) by simp
    have nf: "\<not> (\<exists>e. session_fail A e (?s, ?b) = (s, b))" using more session_fail_queue by (metis not_le)
    then obtain packet where hp: "handle_packet A now packet (?s, ?b) = (go, s, b)"
      using sx_read(3) by (auto simp: readLoop_step_def split: sum.splits option.splits read_error.splits prod.splits)
    have no_open: "handle_open A now (ap_handle packet) (?s, ?b) \<noteq> (go, s, b)"
    proof
      assume ho: "handle_open A now (ap_handle packet) (?s, ?b) = (go, s, b)"
      obtain err f b1 where o: "broker_open now (ss_generation ?s) (ap_handle packet) ?b = (err, f, b1)"
        by (rule prod_cases3)
      obtain s2 b2 where rf: "run_fatal A err f (?s, b1) = (s2, b2)" by force
      have "length (verified_queue b2) \<le> length (verified_queue ?b)"
        using run_fatal_queue [OF rf] open_queue [OF o] by simp
      moreover have "b = b1 \<or> (\<exists>e. session_fail A e (s2, b2) = (s, b))"
        using ho o rf by (cases err) (auto simp: handle_open_def)
      ultimately show False using more session_fail_queue open_queue [OF o] by (metis not_le order_trans)
    qed
    have no_ack: "handle_ack A now k st (?s, ?b) \<noteq> (go, s, b)" for k st
      using more nf by (auto simp: handle_ack_def Let_def split: option.splits if_splits)
    have "handle_verified A now (ap_handle packet) (ap_payload packet) (?s, ?b) = (go, s, b)"
      using hp no_open no_ack nf unfolding handle_packet_def by (auto split: if_splits)
    then obtain c p f where c: "map_of (ss_pending ?s) (ap_handle packet, c) = Some p" "pe_acknowledged p"
        "extractIngressCorrelation A (ap_payload packet) = Inr c"
        "broker_deliverIPCFrame A now (ss_generation ?s) (ap_handle packet) c (ap_payload packet) ?b = (None, f, b)"
      using more by (elim handle_verified_delivery) auto
    have "\<exists>e. verified_queue b = verified_queue ?b @ [\<lparr>vf_generation = g, vf_handle = ap_handle packet,
        vf_correlation = c, vf_frame = ap_payload packet, vf_expiresAt = e\<rparr>]"
      using ipc_queue [OF c(4)] g by auto
    then show ?thesis using w(2) [OF c(1,2)] c(3) sx_read(1) by auto
  qed
qed

definition demo_payload :: bytes where
  "demo_payload = [8, 1, 18, 16] @ replicate 16 1"

lemma demo_payload_correlation: "extractIngressCorrelation abi_v1 demo_payload = Inr (replicate 16 1)"
proof -
  have f: "varint_of [8] 8" "varint_of [1] 1" "varint_of [18] 18" "varint_of [16] 16"
    by (simp_all add: varint_of_def)
  have "frame_fields ([18] @ [16] @ replicate 16 1 @ []) [(drop_bit 3 18, PB_Bytes (replicate 16 1))]"
    by (rule frame_bytes [OF f(3) _ f(4) _ frame_end]) simp_all
  from frame_varint [OF f(1) _ f(2) this]
  have "frame_fields demo_payload [(1, PB_Varint 1), (2, PB_Bytes (replicate 16 1))]"
    by (simp add: demo_payload_def)
  then show ?thesis
    unfolding extractIngressCorrelation_def
    by (rule extract_complete) (simp add: rest_ok_def known_field_def zero_correlation_def)
qed

theorem delivery_needs_ack_witness:
  "\<exists>(y :: unit session_system) z input. sxstep abi_v1 y (XRead input) z \<and> acked abi_v1 (sx_log y) (9, replicate 16 1) \<and>
     (\<exists>v. chan_buf (b_verified (sx_broker z)) = [v] \<and> vf_handle v = 9)"
proof -
  obtain y es l where y: "run (sxstep abi_v1) demo_session es y" "sx_session y = demo_acked\<lparr>ss_sent := l\<rparr>"
      "sx_sequence y = 2" "sx_reading y" using demo_session_ack by blast
  let ?y = "y\<lparr>sx_broker := demo_assigning\<rparr>"
  have run: "run (sxstep abi_v1) demo_session (es @ [XBroker]) ?y"
    by (rule run_snoc [OF y(1)]) (rule sx_broker)
  obtain q where q: "encodeVerifiedPacket abi_v1 demo_key 7 2 9 demo_payload = Some q"
    using verified_packet_shape [OF abi_v1_ok, of demo_key 7 2 9 demo_payload] by auto
  let ?d = "\<lparr>ap_typ = 3, ap_generation = 7, ap_sequence = 2, ap_handle = 9, ap_correlation = zero_correlation abi_v1,
     ap_expiresUnixMS = 0, ap_status = 0, ap_payload = demo_payload\<rparr>"
  have dec: "decodeAuthenticatedPacket abi_v1 q demo_key 7 2 = Some (Inr ?d)"
    using q by (intro decode_of_reencode [OF abi_v1_ok]) (simp_all add: demo_key_def wf_packet_def reencode_def demo_payload_def)
  have c: "map_of (b_correlations demo_assigning) (replicate 16 1) = Some (new_pending demo_assignment 0)"
    "b_generation demo_assigning = 7" "b_active demo_assigning" "b_verified demo_assigning = \<lparr>chan_cap = 1, chan_buf = []\<rparr>"
    by (simp_all add: demo_assigning_eq add_pending_def demo_open_eq demo_broker_eq demo_assignment_def)
  then have "broker_lookupIPC 9 (replicate 16 1) demo_assigning = Inr 1000"
    by (simp add: broker_lookupIPC_def demo_assignment_def new_pending_def unix_milli_def)
  moreover have "fst (broker_deliver abi_v1 0 7 (replicate 16 1) demo_payload 1000 demo_assigning) = None"
    using c by (simp add: broker_deliver_def demo_payload_def time_of_unix_milli_1000 time_sub_def new_pending_def
        demo_assignment_def unix_milli_def try_send_def stopTimer_def Let_def)
  ultimately obtain f b where d: "broker_deliverIPCFrame abi_v1 0 7 9 (replicate 16 1) demo_payload demo_assigning = (None, f, b)"
    by (cases "broker_deliver abi_v1 0 7 (replicate 16 1) demo_payload 1000 demo_assigning") (simp add: broker_deliverIPCFrame_def)
  obtain v where v: "verified_queue b = [v]" "vf_handle v = 9" "vf_correlation v = replicate 16 1"
    using ipc_queue [OF d] c(4) by auto
  obtain s where "readLoop_step abi_v1 0 (Inr q) 2 (sx_session ?y, sx_broker ?y) = Some (True, 3, s, b)"
    using dec d demo_payload_correlation y(2)
    by (simp add: readLoop_step_def handle_packet_def handle_verified_def demo_acked_def demo_pending_def
        newSubprocessIngressSession_def stopPendingTimer_def Let_def)
  then obtain z where z: "sxstep abi_v1 ?y (XRead (Inr q)) z" "sx_broker z = b"
    using sx_read [of ?y abi_v1 0 "Inr q" True 3 s b] y(3,4) by fastforce
  have "acked abi_v1 (sx_log ?y) (9, replicate 16 1)"
    using delivery_needs_ack [OF abi_v1_ok demo_session_init run z(1)] c(4) z(2) v by auto
  with z v show ?thesis by (intro exI [of _ ?y] exI [of _ z] exI [of _ "Inr q"]) auto
qed

section \<open>Closing\<close>

text \<open>Closed, and the broker of the same generation is inactive.\<close>

definition shut :: "'e subprocessIngressSession \<Rightarrow> session_broker \<Rightarrow> bool" where
  "shut s b \<longleftrightarrow> ss_closed s \<and> (b_generation b = ss_generation s \<longrightarrow> \<not> b_active b)"

lemma notify_all_keeps:
  "ss_closed (notify_all A ps s) = ss_closed s" "ss_generation (notify_all A ps s) = ss_generation s"
  "ss_accepting (notify_all A ps s) = ss_accepting s" "ss_done (notify_all A ps s) = ss_done s"
  "ss_closeErr (notify_all A ps s) = ss_closeErr s"
  unfolding notify_all_def by (induction ps arbitrary: s) (auto simp: split_def)

lemma session_close_unfold:
  "session_close A reason (s, b) = (if ss_closed s then (s, b)
    else ((notify_all A (ss_pending s) (s\<lparr>ss_closed := True, ss_accepting := False, ss_closeErr := reason,
            ss_done := True\<rparr>))\<lparr>ss_pending := []\<rparr>, broker_deactivate (ss_generation s) b))"
  by (simp add: session_close_def notify_all_def Let_def)

lemma session_fail_shut:
  assumes "session_fail A e (s, b) = (s', b')" "\<not> ss_closed s \<or> shut s b"
  shows "shut s' b'"
  using assms
  by (auto simp: session_fail_def session_close_unfold shut_def notify_all_keeps broker_deactivate_def split: if_splits)

lemma run_fatal_shut:
  assumes "run_fatal A err f (s, b) = (s', b')" "\<not> ss_closed s"
  shows "\<not> ss_closed s' \<or> shut s' b'"
  using assms session_fail_shut by (fastforce simp: run_fatal_def split: option.splits)

lemma handle_packet_shut:
  assumes hp: "handle_packet A now packet (s, b) = (False, s', b')" and o: "\<not> ss_closed s"
  shows "shut s' b'"
proof -
  have direct: "session_fail A e (t, c) = (s', b') \<Longrightarrow> \<not> ss_closed t \<or> shut t c \<Longrightarrow> shut s' b'" for e t c
    by (rule session_fail_shut)
  consider "handle_open A now (ap_handle packet) (s, b) = (False, s', b')"
    | k st where "handle_ack A now k st (s, b) = (False, s', b')"
    | "handle_verified A now (ap_handle packet) (ap_payload packet) (s, b) = (False, s', b')"
    | "session_fail A (ProtocolErr ErrIngressABI) (s, b) = (s', b')"
    using hp unfolding handle_packet_def by (auto split: if_splits)
  then show ?thesis
  proof cases
    case 1
    obtain err f b1 where b1: "broker_open now (ss_generation s) (ap_handle packet) b = (err, f, b1)"
      by (rule prod_cases3)
    obtain t c where rf: "run_fatal A err f (s, b1) = (t, c)" by force
    show ?thesis using 1 b1 rf run_fatal_shut [OF rf o] direct [of _ t c] by (cases err) (auto simp: handle_open_def)
  next
    case (2 k st)
    then show ?thesis using o direct [of _ s b]
      by (auto simp: handle_ack_def Let_def split: option.splits if_splits)
  next
    case 3
    show ?thesis
    proof (cases "extractIngressCorrelation A (ap_payload packet)")
      case (Inl e)
      then show ?thesis using 3 o direct [of _ s b] by (auto simp: handle_verified_def)
    next
      case (Inr k)
      then obtain p where p: "map_of (ss_pending s) (ap_handle packet, k) = Some p"
        using 3 by (auto simp: handle_verified_def split: option.splits)
      let ?t = "(stopPendingTimer p s)\<lparr>ss_pending := AList.delete (ap_handle packet, k) (ss_pending s)\<rparr>"
      obtain err f b1 where b1: "broker_deliverIPCFrame A now (ss_generation s) (ap_handle packet) k (ap_payload packet) b = (err, f, b1)"
        by (rule prod_cases3)
      obtain u c where rf: "run_fatal A err f (?t, b1) = (u, c)" by force
      show ?thesis using 3 Inr p b1 rf run_fatal_shut [OF rf] o direct [of _ ?t b] direct [of _ u c]
        by (cases err) (auto simp: handle_verified_def Let_def split: if_splits)
    qed
  next
    case 4
    then show ?thesis using direct o by blast
  qed
qed



lemma notify_all_wakes:
  assumes "(k, p) \<in> set ps" "map_of (ss_waiters s) (pe_waiter p) = Some c" "1 \<le> chan_cap c"
  shows "\<exists>c'. map_of (ss_waiters (notify_all A ps s)) (pe_waiter p) = Some c' \<and> chan_buf c' \<noteq> [] \<and> 1 \<le> chan_cap c'"
proof -
  let ?f = "\<lambda>(_, p) s. (stopPendingTimer p s)
     \<lparr>ss_waiters := notifyWaiter (pe_waiter p) (SubprocessACKNegative A) (ss_waiters s)\<rparr>"
  let ?full = "\<lambda>s. \<exists>c'. map_of (ss_waiters s) (pe_waiter p) = Some c' \<and> chan_buf c' \<noteq> [] \<and> 1 \<le> chan_cap c'"
  have keep: "?full s \<Longrightarrow> ?full (notify_all A qs s)" for qs s
    unfolding notify_all_def
    by (induction qs arbitrary: s) (auto simp: split_def notifyWaiter_def try_send_def split: option.splits if_splits)
  show ?thesis
    using assms
  proof (induction ps arbitrary: s c)
    case (Cons x ps)
    show ?case
    proof (cases "x = (k, p)")
      case True
      then have "?full (?f x s)" using Cons.prems(2,3)
        by (auto simp: notifyWaiter_def try_send_def split: option.splits)
      from keep [OF this, of ps] show ?thesis by (simp add: notify_all_def)
    next
      case False
      have "\<exists>c'. map_of (ss_waiters (?f x s)) (pe_waiter p) = Some c' \<and> 1 \<le> chan_cap c'"
        using Cons.prems(2,3) by (auto simp: split_def notifyWaiter_def try_send_def split: option.splits)
      then obtain c' where "map_of (ss_waiters (?f x s)) (pe_waiter p) = Some c'" "1 \<le> chan_cap c'" by blast
      then show ?thesis using Cons.IH [of "?f x s" c'] Cons.prems(1) False by (simp add: notify_all_def)
    qed
  qed simp
qed

text \<open>
  C28: Closing a session is complete and happens once. The first \<open>close\<close> stops accepting calls,
  records its reason, clears the broker of its generation (and leaves a newer generation
  alone), closes \<open>done\<close>, drops every pending assignment and leaves a status in the channel of
  each of their waiters, so that no call can stay blocked; every later \<open>close\<close> changes nothing.
\<close>

theorem session_close_effect:
  assumes "\<not> ss_closed s" "session_close A reason (s, b) = (s', b')"
  shows "ss_closed s' \<and> \<not> ss_accepting s' \<and> ss_done s' \<and> ss_pending s' = [] \<and> session_err s' = reason \<and>
    (if b_generation b = ss_generation s
     then \<not> b_active b' \<and> b_handles b' = [] \<and> b_correlations b' = [] \<and> chan_buf (b_opened b') = [] \<and> chan_buf (b_verified b') = []
     else b' = b) \<and>
    (\<forall>k p c. (k, p) \<in> set (ss_pending s) \<and> map_of (ss_waiters s) (pe_waiter p) = Some c \<and> 1 \<le> chan_cap c \<longrightarrow>
      (\<exists>c'. map_of (ss_waiters s') (pe_waiter p) = Some c' \<and> chan_buf c' \<noteq> [])) \<and>
    session_close A reason' (s', b') = (s', b')"
proof -
  let ?t = "s\<lparr>ss_closed := True, ss_accepting := False, ss_closeErr := reason, ss_done := True\<rparr>"
  have e: "s' = (notify_all A (ss_pending s) ?t)\<lparr>ss_pending := []\<rparr>" "b' = broker_deactivate (ss_generation s) b"
    using assms by (simp_all add: session_close_unfold)
  have "\<exists>c'. map_of (ss_waiters s') (pe_waiter p) = Some c' \<and> chan_buf c' \<noteq> []"
    if "(k, p) \<in> set (ss_pending s)" "map_of (ss_waiters s) (pe_waiter p) = Some c" "1 \<le> chan_cap c" for k p c
    using notify_all_wakes [of k p "ss_pending s" ?t c A] that by (auto simp: e)
  then show ?thesis
    by (auto simp: e notify_all_keeps session_err_def broker_deactivate_def session_close_unfold)
qed

theorem session_close_effect_witness:
  "\<exists>s' b'. session_close abi_v1 (Some EOFErr) (demo_pending, demo_assigning) = (s', b') \<and> ss_pending s' = [] \<and> \<not> b_active b'"
proof -
  obtain s' b' where c: "session_close abi_v1 (Some EOFErr) (demo_pending, demo_assigning) = (s', b')" by force
  have "\<not> ss_closed demo_pending" "b_generation demo_assigning = ss_generation demo_pending"
    by (simp_all add: demo_pending_def newSubprocessIngressSession_def demo_assigning_eq add_pending_def demo_open_eq demo_broker_eq)
  with session_close_effect [OF _ c] c show ?thesis by auto
qed

end
