(* ===== verification/Session_Exec.thy ===== *)
theory Session_Exec
  imports Session_System
begin

text \<open>
  Schedules of the session system. An action names a step of one of the goroutines that use a
  session, with everything that is not determined by the state (the clock, what the connection
  returns, which branch of a \<open>select\<close> is taken); \<open>sx_do\<close> performs it, or does nothing when
  that goroutine is not at this point. A list of actions is an interleaving.
\<close>

text \<open>
  What the host does with the broker while a session is active: the two critical sections of \<open>Assign\<close>, the expiry
  timers, and receiving from the two channels.
\<close>

datatype broker_action =
    BAssign time ConnectionAssignment
  | BAssignEnd int ConnectionAssignment
  | BTimer nat
  | BExpire expire_args
  | BRecvOpened
  | BRecvVerified

fun broker_do :: "abi \<Rightarrow> broker_action \<Rightarrow> session_broker \<Rightarrow> session_broker" where
  "broker_do A (BAssign now a) b = snd (broker_assign_begin A now a b)"
| "broker_do A (BAssignEnd rc a) b = snd (broker_assign_end A rc a b)"
| "broker_do A (BTimer i) b = b\<lparr>b_timers := AList.delete i (b_timers b)\<rparr>"
| "broker_do A (BExpire x) b = broker_expire x b"
| "broker_do A BRecvOpened b = (case try_recv (b_opened b) of None \<Rightarrow> b | Some (_, q) \<Rightarrow> b\<lparr>b_opened := q\<rparr>)"
| "broker_do A BRecvVerified b = (case try_recv (b_verified b) of None \<Rightarrow> b | Some (_, q) \<Rightarrow> b\<lparr>b_verified := q\<rparr>)"

datatype 'e action =
    DoEnter ConnectionAssignment
  | DoRegister time ConnectionAssignment
  | DoWrite time "nat \<times> 'e option" ConnectionAssignment nat
  | DoWritten time ConnectionAssignment nat
  | DoFinish time wake ConnectionAssignment nat
  | DoRead time "'e read_error + bytes"
  | DoTimer nat
  | DoExpire subprocessPendingKey time
  | DoBroker broker_action

definition call_to :: "ConnectionAssignment \<times> call_phase \<Rightarrow> ConnectionAssignment \<times> call_phase \<Rightarrow> 'e session_system \<Rightarrow> 'e session_system" where
  "call_to c c' x = x\<lparr>sx_calls := c' # remove1 c (sx_calls x)\<rparr>"

definition call_return :: "ConnectionAssignment \<times> call_phase \<Rightarrow> 'e session_system \<Rightarrow> 'e session_system" where
  "call_return c x = x\<lparr>sx_session := assign_return (sx_session x), sx_calls := remove1 c (sx_calls x)\<rparr>"

fun sx_do :: "abi \<Rightarrow> 'e action \<Rightarrow> 'e session_system \<Rightarrow> 'e session_system" where
  "sx_do A (DoEnter a) x =
     (case assign_enter (sx_session x) of
        (Inr _, s) \<Rightarrow> x\<lparr>sx_session := s, sx_calls := (a, Entered) # sx_calls x\<rparr>
      | (Inl _, s) \<Rightarrow> x\<lparr>sx_session := s\<rparr>)"
| "sx_do A (DoRegister now a) x =
     (if (a, Entered) \<notin> set (sx_calls x) then x
      else case assign_register A now a (sx_session x) of
        (Inr w, s) \<Rightarrow> (call_to (a, Entered) (a, Registered w) (x\<lparr>sx_session := s\<rparr>))\<lparr>sx_owner := (w, pendingKey a) # sx_owner x\<rparr>
      | (Inl _, s) \<Rightarrow> call_return (a, Entered) (x\<lparr>sx_session := s\<rparr>))"
| "sx_do A (DoWrite now result a w) x =
     (if (a, Registered w) \<notin> set (sx_calls x) then x
      else case assign_write A now result a (sx_session x, sx_broker x) of
        None \<Rightarrow> x
      | Some (Inr _, s, b) \<Rightarrow> call_to (a, Registered w) (a, Written w) (x\<lparr>sx_session := s, sx_broker := b\<rparr>)
      | Some (Inl _, s, b) \<Rightarrow> call_return (a, Registered w) (x\<lparr>sx_session := s, sx_broker := b\<rparr>))"
| "sx_do A (DoWritten now a w) x =
     (if (a, Written w) \<notin> set (sx_calls x) then x
      else case assign_written A now a (sx_session x) of
        (Inr _, s) \<Rightarrow> call_to (a, Written w) (a, Waiting w) (x\<lparr>sx_session := s\<rparr>)
      | (Inl _, s) \<Rightarrow> call_return (a, Written w) (x\<lparr>sx_session := s\<rparr>))"
| "sx_do A (DoFinish now wake a w) x =
     (if (a, Waiting w) \<notin> set (sx_calls x) then x
      else case assign_finish A now wake a w (sx_session x) of
        None \<Rightarrow> x
      | Some (_, s) \<Rightarrow> call_return (a, Waiting w) (x\<lparr>sx_session := s\<rparr>))"
| "sx_do A (DoRead now input) x =
     (if \<not> sx_reading x then x
      else case readLoop_step A now input (sx_sequence x) (sx_session x, sx_broker x) of
        None \<Rightarrow> x
      | Some (go, sequence, s, b) \<Rightarrow>
          x\<lparr>sx_session := s, sx_broker := b, sx_sequence := sequence, sx_reading := go,
            sx_log := sx_log x @ accepted A input (sx_sequence x) (sx_session x)\<rparr>)"
| "sx_do A (DoTimer i) x =
     (case map_of (ss_timers (sx_session x)) i of
        None \<Rightarrow> x
      | Some k \<Rightarrow> x\<lparr>sx_session := (sx_session x)\<lparr>ss_timers := AList.delete i (ss_timers (sx_session x))\<rparr>,
            sx_firing := k # sx_firing x\<rparr>)"
| "sx_do A (DoExpire k t) x =
     (if (k, t) \<notin> set (sx_firing x) then x
      else x\<lparr>sx_session := expirePending A k t (sx_session x), sx_firing := remove1 (k, t) (sx_firing x)\<rparr>)"
| "sx_do A (DoBroker act) x = x\<lparr>sx_broker := broker_do A act (sx_broker x)\<rparr>"

definition sx_run :: "abi \<Rightarrow> 'e action list \<Rightarrow> 'e session_system \<Rightarrow> 'e session_system" where
  "sx_run A acts x = fold (sx_do A) acts x"

text \<open>The session right after \<open>start\<close>: the read loop runs, no call has come.\<close>

definition session_start :: "'e subprocessIngressSession \<Rightarrow> session_broker \<Rightarrow> 'e session_system" where
  "session_start s b = \<lparr>sx_session = s, sx_broker = b, sx_sequence = 1, sx_reading = True, sx_calls = [], sx_firing = [],
     sx_log = [], sx_owner = []\<rparr>"

text \<open>
  What is left to do: the phases the calls in progress have ahead of them, and the read loop.
\<close>

fun phase_work :: "call_phase \<Rightarrow> nat" where
  "phase_work Entered = 4"
| "phase_work (Registered _) = 3"
| "phase_work (Written _) = 2"
| "phase_work (Waiting _) = 1"

definition sx_work :: "'e session_system \<Rightarrow> nat" where
  "sx_work x = sum_list (map (phase_work \<circ> snd) (sx_calls x)) + (if sx_reading x then 1 else 0)"

section \<open>A schedule is a run\<close>

lemma broker_then_session:
  "x\<lparr>sx_broker := b, sx_session := s, sx_calls := c\<rparr> = x\<lparr>sx_session := s, sx_broker := b, sx_calls := c\<rparr>"
  by simp

lemma sx_do_step:
  "sx_do A act x = x \<or> (\<exists>e. sxstep A x e (sx_do A act x))"
proof (cases act)
  case (DoEnter a)
  obtain r s where r: "assign_enter (sx_session x) = (r, s)" by force
  then show ?thesis using DoEnter sx_enter [of x s A a] sx_refuse [of x _ s A a] by (cases r) (auto simp: unit_eq)
next
  case (DoRegister now a)
  obtain r s where r: "assign_register A now a (sx_session x) = (r, s)" by force
  show ?thesis
  proof (cases "(a, Entered) \<in> set (sx_calls x)")
    case True
    then show ?thesis using DoRegister r sx_register [of a x A now _ s] sx_register_error [of a x A now _ s]
      by (cases r) (auto simp: call_to_def call_return_def)
  qed (simp add: DoRegister)
next
  case (DoWrite now result a w)
  show ?thesis
  proof (cases "(a, Registered w) \<in> set (sx_calls x)")
    case True
    show ?thesis
    proof (cases "assign_write A now result a (sx_session x, sx_broker x)")
      case (Some t)
      obtain r s b where t: "t = (r, s, b)" by (rule prod_cases3)
      show ?thesis
        using DoWrite True Some sx_write [OF True, of A now result s b] sx_write_error [OF True, of A now result _ s b]
        by (cases r) (auto simp: t call_to_def call_return_def unit_eq broker_then_session)
    qed (simp add: DoWrite)
  qed (simp add: DoWrite)
next
  case (DoWritten now a w)
  obtain r s where r: "assign_written A now a (sx_session x) = (r, s)" by force
  show ?thesis
  proof (cases "(a, Written w) \<in> set (sx_calls x)")
    case True
    then show ?thesis using DoWritten r sx_written [of a w x A now s] sx_written_error [of a w x A now _ s]
      by (cases r) (auto simp: call_to_def call_return_def unit_eq)
  qed (simp add: DoWritten)
next
  case (DoFinish now wake a w)
  then show ?thesis using sx_finish [of a w x A now wake]
    by (cases "(a, Waiting w) \<in> set (sx_calls x)"; cases "assign_finish A now wake a w (sx_session x)")
      (auto simp: call_return_def)
next
  case (DoRead now input)
  show ?thesis
  proof (cases "sx_reading x")
    case True
    show ?thesis
    proof (cases "readLoop_step A now input (sx_sequence x) (sx_session x, sx_broker x)")
      case (Some t)
      obtain go sq s b where t: "t = (go, sq, s, b)" by (metis prod_cases4)
      show ?thesis using DoRead True Some sx_read [OF True, of A now input go sq s b] by (auto simp: t)
    qed (simp add: DoRead)
  qed (simp add: DoRead)
next
  case (DoTimer i)
  then show ?thesis using sx_timer [of x i _ A]
    by (cases "map_of (ss_timers (sx_session x)) i") auto
next
  case (DoExpire k t)
  then show ?thesis using sx_expire [of k t x A] by auto
next
  case (DoBroker b)
  then show ?thesis using sx_broker [of A x] by auto
qed

lemma sx_run_run: "\<exists>es. run (sxstep A) x es (sx_run A acts x)"
proof (induction acts arbitrary: x)
  case Nil
  then show ?case by (auto simp: sx_run_def intro: run.intros)
next
  case (Cons act acts)
  obtain es where "run (sxstep A) (sx_do A act x) es (sx_run A acts (sx_do A act x))" using Cons.IH by blast
  then show ?case using sx_do_step [of A act x] run_cons [of "sxstep A" x _ "sx_do A act x"]
    by (auto simp: sx_run_def)
qed

lemma session_start_init: "sxinit g key (session_start (newSubprocessIngressSession g key) b)"
  by (simp add: sxinit_def session_start_def)

end
