(* ===== verification/Session_Drain.thy ===== *)
theory Session_Drain
  imports Session_Props Session_Exec
begin

text \<open>
  What every schedule keeps, and why a closed session drains: the link between a session and the
  broker of its generation, and the work that is left, which no action on a closed session increases.
\<close>

section \<open>Session and broker\<close>

definition linked :: "u64 \<Rightarrow> 'e subprocessIngressSession \<times> session_broker \<Rightarrow> bool" where
  "linked g = (\<lambda>(s, b). ss_generation s = g \<and> b_generation b = g \<and> (ss_done s \<longrightarrow> ss_closed s) \<and> (ss_closed s \<longrightarrow> \<not> b_active b))"

text \<open>A broker method that is not an activation: same generation, never active again.\<close>

definition tamer :: "('n, 'f) ingressBroker \<Rightarrow> ('n, 'f) ingressBroker \<Rightarrow> bool" where
  "tamer b b' \<longleftrightarrow> b_generation b' = b_generation b \<and> (b_active b' \<longrightarrow> b_active b)"

lemma tamer_refl [simp]: "tamer b b"
  by (simp add: tamer_def)

lemma dropPendings_tame [simp]:
  "b_generation (dropPendings P b) = b_generation b" "b_active (dropPendings P b) = b_active b"
  by (simp_all add: dropPendings_raw)

lemma tamer_methods:
  "tamer b (broker_deactivate g b)" "tamer b (broker_closeHandle g h b)" "tamer b (clearAssignmentLocked h c b)"
  "tamer b (broker_closeCorrelation g c b)" "tamer b (broker_expire x b)" "tamer b (snd (broker_assign_begin A now a b))"
  "tamer b (snd (broker_assign_end A rc a b))"
proof -
  show 2: "tamer b (broker_closeHandle g h b)" for g h b by (simp add: broker_closeHandle_def tamer_def)
  show 3: "tamer b (clearAssignmentLocked h c b)" for h c b
    by (simp add: clearAssignmentLocked_def tamer_def stopTimer_eq Let_def split: option.split)
  show "tamer b (broker_closeCorrelation g c b)" by (simp add: broker_closeCorrelation_def tamer_def stopTimer_eq split: option.split)
  show "tamer b (broker_expire x b)" by (simp add: broker_expire_def tamer_def split: option.split)
  show "tamer b (broker_deactivate g b)" by (simp add: broker_deactivate_def tamer_def)
  show "tamer b (snd (broker_assign_begin A now a b))"
    by (auto simp: broker_assign_begin_def 2 3 Let_def split: option.split) (simp_all add: tamer_def)
  show "tamer b (snd (broker_assign_end A rc a b))"
    by (simp add: broker_assign_end_def 2 Let_def)
qed

lemma tamer_open: "broker_open now g h b = (err, f, b') \<Longrightarrow> tamer b b'"
  by (erule open_cases) (auto simp: tamer_def failWith_eq evict_frame)

lemma tamer_deliver: "broker_deliver A now g c fr ms b = (err, f, b') \<Longrightarrow> tamer b b'"
  by (erule deliver_cases)
    (auto simp: tamer_def failWith_eq closeCorrelation_eq drop_one_def stopTimer_eq split: option.splits)

lemma tamer_deliverIPC: "broker_deliverIPCFrame A now g h c fr b = (err, f, b') \<Longrightarrow> tamer b b'"
  by (auto simp: broker_deliverIPCFrame_def dest: tamer_deliver split: sum.splits)

lemma tamer_do: "tamer b (broker_do A act b)"
proof -
  have "tamer b (b\<lparr>b_timers := t\<rparr>)" "tamer b (b\<lparr>b_opened := q\<rparr>)" "tamer b (b\<lparr>b_verified := r\<rparr>)" for t q r
    by (simp_all add: tamer_def)
  then show ?thesis by (cases act) (simp_all add: tamer_methods split: option.split)
qed

text \<open>The link is kept by tame broker methods, by session steps that do not close, and by closing.\<close>

lemma linked_tamer: "linked g (s, b) \<Longrightarrow> tamer b b' \<Longrightarrow> linked g (s, b')"
  by (auto simp: linked_def tamer_def)

lemma linked_session:
  "linked g (s, b) \<Longrightarrow> ss_generation s' = ss_generation s \<Longrightarrow> ss_done s' = ss_done s \<Longrightarrow> ss_closed s' = ss_closed s \<Longrightarrow> linked g (s', b)"
  by (simp add: linked_def)

lemma linked_close: "linked g (s, b) \<Longrightarrow> linked g (session_close A reason (s, b))"
  by (auto simp: linked_def session_close_unfold notify_all_keeps broker_deactivate_def)

lemma linked_fail: "linked g sb \<Longrightarrow> linked g (session_fail A reason sb)"
  by (cases sb) (simp add: session_fail_def linked_close)

lemma linked_run_fatal: "linked g sb \<Longrightarrow> linked g (run_fatal A err f sb)"
  by (auto simp: run_fatal_def linked_fail split: option.split)

lemma linked_frame [simp]:
  "linked g (s\<lparr>ss_pending := ps\<rparr>, b) = linked g (s, b)" "linked g (s\<lparr>ss_waiters := ws\<rparr>, b) = linked g (s, b)"
  "linked g (stopPendingTimer p s, b) = linked g (s, b)" "linked g (s\<lparr>ss_timers := ts\<rparr>, b) = linked g (s, b)"
  "linked g (s\<lparr>ss_ops := n\<rparr>, b) = linked g (s, b)" "linked g (s\<lparr>ss_writeSequence := sq\<rparr>, b) = linked g (s, b)"
  "linked g (s\<lparr>ss_sent := ps'\<rparr>, b) = linked g (s, b)" "linked g (s\<lparr>ss_next := m\<rparr>, b) = linked g (s, b)"
  by (simp_all add: linked_def)

lemma linked_removePending [simp]: "linked g (removePending k s, b) = linked g (s, b)"
  by (simp add: removePending_def split: option.split)

lemma linked_expirePending [simp]: "linked g (expirePending A k t s, b) = linked g (s, b)"
  by (simp add: expirePending_def split: option.split)

lemma handle_open_linked:
  assumes "linked g (s, b)"
  shows "linked g (snd (handle_open A now h (s, b)))"
proof -
  have "linked g (s, b1)" if "broker_open now g' h b = (err, f, b1)" for g' err f b1
    using linked_tamer [OF assms tamer_open [OF that]] .
  then show ?thesis by (auto simp: handle_open_def linked_fail linked_run_fatal split: prod.split option.split)
qed

lemma handle_ack_linked: "linked g (s, b) \<Longrightarrow> linked g (snd (handle_ack A now k st (s, b)))"
  by (simp add: handle_ack_def Let_def linked_fail split: option.split)

lemma handle_verified_linked:
  assumes "linked g (s, b)"
  shows "linked g (snd (handle_verified A now h pl (s, b)))"
proof -
  have d: "linked g (s, b1)" if "broker_deliverIPCFrame A now g' h c pl b = (err, f, b1)" for g' c err f b1
    using linked_tamer [OF assms tamer_deliverIPC [OF that]] .
  show ?thesis using assms
    by (auto simp: handle_verified_def Let_def linked_fail linked_run_fatal d split: sum.split option.split prod.split)
qed

lemma readLoop_step_linked:
  assumes "linked g (s, b)" "readLoop_step A now input sq (s, b) = Some (go, sq', sb)"
  shows "linked g sb"
proof -
  have "linked g (snd (handle_packet A now packet (s, b)))" for packet
    using assms(1) by (simp add: handle_packet_def handle_open_linked handle_ack_linked handle_verified_linked linked_fail)
  then show ?thesis using assms
    by (auto simp: readLoop_step_def linked_fail split: sum.splits read_error.splits option.splits prod.splits) (metis snd_conv)+
qed

definition sx_linked :: "u64 \<Rightarrow> 'e session_system \<Rightarrow> bool" where
  "sx_linked g x \<longleftrightarrow> linked g (sx_session x, sx_broker x)"

lemma assign_write_linked:
  assumes "linked g (s, b)" "assign_write A now result a (s, b) = Some (r, s', b')"
  shows "linked g (s', b')"
proof -
  have "linked g (s2, b2)" if "session_fail A err (t, b) = (s2, b2)" "linked g (t, b)" for err t s2 b2
    using linked_fail [OF that(2), of A err] that(1) by simp
  then show ?thesis using assms
    by (fastforce simp: assign_write_def Let_def split: if_splits option.splits prod.splits)
qed

lemma assign_frames:
  "assign_enter s = (r, s') \<Longrightarrow> linked g (s', b) = linked g (s, b)"
  "assign_register A now a s = (r', s') \<Longrightarrow> linked g (s', b) = linked g (s, b)"
  "assign_written A now a s = (r, s') \<Longrightarrow> linked g (s', b) = linked g (s, b)"
  "assign_finish A now wake a w s = Some (rc, s') \<Longrightarrow> linked g (s', b) = linked g (s, b)"
  "linked g (assign_return s, b) = linked g (s, b)"
  by (auto simp: assign_enter_def assign_register_def assign_written_def assign_finish_def assign_return_def Let_def
      split: if_splits wake.splits option.splits)

lemma sx_do_linked:
  assumes "sx_linked g x"
  shows "sx_linked g (sx_do A act x)"
proof -
  note l = assms [unfolded sx_linked_def]
  have t: "linked g (sx_session x, broker_do A act (sx_broker x))" for act by (rule linked_tamer [OF l tamer_do])
  show ?thesis
    by (cases act)
      (auto simp: sx_linked_def call_to_def call_return_def l t assign_frames assign_write_linked [OF l] readLoop_step_linked [OF l]
        split: sum.split option.split prod.split)
qed

lemma sx_run_linked: "sx_linked g x \<Longrightarrow> sx_linked g (sx_run A acts x)"
  unfolding sx_run_def by (induction acts arbitrary: x) (simp_all add: sx_do_linked)

section \<open>A closed session drains\<close>

definition sealed :: "'e subprocessIngressSession \<Rightarrow> bool" where
  "sealed s \<longleftrightarrow> ss_closed s \<and> \<not> ss_accepting s \<and> ss_done s"

lemma sealed_frame [simp]:
  "sealed (s\<lparr>ss_pending := ps\<rparr>) = sealed s" "sealed (s\<lparr>ss_waiters := ws\<rparr>) = sealed s" "sealed (stopPendingTimer p s) = sealed s"
  "sealed (s\<lparr>ss_timers := ts\<rparr>) = sealed s" "sealed (s\<lparr>ss_ops := n\<rparr>) = sealed s" "sealed (s\<lparr>ss_writeSequence := sq\<rparr>) = sealed s"
  "sealed (s\<lparr>ss_sent := ps'\<rparr>) = sealed s" "sealed (s\<lparr>ss_next := m\<rparr>) = sealed s"
  "sealed (removePending k s) = sealed s" "sealed (expirePending A k t s) = sealed s"
  by (simp_all add: sealed_def removePending_def expirePending_def split: option.split)

lemma sealed_fail: "sealed s \<Longrightarrow> session_fail A reason (s, b) = (s, b)"
  by (simp add: sealed_def session_fail_def session_close_unfold)

lemma sealed_run_fatal: "sealed s \<Longrightarrow> run_fatal A err f (s, b) = (s, b)"
  by (auto simp: run_fatal_def sealed_fail split: option.split)

lemma readLoop_step_sealed:
  assumes "sealed s" "readLoop_step A now input sq (s, b) = Some (go, sq', s', b')"
  shows "sealed s'"
proof -
  have "sealed (fst (snd (handle_packet A now packet (s, b))))" for packet
    using assms(1)
    by (auto simp: handle_packet_def handle_open_def handle_ack_def handle_verified_def sealed_fail sealed_run_fatal Let_def
        split: prod.split option.split sum.split)
  then show ?thesis using assms
    by (auto simp: readLoop_step_def sealed_fail split: sum.splits read_error.splits option.splits prod.splits) (metis fst_conv snd_conv)+
qed

lemma assign_sealed:
  "assign_register A now a s = (r', s') \<Longrightarrow> sealed s' = sealed s"
  "sealed s \<Longrightarrow> assign_write A now result a (s, b) = Some (r, s', b') \<Longrightarrow> sealed s'"
  "assign_written A now a s = (r, s') \<Longrightarrow> sealed s' = sealed s"
  "assign_finish A now wake a w s = Some (rc, s') \<Longrightarrow> sealed s' = sealed s"
  "sealed (assign_return s) = sealed s"
  by (auto simp: assign_register_def assign_write_def assign_written_def assign_finish_def assign_return_def
      sealed_fail Let_def split: if_splits wake.splits option.splits prod.splits)

lemma sealed_enter: "sealed s \<Longrightarrow> assign_enter s = (Inl embeddedAssignmentTransportFailure, s)"
  by (simp add: sealed_def assign_enter_def)

lemma work_frame [simp]:
  "sx_work (x\<lparr>sx_session := s\<rparr>) = sx_work x" "sx_work (x\<lparr>sx_broker := b\<rparr>) = sx_work x"
  "sx_work (x\<lparr>sx_owner := o'\<rparr>) = sx_work x" "sx_work (x\<lparr>sx_firing := f\<rparr>) = sx_work x"
  by (simp_all add: sx_work_def)

lemma phase_work_pos: "0 < phase_work ph"
  by (cases ph) auto

lemma work_to:
  assumes "c \<in> set (sx_calls x)" "phase_work (snd c') < phase_work (snd c)"
  shows "sx_work (call_to c c' x) < sx_work x"
  using assms sum_list_map_remove1 [of c "sx_calls x" "phase_work \<circ> snd"] by (simp add: sx_work_def call_to_def)

lemma work_return:
  assumes "c \<in> set (sx_calls x)"
  shows "sx_work (call_return c x) < sx_work x"
  using assms sum_list_map_remove1 [of c "sx_calls x" "phase_work \<circ> snd"] phase_work_pos [of "snd c"]
  by (simp add: sx_work_def call_return_def)

lemma call_moves:
  assumes "(a, ph) \<in> set (sx_calls x)"
  shows "sx_work (call_return (a, ph) (x\<lparr>sx_session := s\<rparr>)) < sx_work x"
    "sx_work (call_return (a, ph) (x\<lparr>sx_session := s, sx_broker := b\<rparr>)) < sx_work x"
    "phase_work ph' < phase_work ph \<Longrightarrow> sx_work (call_to (a, ph) (a, ph') (x\<lparr>sx_session := s\<rparr>)) < sx_work x"
    "phase_work ph' < phase_work ph \<Longrightarrow> sx_work (call_to (a, ph) (a, ph') (x\<lparr>sx_session := s, sx_broker := b\<rparr>)) < sx_work x"
  using assms work_return [of "(a, ph)" "x\<lparr>sx_session := s\<rparr>"] work_return [of "(a, ph)" "x\<lparr>sx_session := s, sx_broker := b\<rparr>"]
    work_to [of "(a, ph)" "x\<lparr>sx_session := s\<rparr>" "(a, ph')"] work_to [of "(a, ph)" "x\<lparr>sx_session := s, sx_broker := b\<rparr>" "(a, ph')"]
  by simp_all

lemma call_session [simp]:
  "sx_session (call_to c c' x) = sx_session x" "sx_session (call_return c x) = assign_return (sx_session x)"
  by (simp_all add: call_to_def call_return_def)

lemma sx_do_sealed:
  assumes s: "sealed (sx_session x)"
  shows "sealed (sx_session (sx_do A act x)) \<and> sx_work (sx_do A act x) \<le> sx_work x"
proof (cases act)
  case (DoEnter a)
  then show ?thesis using s by (simp add: sealed_enter)
next
  case (DoRegister now a)
  then show ?thesis using s call_moves [of a Entered x]
    by (auto simp: assign_sealed less_imp_le split: sum.split prod.split)
next
  case (DoWrite now result a w)
  then show ?thesis using s call_moves [of a "Registered w" x]
    by (auto simp: assign_sealed less_imp_le split: sum.split prod.split option.split)
next
  case (DoWritten now a w)
  then show ?thesis using s call_moves [of a "Written w" x]
    by (auto simp: assign_sealed less_imp_le split: sum.split prod.split)
next
  case (DoFinish now wake a w)
  then show ?thesis using s call_moves [of a "Waiting w" x]
    by (auto simp: assign_sealed less_imp_le split: prod.split option.split)
next
  case (DoRead now input)
  then show ?thesis using s by (auto simp: sx_work_def readLoop_step_sealed split: prod.split option.split)
qed (use s in \<open>auto split: option.split\<close>)

text \<open>
  The next step of a call in progress on a closed session, taken at the moment its assignment expires: none of
  them has to wait for anything. The read loop sees its connection closed.
\<close>

fun drain_act :: "ConnectionAssignment \<times> call_phase \<Rightarrow> 'e action" where
  "drain_act (a, Entered) = DoRegister 0 a"
| "drain_act (a, Registered w) = DoWrite (ca_expiresAt a) (0, None) a w"
| "drain_act (a, Written w) = DoWritten (ca_expiresAt a) a w"
| "drain_act (a, Waiting w) = DoFinish 0 WakeDone a w"

lemma drain_act_progress:
  assumes "sealed (sx_session x)" "c \<in> set (sx_calls x)"
  shows "sx_work (sx_do A (drain_act c) x) < sx_work x"
proof -
  obtain a ph where c: "c = (a, ph)" by force
  have no: "\<not> remaining_ok A (ca_expiresAt a) a" by (simp add: remaining_ok_def time_sub_def)
  have "ss_done (sx_session x)" using assms(1) by (simp add: sealed_def)
  then show ?thesis using assms(2) work_return [OF assms(2)] call_moves [of a ph x] no
    by (cases ph) (auto simp: c assign_write_def assign_written_def assign_finish_def split: sum.split prod.split)
qed

lemma drain_read_progress:
  assumes "sx_reading x"
  shows "sx_work (sx_do A (DoRead now (Inl ReadClosed)) x) < sx_work x"
proof -
  obtain s b where "session_fail A EOFErr (sx_session x, sx_broker x) = (s, b)" by force
  then show ?thesis using assms by (simp add: sx_work_def readLoop_step_def)
qed

definition next_act :: "'e session_system \<Rightarrow> 'e action" where
  "next_act x = (case sx_calls x of c # _ \<Rightarrow> drain_act c | [] \<Rightarrow> DoRead 0 (Inl ReadClosed))"

primrec drain_sched :: "abi \<Rightarrow> nat \<Rightarrow> 'e session_system \<Rightarrow> 'e action list" where
  "drain_sched A 0 x = []"
| "drain_sched A (Suc n) x = next_act x # drain_sched A n (sx_do A (next_act x) x)"

lemma next_act_progress:
  assumes "sealed (sx_session x)" "0 < sx_work x"
  shows "sx_work (sx_do A (next_act x) x) < sx_work x"
proof (cases "sx_calls x")
  case Nil
  then have "sx_reading x" using assms(2) by (simp add: sx_work_def split: if_splits)
  then show ?thesis using drain_read_progress Nil by (simp add: next_act_def del: sx_do.simps)
next
  case (Cons c cs)
  then show ?thesis using drain_act_progress [OF assms(1), of c A] by (simp add: next_act_def del: sx_do.simps)
qed

lemma drain_sched_drains:
  assumes "sealed (sx_session x)" "sx_work x \<le> n"
  shows "sx_work (sx_run A (drain_sched A n x) x) = 0"
  using assms
proof (induction n arbitrary: x)
  case (Suc n)
  let ?y = "sx_do A (next_act x) x"
  have "sealed (sx_session ?y)" using sx_do_sealed [OF Suc.prems(1)] by blast
  moreover have "sx_work ?y \<le> n"
    using sx_do_sealed [OF Suc.prems(1), of A "next_act x"] next_act_progress [OF Suc.prems(1), of A] Suc.prems(2)
    by (cases "sx_work x = 0") auto
  ultimately show ?case using Suc.IH [of ?y] by (simp add: sx_run_def)
qed (simp add: sx_run_def)

lemma sx_run_sealed: "sealed (sx_session x) \<Longrightarrow> sealed (sx_session (sx_run A acts x))"
  unfolding sx_run_def by (induction acts arbitrary: x) (simp_all add: sx_do_sealed)

lemma length_drain_sched [simp]: "length (drain_sched A n x) = n"
  by (induction n arbitrary: x) simp_all

lemma drained_waits:
  assumes "ident_ok g key x" "sx_work x = 0"
  shows "session_wait (sx_reading x) (sx_session x) =
    Some ((sx_session x)\<lparr>ss_key := map (\<lambda>_. 0) (ss_key (sx_session x))\<rparr>)"
proof -
  have "sx_calls x = []"
  proof (cases "sx_calls x")
    case (Cons c cs)
    then show ?thesis using assms(2) by (cases c; cases "snd c") (auto simp: sx_work_def)
  qed simp
  then show ?thesis using assms by (simp add: session_wait_def ident_ok_def sx_work_def split: if_splits)
qed


text \<open>A session that is closed while a call has just entered it.\<close>

lemma demo_closed_run:
  "\<exists>es y. run (sxstep abi_v1) demo_session es y \<and> ss_closed (sx_session y) \<and> sx_work y = 5"
proof -
  let ?s1 = "(newSubprocessIngressSession 7 demo_key)\<lparr>ss_ops := 1\<rparr> :: unit subprocessIngressSession"
  let ?x1 = "demo_session\<lparr>sx_session := ?s1, sx_calls := [(demo_assignment, Entered)]\<rparr>"
  have 1: "sxstep abi_v1 demo_session (XEnter demo_assignment) ?x1"
    using sx_enter [of demo_session ?s1 abi_v1 demo_assignment]
    by (simp add: assign_enter_def demo_session_def newSubprocessIngressSession_def)
  obtain s b where c: "session_close abi_v1 None (sx_session ?x1, sx_broker ?x1) = (s, b)" by force
  have s: "ss_closed s" using c by (auto simp: session_close_unfold newSubprocessIngressSession_def notify_all_def)
  have 2: "sxstep abi_v1 ?x1 (XClose) (?x1\<lparr>sx_session := s, sx_broker := b\<rparr>)"
    by (rule sx_close [OF c])
  have "run (sxstep abi_v1) demo_session [XEnter demo_assignment, XClose] (?x1\<lparr>sx_session := s, sx_broker := b\<rparr>)"
    by (rule run_cons [of "sxstep abi_v1", OF 1]) (rule run_one [of "sxstep abi_v1", OF 2])
  then show ?thesis using s by (force simp: sx_work_def demo_session_def)
qed


end
