(* ===== verification/Go_Strings.thy ===== *)
theory Go_Strings
  imports Go_Runtime
begin

text \<open>
  Go strings and the parts of \<open>strings\<close>, \<open>strconv\<close>, \<open>encoding/hex\<close> and \<open>path/filepath\<close> that
  the repository calls. A Go string is a sequence of bytes, here a list of \<open>char\<close>. Where the
  library looks at runes (white space, lower case), the UTF-8 encodings are spelled out.
  Paths are Unix paths.
\<close>

section \<open>Bytes\<close>

lemma unat_u8_lt: "unat (x :: u8) < 256"
  using unsigned_less [of x, where 'a = nat] by simp

definition string_of_bytes :: "bytes \<Rightarrow> string" where
  "string_of_bytes = map (\<lambda>b. char_of (unat b))"

definition bytes_of_string :: "string \<Rightarrow> bytes" where
  "bytes_of_string = map (\<lambda>c. of_nat (of_char c))"

lemma string_of_bytes_of_string [simp]: "string_of_bytes (bytes_of_string s) = s"
proof -
  have "char_of (unat (of_nat (of_char c) :: u8)) = c" for c :: char
    by (simp add: unat_of_nat char_of_take_bit_eq)
  then show ?thesis by (simp add: string_of_bytes_def bytes_of_string_def map_idI)
qed

lemma bytes_of_string_of_bytes [simp]: "bytes_of_string (string_of_bytes b) = b"
proof -
  have "of_nat (of_char (char_of (unat (x :: u8)))) = x" for x :: u8
  proof -
    have "unat x < 256" by (rule unat_u8_lt)
    then have "of_char (char_of (unat x)) = unat x" by (simp add: of_char_of)
    then show ?thesis by simp
  qed
  then show ?thesis by (simp add: string_of_bytes_def bytes_of_string_def map_idI)
qed

lemma length_string_of_bytes [simp]: "length (string_of_bytes b) = length b"
  by (simp add: string_of_bytes_def)

section \<open>strings\<close>

definition HasPrefix :: "string \<Rightarrow> string \<Rightarrow> bool" where
  "HasPrefix s p \<longleftrightarrow> take (length p) s = p"

definition HasSuffix :: "string \<Rightarrow> string \<Rightarrow> bool" where
  "HasSuffix s p \<longleftrightarrow> length p \<le> length s \<and> drop (length s - length p) s = p"

definition TrimPrefix :: "string \<Rightarrow> string \<Rightarrow> string" where
  "TrimPrefix s p = (if HasPrefix s p then drop (length p) s else s)"

definition TrimSuffix :: "string \<Rightarrow> string \<Rightarrow> string" where
  "TrimSuffix s p = (if HasSuffix s p then take (length s - length p) s else s)"

text \<open>\<open>strings.Index\<close> and \<open>strings.LastIndex\<close> of a one-byte string; \<open>None\<close> stands for -1.\<close>

fun IndexByte :: "char \<Rightarrow> string \<Rightarrow> nat option" where
  "IndexByte c [] = None"
| "IndexByte c (x # xs) = (if x = c then Some 0 else map_option Suc (IndexByte c xs))"

fun LastIndexByte :: "char \<Rightarrow> string \<Rightarrow> nat option" where
  "LastIndexByte c [] = None"
| "LastIndexByte c (x # xs) =
     (case LastIndexByte c xs of Some i \<Rightarrow> Some (Suc i) | None \<Rightarrow> if x = c then Some 0 else None)"

text \<open>\<open>strings.Split\<close> with a one-byte separator.\<close>

fun SplitByte :: "char \<Rightarrow> string \<Rightarrow> string list" where
  "SplitByte c [] = [[]]"
| "SplitByte c (x # xs) =
     (if x = c then [] # SplitByte c xs
      else case SplitByte c xs of [] \<Rightarrow> [[x]] | p # ps \<Rightarrow> (x # p) # ps)"

fun JoinByte :: "char \<Rightarrow> string list \<Rightarrow> string" where
  "JoinByte c [] = []"
| "JoinByte c [p] = p"
| "JoinByte c (p # ps) = p @ c # JoinByte c ps"

lemma SplitByte_not_Nil [simp]: "SplitByte c s \<noteq> []"
  by (induction s) (auto split: list.splits)

lemma JoinByte_Cons: "ps \<noteq> [] \<Longrightarrow> JoinByte c (p # ps) = p @ c # JoinByte c ps"
  by (cases ps) auto

lemma Join_Split [simp]: "JoinByte c (SplitByte c s) = s"
proof (induction s)
  case (Cons x s)
  then show ?case
    by (cases "SplitByte c s"; cases "tl (SplitByte c s)") (auto simp: JoinByte_Cons)
qed simp

lemma SplitByte_no_sep: "p \<in> set (SplitByte c s) \<Longrightarrow> c \<notin> set p"
  by (induction s arbitrary: p) (auto split: list.splits if_splits)

lemma SplitByte_append: "c \<notin> set p \<Longrightarrow> SplitByte c (p @ c # s) = p # SplitByte c s"
  by (induction p) auto

lemma SplitByte_single: "c \<notin> set p \<Longrightarrow> SplitByte c p = [p]"
  by (induction p) auto

lemma Split_Join: "ps \<noteq> [] \<Longrightarrow> (\<forall>p\<in>set ps. c \<notin> set p) \<Longrightarrow> SplitByte c (JoinByte c ps) = ps"
  by (induction c ps rule: JoinByte.induct) (auto simp: SplitByte_append SplitByte_single)

lemma IndexByte_None [simp]: "IndexByte c s = None \<longleftrightarrow> c \<notin> set s"
  by (induction s) auto

lemma IndexByte_append: "c \<notin> set p \<Longrightarrow> IndexByte c (p @ c # s) = Some (length p)"
  by (induction p) auto

lemma LastIndexByte_None [simp]: "LastIndexByte c s = None \<longleftrightarrow> c \<notin> set s"
  by (induction s) (auto split: option.splits)

lemma LastIndexByte_append: "c \<notin> set s \<Longrightarrow> LastIndexByte c (p @ c # s) = Some (length p)"
  by (induction p) (auto split: option.splits)

lemma IndexByte_Some_split: "IndexByte c s = Some i \<Longrightarrow> i < length s \<and> s ! i = c \<and> c \<notin> set (take i s)"
  by (induction s arbitrary: i) (auto split: if_splits)

lemma LastIndexByte_Some_split: "LastIndexByte c s = Some i \<Longrightarrow> i < length s \<and> s ! i = c \<and> c \<notin> set (drop (Suc i) s)"
  by (induction s arbitrary: i) (auto split: if_splits option.splits)

subsection \<open>White space\<close>

text \<open>
  The number of bytes of a white-space rune (\<open>unicode.IsSpace\<close>) at the start of the string, or
  zero. Lead bytes never occur inside another rune, so scanning byte by byte finds the same
  runes as decoding.
\<close>

fun space_rune :: "nat list \<Rightarrow> nat" where
  "space_rune [] = 0"
| "space_rune [a] = (if a \<in> {9, 10, 11, 12, 13, 32} then 1 else 0)"
| "space_rune [a, b] =
     (if a \<in> {9, 10, 11, 12, 13, 32} then 1
      else if a = 194 \<and> (b = 133 \<or> b = 160) then 2 else 0)"
| "space_rune (a # b # c # _) =
     (if a \<in> {9, 10, 11, 12, 13, 32} then 1
      else if a = 194 \<and> (b = 133 \<or> b = 160) then 2
      else if a = 225 \<and> b = 154 \<and> c = 128 then 3
      else if a = 226 \<and> b = 128 \<and> (128 \<le> c \<and> c \<le> 138 \<or> c \<in> {168, 169, 175}) then 3
      else if a = 226 \<and> b = 129 \<and> c = 159 then 3
      else if a = 227 \<and> b = 128 \<and> c = 128 then 3
      else 0)"

definition space_at :: "string \<Rightarrow> nat" where
  "space_at s = space_rune (map of_char (take 3 s))"

lemma space_rune_le: "space_rune xs \<le> length xs"
  by (cases xs rule: space_rune.cases) auto

lemma space_at_le: "space_at s \<le> length s"
  using space_rune_le [of "map of_char (take 3 s)"] by (simp add: space_at_def)

function TrimLeftSpace :: "string \<Rightarrow> string" where
  "TrimLeftSpace s = (if space_at s = 0 then s else TrimLeftSpace (drop (space_at s) s))"
  by pat_completeness auto
termination
proof (relation "measure length")
  fix s :: string assume "space_at s \<noteq> 0"
  with space_at_le [of s] show "(drop (space_at s) s, s) \<in> measure length" by auto
qed simp

declare TrimLeftSpace.simps [simp del]

text \<open>The white-space rune a string ends with.\<close>

definition space_end :: "string \<Rightarrow> nat" where
  "space_end s =
     (if s = [] then 0
      else if space_at (drop (length s - 1) s) = 1 then 1
      else if 2 \<le> length s \<and> space_at (drop (length s - 2) s) = 2 then 2
      else if 3 \<le> length s \<and> space_at (drop (length s - 3) s) = 3 then 3
      else 0)"

lemma space_end_le: "space_end s \<le> length s"
  by (auto simp: space_end_def Suc_le_eq)

function TrimRightSpace :: "string \<Rightarrow> string" where
  "TrimRightSpace s = (if space_end s = 0 then s else TrimRightSpace (take (length s - space_end s) s))"
  by pat_completeness auto
termination
proof (relation "measure length")
  fix s :: string assume "space_end s \<noteq> 0"
  with space_end_le [of s] show "(take (length s - space_end s) s, s) \<in> measure length" by auto
qed simp

declare TrimRightSpace.simps [simp del]

definition TrimSpace :: "string \<Rightarrow> string" where
  "TrimSpace s = TrimRightSpace (TrimLeftSpace s)"

text \<open>\<open>strings.Fields\<close>: the maximal runs without white space; \<open>acc\<close> is the current run.\<close>

function fieldsLoop :: "string \<Rightarrow> string \<Rightarrow> string list" where
  "fieldsLoop acc s =
     (if s = [] then (if acc = [] then [] else [acc])
      else if space_at s = 0 then fieldsLoop (acc @ [hd s]) (tl s)
      else (if acc = [] then [] else [acc]) @ fieldsLoop [] (drop (space_at s) s))"
  by pat_completeness auto
termination
  by (relation "measure (\<lambda>(acc, s). length s)") (auto intro: diff_less)

declare fieldsLoop.simps [simp del]

definition Fields :: "string \<Rightarrow> string list" where
  "Fields s = fieldsLoop [] s"

text \<open>Printable ASCII bytes other than the blank are part of no white-space rune.\<close>

definition graphic :: "char \<Rightarrow> bool" where
  "graphic c \<longleftrightarrow> 33 \<le> (of_char c :: nat) \<and> (of_char c :: nat) \<le> 126"

lemma space_at_graphic: "graphic c \<Longrightarrow> space_at (c # s) = 0"
  by (cases "map (of_char :: char \<Rightarrow> nat) (take 3 (c # s))" rule: space_rune.cases)
    (auto simp: space_at_def graphic_def)

lemma space_at_ascii: "(of_char c :: nat) \<in> {9, 10, 11, 12, 13, 32} \<Longrightarrow> space_at (c # s) = 1"
  by (cases "map (of_char :: char \<Rightarrow> nat) (take 3 (c # s))" rule: space_rune.cases)
    (auto simp: space_at_def)

lemma fieldsLoop_Nil: "fieldsLoop acc [] = (if acc = [] then [] else [acc])"
  by (subst fieldsLoop.simps) simp

lemma fieldsLoop_graphic:
  "(\<forall>c\<in>set p. graphic c) \<Longrightarrow> fieldsLoop acc (p @ s) = fieldsLoop (acc @ p) s"
proof (induction p arbitrary: acc)
  case (Cons c p)
  then show ?case by (subst fieldsLoop.simps) (simp add: space_at_graphic)
qed simp

lemma fieldsLoop_space:
  "(of_char c :: nat) \<in> {9, 10, 11, 12, 13, 32} \<Longrightarrow>
    fieldsLoop acc (c # s) = (if acc = [] then [] else [acc]) @ fieldsLoop [] s"
  by (subst fieldsLoop.simps) (simp add: space_at_ascii)

lemma TrimLeftSpace_graphic: "graphic c \<Longrightarrow> TrimLeftSpace (c # s) = c # s"
  by (subst TrimLeftSpace.simps) (simp add: space_at_graphic)

lemma space_end_graphic: "graphic c \<Longrightarrow> space_end (s @ [c]) = 0"
proof -
  assume g: "graphic c"
  have *: "space_at (xs @ [c]) \<noteq> Suc (length xs)" for xs
    using g space_rune.simps
    by (cases "map (of_char :: char \<Rightarrow> nat) (take 3 (xs @ [c]))" rule: space_rune.cases; cases xs;
        cases "tl xs"; cases "tl (tl xs)")
      (auto simp: space_at_def graphic_def split: if_splits)
  show ?thesis
  proof (cases s rule: rev_cases)
    case Nil with g show ?thesis using * [of "[]"] by (simp add: space_end_def)
  next
    case (snoc t x)
    then show ?thesis
      using * [of "[]"] * [of "[x]"] * [of "[last t, x]"]
      by (cases t rule: rev_cases) (auto simp: space_end_def)
  qed
qed

lemma TrimRightSpace_graphic: "graphic c \<Longrightarrow> TrimRightSpace (s @ [c]) = s @ [c]"
  by (subst TrimRightSpace.simps) (simp add: space_end_graphic)

lemma TrimSpace_graphic:
  assumes "\<forall>c\<in>set s. graphic c"
  shows "TrimSpace s = s"
proof (cases s)
  case Nil
  then show ?thesis
    by (simp add: TrimSpace_def TrimLeftSpace.simps TrimRightSpace.simps space_at_def space_end_def)
next
  case (Cons x xs)
  then have "TrimLeftSpace s = s" using assms by (simp add: TrimLeftSpace_graphic)
  moreover have "TrimRightSpace (butlast s @ [last s]) = butlast s @ [last s]"
    by (rule TrimRightSpace_graphic) (use assms Cons in simp)
  moreover have "butlast s @ [last s] = s" using Cons by (intro append_butlast_last_id) simp
  ultimately show ?thesis by (metis TrimSpace_def)
qed

subsection \<open>Lower case\<close>

text \<open>
  \<open>strings.ToLower\<close> up to the choice of non-ASCII letters: the ASCII capitals, and the two
  other runes whose lower case is an ASCII letter (U+0130 and U+212A). All other non-ASCII runes
  map to non-ASCII runes; their bytes are left as they are, which no comparison with an ASCII
  word can tell.
\<close>

definition lower_char :: "char \<Rightarrow> char" where
  "lower_char c = (let n = of_char c :: nat in if 65 \<le> n \<and> n \<le> 90 then char_of (n + 32) else c)"

fun ToLower :: "string \<Rightarrow> string" where
  "ToLower [] = []"
| "ToLower [a] = [lower_char a]"
| "ToLower [a, b] = (if a = CHR 0xC4 \<and> b = CHR 0xB0 then ''i'' else lower_char a # ToLower [b])"
| "ToLower (a # b # c # s) =
     (if a = CHR 0xC4 \<and> b = CHR 0xB0 then CHR ''i'' # ToLower (c # s)
      else if a = CHR 0xE2 \<and> b = CHR 0x84 \<and> c = CHR 0xAA then CHR ''k'' # ToLower s
      else lower_char a # ToLower (b # c # s))"

definition ascii :: "char \<Rightarrow> bool" where
  "ascii c \<longleftrightarrow> (of_char c :: nat) < 128"

lemma ToLower_ascii: "(\<forall>c\<in>set s. ascii c) \<Longrightarrow> ToLower s = map lower_char s"
  by (induction s rule: ToLower.induct) (auto simp: ascii_def)

section \<open>strconv.Atoi\<close>

text \<open>
  \<open>ParseUint\<close> looks at the characters one by one and stops at the first that is no digit or
  that makes the value exceed 64 bits. \<open>Atoi\<close> yields the value (clamped when out of range) and
  whether there was an error.
\<close>

datatype num_result = NumOK nat | NumSyntax | NumRange

definition digit_val :: "char \<Rightarrow> nat option" where
  "digit_val c = (let n = of_char c :: nat in if 48 \<le> n \<and> n \<le> 57 then Some (n - 48) else None)"

fun parseDigits :: "nat \<Rightarrow> string \<Rightarrow> num_result" where
  "parseDigits n [] = NumOK n"
| "parseDigits n (c # cs) =
     (case digit_val c of
        None \<Rightarrow> NumSyntax
      | Some d \<Rightarrow> if n * 10 + d \<ge> 2 ^ 64 then NumRange else parseDigits (n * 10 + d) cs)"

definition Atoi :: "string \<Rightarrow> int \<times> bool" where
  "Atoi s =
     (let neg = (s \<noteq> [] \<and> hd s = CHR ''-'');
          ds = (if s \<noteq> [] \<and> (hd s = CHR ''-'' \<or> hd s = CHR ''+'') then tl s else s)
      in if ds = [] then (0, False)
         else case parseDigits 0 ds of
           NumSyntax \<Rightarrow> (0, False)
         | NumRange \<Rightarrow> (if neg then - (2 ^ 63) else 2 ^ 63 - 1, False)
         | NumOK n \<Rightarrow>
             if \<not> neg \<and> n \<ge> 2 ^ 63 then (2 ^ 63 - 1, False)
             else if neg \<and> n > 2 ^ 63 then (- (2 ^ 63), False)
             else (if neg then - int n else int n, True))"

text \<open>Decimal printing, the inverse.\<close>

fun show_nat :: "nat \<Rightarrow> string" where
  "show_nat n = (if n < 10 then [char_of (48 + n)] else show_nat (n div 10) @ [char_of (48 + n mod 10)])"

declare show_nat.simps [simp del]

lemma digit_val_char [simp]: "d < 10 \<Longrightarrow> digit_val (char_of (48 + d)) = Some d"
  by (simp add: digit_val_def of_char_of)

lemma digit_val_lt: "digit_val c = Some d \<Longrightarrow> d < 10"
  by (auto simp: digit_val_def Let_def split: if_splits)

lemma parseDigits_append:
  "parseDigits n (xs @ ys) = (case parseDigits n xs of NumOK m \<Rightarrow> parseDigits m ys | r \<Rightarrow> r)"
  by (induction n xs rule: parseDigits.induct) (auto split: option.splits)

lemma parse_show: "n < 2 ^ 64 \<Longrightarrow> parseDigits 0 (show_nat n) = NumOK n"
proof (induction n rule: show_nat.induct)
  case (1 n)
  show ?case
  proof (cases "n < 10")
    case True
    then show ?thesis by (subst show_nat.simps) simp
  next
    case False
    moreover have "n div 10 < 2 ^ 64" using 1(2) by simp
    ultimately have "parseDigits 0 (show_nat (n div 10)) = NumOK (n div 10)" using 1(1) by blast
    moreover have "n div 10 * 10 + n mod 10 = n" by simp
    ultimately show ?thesis using False 1(2)
      by (subst show_nat.simps) (simp add: parseDigits_append)
  qed
qed

lemma show_nat_ne [simp]: "show_nat n \<noteq> []"
  by (subst show_nat.simps) simp

lemma show_nat_digits: "c \<in> set (show_nat n) \<Longrightarrow> 48 \<le> (of_char c :: nat) \<and> (of_char c :: nat) \<le> 57"
proof (induction n rule: show_nat.induct)
  case (1 n)
  show ?case
  proof (cases "n < 10")
    case True
    with 1(2) show ?thesis by (auto simp: show_nat.simps [of n] of_char_of)
  next
    case False
    with 1 show ?thesis by (auto simp: show_nat.simps [of n] of_char_of)
  qed
qed

lemma Atoi_show: "n < 2 ^ 63 \<Longrightarrow> Atoi (show_nat n) = (int n, True)"
proof -
  assume n: "n < 2 ^ 63"
  have d: "hd (show_nat n) \<noteq> CHR ''-''" "hd (show_nat n) \<noteq> CHR ''+''"
    using show_nat_digits [of "hd (show_nat n)" n] by auto
  show ?thesis using n d parse_show [of n] by (simp add: Atoi_def)
qed

lemma Atoi_range: "- (2 ^ 63) \<le> fst (Atoi s) \<and> fst (Atoi s) < 2 ^ 63"
  by (auto simp: Atoi_def Let_def split: num_result.splits)

section \<open>encoding/hex\<close>

definition hex_digit :: "nat \<Rightarrow> char" where
  "hex_digit n = (if n < 10 then char_of (48 + n) else char_of (87 + n))"

definition hexEncode :: "bytes \<Rightarrow> string" where
  "hexEncode bs = concat (map (\<lambda>b. [hex_digit (unat b div 16), hex_digit (unat b mod 16)]) bs)"

definition hex_val :: "char \<Rightarrow> nat option" where
  "hex_val c =
     (let n = of_char c :: nat in
      if 48 \<le> n \<and> n \<le> 57 then Some (n - 48)
      else if 97 \<le> n \<and> n \<le> 102 then Some (n - 87)
      else if 65 \<le> n \<and> n \<le> 70 then Some (n - 55)
      else None)"

text \<open>\<open>hex.DecodeString\<close>; \<open>None\<close> is the error, of an invalid byte or of an odd length.\<close>

fun hexDecode :: "string \<Rightarrow> bytes option" where
  "hexDecode [] = Some []"
| "hexDecode [_] = None"
| "hexDecode (a # b # s) =
     (case (hex_val a, hex_val b) of
        (Some h, Some l) \<Rightarrow> map_option (\<lambda>bs. of_nat (16 * h + l) # bs) (hexDecode s)
      | _ \<Rightarrow> None)"

lemma hex_val_digit [simp]: "n < 16 \<Longrightarrow> hex_val (hex_digit n) = Some n"
  by (auto simp: hex_val_def hex_digit_def of_char_of Let_def)

lemma hexDecode_Encode [simp]: "hexDecode (hexEncode bs) = Some bs"
proof (induction bs)
  case (Cons b bs)
  have "unat b < 256" by (rule unat_u8_lt)
  then show ?case using Cons by (simp add: hexEncode_def)
qed (simp add: hexEncode_def)

lemma length_hexEncode [simp]: "length (hexEncode bs) = 2 * length bs"
  by (induction bs) (simp_all add: hexEncode_def)

lemma hexEncode_inject [simp]: "hexEncode a = hexEncode b \<longleftrightarrow> a = b"
  by (metis hexDecode_Encode option.inject)

lemma hex_digit_range:
  "n < 16 \<Longrightarrow> 48 \<le> (of_char (hex_digit n) :: nat) \<and> (of_char (hex_digit n) :: nat) \<le> 57 \<or>
    97 \<le> (of_char (hex_digit n) :: nat) \<and> (of_char (hex_digit n) :: nat) \<le> 102"
  by (auto simp: hex_digit_def of_char_of)

lemma hexEncode_range:
  assumes "c \<in> set (hexEncode bs)"
  shows "48 \<le> (of_char c :: nat) \<and> (of_char c :: nat) \<le> 57 \<or> 97 \<le> (of_char c :: nat) \<and> (of_char c :: nat) \<le> 102"
proof -
  have "\<exists>b \<in> set bs. c = hex_digit (unat b div 16) \<or> c = hex_digit (unat b mod 16)"
    using assms by (auto simp: hexEncode_def)
  then obtain b :: u8 where "c = hex_digit (unat b div 16) \<or> c = hex_digit (unat b mod 16)" by blast
  moreover have "unat b div 16 < 16" "unat b mod 16 < 16" using unat_u8_lt [of b] by simp_all
  ultimately show ?thesis
    using hex_digit_range [of "unat b div 16"] hex_digit_range [of "unat b mod 16"] by auto
qed

lemma hexEncode_graphic: "c \<in> set (hexEncode bs) \<Longrightarrow> graphic c"
  using hexEncode_range [of c bs] by (auto simp: graphic_def)

lemma hexEncode_ascii: "c \<in> set (hexEncode bs) \<Longrightarrow> ascii c"
  using hexEncode_range [of c bs] by (auto simp: ascii_def)

lemma hexEncode_lower: "c \<in> set (hexEncode bs) \<Longrightarrow> lower_char c = c"
  using hexEncode_range [of c bs] by (auto simp: lower_char_def Let_def)

lemma ToLower_hexEncode [simp]: "ToLower (hexEncode bs) = hexEncode bs"
  by (simp add: ToLower_ascii hexEncode_ascii hexEncode_lower map_idI)

section \<open>path/filepath\<close>

text \<open>
  \<open>filepath.Clean\<close> on the components of a path and \<open>filepath.Join\<close>, which joins the nonempty
  elements with slashes and cleans the result. The accumulator of \<open>clean_parts\<close> is reversed.
\<close>

fun clean_parts :: "bool \<Rightarrow> string list \<Rightarrow> string list \<Rightarrow> string list" where
  "clean_parts rooted acc [] = rev acc"
| "clean_parts rooted acc (p # ps) =
     (if p = [] \<or> p = ''.'' then clean_parts rooted acc ps
      else if p = ''..'' then
        (if acc \<noteq> [] \<and> hd acc \<noteq> ''..'' then clean_parts rooted (tl acc) ps
         else if rooted then clean_parts rooted acc ps
         else clean_parts rooted (p # acc) ps)
      else clean_parts rooted (p # acc) ps)"

definition path_clean :: "string \<Rightarrow> string" where
  "path_clean s =
     (let rooted = HasPrefix s ''/'';
          body = JoinByte CHR ''/'' (clean_parts rooted [] (SplitByte CHR ''/'' s))
      in if rooted then CHR ''/'' # body else if body = [] then ''.'' else body)"

definition path_join :: "string list \<Rightarrow> string" where
  "path_join ps =
     (let qs = filter (\<lambda>p. p \<noteq> []) ps
      in if qs = [] then [] else path_clean (JoinByte CHR ''/'' qs))"

text \<open>\<open>filepath.Dir\<close>: everything up to the last slash, cleaned.\<close>

definition path_dir :: "string \<Rightarrow> string" where
  "path_dir s =
     path_clean (case LastIndexByte CHR ''/'' s of None \<Rightarrow> [] | Some i \<Rightarrow> take (Suc i) s)"

definition SplitList :: "string \<Rightarrow> string list" where
  "SplitList s = (if s = [] then [] else SplitByte CHR '':'' s)"

end
