(* ===== verification/Options.thy ===== *)
theory Options
  imports Go_Strings
begin

text \<open>
  The configuration surface of the library: the types of \<^verbatim>\<open>go/geyserlite.go\<close>,
  \<open>Options.validate\<close> of \<^verbatim>\<open>go/options.go\<close>, the defaults of \<^verbatim>\<open>go/fly.go\<close>, the key
  generator of \<^verbatim>\<open>go/floodgate.go\<close> and the two files every runner puts into its working
  directory. A logger is a value of an arbitrary type \<open>'l\<close>; \<open>'o\<close> stands for the Go values of
  a configuration override that are neither maps nor the usual scalars; \<open>'e\<close> is the type of
  operating system errors.
\<close>

section \<open>Types\<close>

text \<open>
  The Go enumerations are integers; a value outside the declared constants is the last
  constructor. Go's nil slice and nil pointer are \<open>None\<close>.
\<close>

datatype AuthType = Floodgate | Online | Offline | AuthTypeOther int

datatype Mode = ModeEmbedded | ModeSubprocess | ModeOther int

fun AuthType_String :: "AuthType \<Rightarrow> string" where
  "AuthType_String Floodgate = ''floodgate''"
| "AuthType_String Online = ''online''"
| "AuthType_String Offline = ''offline''"
| "AuthType_String (AuthTypeOther _) = ''floodgate''"

text \<open>A value decoded from YAML or supplied by the embedder; a map keeps its range order.\<close>

datatype 'o yaml = YMap "(string \<times> 'o yaml) list" | YStr string | YInt int | YBool bool | YOther 'o

record MOTD =
  motd_Line1 :: string
  motd_Line2 :: string

record RestartPolicy =
  rp_MinBackoff :: duration
  rp_MaxBackoff :: duration
  rp_MaxRetries :: int

record ('l, 'o) Options =
  op_Listen :: string
  op_Upstream :: string
  op_AuthType :: AuthType
  op_FloodgateKey :: bytes
  op_MOTD :: MOTD
  op_Mode :: Mode
  op_LibraryPath :: string
  op_BinaryPath :: string
  op_JVMArgs :: "string list option"
  op_Logger :: "'l option"
  op_RestartPolicy :: "RestartPolicy option"
  op_ShutdownTimeout :: duration
  op_Version :: string
  op_Mirror :: string
  op_Offline :: bool
  op_ConfigOverrides :: "(string \<times> 'o yaml) list"

datatype sentinel = ErrNotStarted | ErrAlreadyStarted | ErrNoBinary | ErrNoLibrary | ErrInvalidFloodgateKey | ErrUpstreamRequired

section \<open>Defaults\<close>

definition DefaultJVMArgs :: "string list" where
  "DefaultJVMArgs =
    [''-XX:MaxHeapFree=4m'',
     ''-XX:+CollectYoungGenerationSeparately'',
     ''-XX:ActiveProcessorCount=1'',
     ''-Dio.netty.maxDirectMemory=67108864'',
     ''-XX:MaxDirectMemorySize=64m'',
     ''-Dio.netty.allocator.type=unpooled'',
     ''-Dio.netty.allocator.numHeapArenas=1'',
     ''-Dio.netty.allocator.numDirectArenas=1'',
     ''-Dio.netty.eventLoopThreads=2'',
     ''-Dio.netty.recycler.maxCapacityPerThread=0'',
     ''-Dio.netty.leakDetection.level=disabled'',
     ''-Djava.util.concurrent.ForkJoinPool.common.parallelism=1'',
     ''-Dlog4j2.disableJmx=true'']"

text \<open>\<open>os.Getenv\<close> is an argument: a variable that is not set reads as the empty string.\<close>

type_synonym env = "string \<Rightarrow> string"

definition FlyGlobalServices :: "env \<Rightarrow> string" where
  "FlyGlobalServices getenv =
     (if getenv ''FLY_APP_NAME'' \<noteq> '''' then ''fly-global-services'' else ''0.0.0.0'')"

text \<open>\<open>rand.Read\<close> on a slice of \<open>n\<close> bytes: an error or \<open>n\<close> bytes.\<close>

definition GenerateFloodgateKey :: "(nat \<Rightarrow> 'e + bytes) \<Rightarrow> 'e + bytes" where
  "GenerateFloodgateKey rand = rand 16"

section \<open>validate\<close>

definition validate :: "'l \<Rightarrow> ('l, 'o) Options \<Rightarrow> sentinel + ('l, 'o) Options" where
  "validate slog_Default o1 =
     (if op_Upstream o1 = '''' then Inl ErrUpstreamRequired
      else if op_AuthType o1 = Floodgate \<and> length (op_FloodgateKey o1) \<noteq> 16 then Inl ErrInvalidFloodgateKey
      else
        (let o1 = (if op_Listen o1 = '''' then o1\<lparr>op_Listen := '':19132''\<rparr> else o1);
             o1 = (if op_Logger o1 = None then o1\<lparr>op_Logger := Some slog_Default\<rparr> else o1);
             o1 = (if op_ShutdownTimeout o1 = 0 then o1\<lparr>op_ShutdownTimeout := 30 * second\<rparr> else o1);
             o1 = (if op_JVMArgs o1 = None then o1\<lparr>op_JVMArgs := Some DefaultJVMArgs\<rparr> else o1);
             o1 = (if op_RestartPolicy o1 = None
                   then o1\<lparr>op_RestartPolicy := Some \<lparr>rp_MinBackoff = second, rp_MaxBackoff = minute, rp_MaxRetries = 0\<rparr>\<rparr>
                   else o1)
         in Inr o1))"

section \<open>The working directory\<close>

text \<open>
  Files by path, with their mode bits; \<open>fault\<close> says which \<open>os.WriteFile\<close> calls fail, with which
  error, and what the failed call leaves at the path. The mode is that of a new file only.
\<close>

record file_entry =
  f_data :: bytes
  f_mode :: nat

type_synonym files = "string \<rightharpoonup> file_entry"

type_synonym 'e write_fault = "string \<Rightarrow> ('e \<times> file_entry option) option"

definition writeFile :: "'e write_fault \<Rightarrow> string \<Rightarrow> bytes \<Rightarrow> nat \<Rightarrow> files \<Rightarrow> 'e option \<times> files" where
  "writeFile fault path data mode fs =
     (case fault path of
        Some (err, left) \<Rightarrow> (Some err, fs(path := left))
      | None \<Rightarrow>
          (None, fs(path \<mapsto> \<lparr>f_data = data, f_mode = (case fs path of Some f \<Rightarrow> f_mode f | None \<Rightarrow> mode)\<rparr>)))"

datatype 'e stage_error = InvalidKey | WriteErr string 'e | ParseErr 'e | MarshalErr 'e

definition writeFloodgateKey ::
    "'e write_fault \<Rightarrow> string \<Rightarrow> ('l, 'o) Options \<Rightarrow> files \<Rightarrow> 'e stage_error option \<times> files" where
  "writeFloodgateKey fault workdir opts fs =
     (if op_AuthType opts \<noteq> Floodgate then (None, fs)
      else if length (op_FloodgateKey opts) \<noteq> 16 then (Some InvalidKey, fs)
      else (case writeFile fault (path_join [workdir, ''key.bin'']) (op_FloodgateKey opts) 384 fs of
              (Some err, fs) \<Rightarrow> (Some (WriteErr ''key.bin'' err), fs)
            | (None, fs) \<Rightarrow> (None, fs)))"

text \<open>The default \<open>permissions.yml\<close>; the first line of the file is a comment.\<close>

definition defaultPermissions :: string where
  "defaultPermissions =
     ''# Default permissions.yml '' @ [CHR 0xE2, CHR 0x80, CHR 0x94] @ '' see GeyserMC docs.'' @ [CHR 0x0A] @
     ''default-permissions: []'' @ [CHR 0x0A]"

definition copyPermissionsYML :: "'e write_fault \<Rightarrow> string \<Rightarrow> files \<Rightarrow> 'e option \<times> files" where
  "copyPermissionsYML fault workdir fs =
     writeFile fault (path_join [workdir, ''permissions.yml'']) (bytes_of_string defaultPermissions) 420 fs"

section \<open>Validated options\<close>

text \<open>What the rest of the library assumes of its options.\<close>

definition options_ok :: "('l, 'o) Options \<Rightarrow> bool" where
  "options_ok o1 \<longleftrightarrow>
     op_Upstream o1 \<noteq> '''' \<and> op_Listen o1 \<noteq> '''' \<and> op_Logger o1 \<noteq> None \<and> op_ShutdownTimeout o1 \<noteq> 0 \<and>
     op_JVMArgs o1 \<noteq> None \<and> op_RestartPolicy o1 \<noteq> None \<and>
     (op_AuthType o1 = Floodgate \<longrightarrow> length (op_FloodgateKey o1) = 16)"

definition default_opts :: "'l \<Rightarrow> ('l, 'o) Options \<Rightarrow> ('l, 'o) Options" where
  "default_opts lg o1 = o1
     \<lparr>op_Listen := if op_Listen o1 = '''' then '':19132'' else op_Listen o1,
      op_Logger := Some (case op_Logger o1 of None \<Rightarrow> lg | Some l \<Rightarrow> l),
      op_ShutdownTimeout := if op_ShutdownTimeout o1 = 0 then 30 * second else op_ShutdownTimeout o1,
      op_JVMArgs := Some (case op_JVMArgs o1 of None \<Rightarrow> DefaultJVMArgs | Some a \<Rightarrow> a),
      op_RestartPolicy := Some (case op_RestartPolicy o1 of
          None \<Rightarrow> \<lparr>rp_MinBackoff = second, rp_MaxBackoff = minute, rp_MaxRetries = 0\<rparr> | Some p \<Rightarrow> p)\<rparr>"

lemma validate_eq:
  "validate lg o1 =
     (if op_Upstream o1 = '''' then Inl ErrUpstreamRequired
      else if op_AuthType o1 = Floodgate \<and> length (op_FloodgateKey o1) \<noteq> 16 then Inl ErrInvalidFloodgateKey
      else Inr (default_opts lg o1))"
  unfolding validate_def Let_def default_opts_def
  by (cases o1) (simp split: option.split)

lemma default_opts_ok:
  "op_Upstream o1 \<noteq> '''' \<Longrightarrow> (op_AuthType o1 = Floodgate \<longrightarrow> length (op_FloodgateKey o1) = 16) \<Longrightarrow>
    options_ok (default_opts lg o1)"
  by (simp add: options_ok_def default_opts_def)

lemma validate_ok: "validate lg o1 = Inr o2 \<Longrightarrow> options_ok o2"
  by (auto simp: validate_eq default_opts_ok split: if_splits)

lemma default_opts_id: "options_ok o1 \<Longrightarrow> default_opts lg o1 = o1"
  by (cases o1) (auto simp: options_ok_def default_opts_def)

lemma validate_fixes_ok: "options_ok o1 \<Longrightarrow> validate lg o1 = Inr o1"
  by (simp add: validate_eq default_opts_id) (auto simp: options_ok_def)


end
