(* ===== verification/Config.thy ===== *)
theory Config
  imports Options
begin

text \<open>
  \<^verbatim>\<open>go/config.go\<close>: the Geyser configuration rendered for a server. A Go map is an association
  list with distinct keys in its range order (\<open>ywf\<close> says so at every level). The YAML library
  is not part of the repository: \<open>unmarshal\<close> and \<open>marshal\<close> are arguments, and nothing is assumed
  of what they return.
\<close>

section \<open>mergeMap\<close>

fun mergeMap :: "(string \<times> 'o yaml) list \<Rightarrow> (string \<times> 'o yaml) list \<Rightarrow> (string \<times> 'o yaml) list" where
  "mergeMap dst [] = dst"
| "mergeMap dst ((k, v) # src) =
     mergeMap
       (case (map_of dst k, v) of
          (Some (YMap dstMap), YMap srcMap) \<Rightarrow> AList.update k (YMap (mergeMap dstMap srcMap)) dst
        | _ \<Rightarrow> AList.update k v dst) src"

section \<open>Addresses\<close>

text \<open>Slices out of range panic; here the indices come from \<open>Index\<close> and are in range.\<close>

definition splitHostPortStr :: "string \<Rightarrow> string \<times> string" where
  "splitHostPortStr s =
     (if HasPrefix s ''['' then
        (case IndexByte CHR '']'' s of
           None \<Rightarrow> ('''', '''')
         | Some fin \<Rightarrow>
             (let rest = drop (fin + 1) s in
              if \<not> HasPrefix rest '':'' then (take (fin - 1) (drop 1 s), '''')
              else (take (fin - 1) (drop 1 s), drop 1 rest)))
      else
        (case LastIndexByte CHR '':'' s of
           None \<Rightarrow> (s, '''')
         | Some idx \<Rightarrow> (take idx s, drop (idx + 1) s)))"

definition splitHostPort :: "string \<Rightarrow> string \<Rightarrow> int \<Rightarrow> string \<times> int" where
  "splitHostPort s defaultHost defaultPort =
     (if s = '''' then (defaultHost, defaultPort)
      else
        (let (host, portStr) = splitHostPortStr s;
             host = (if host = '''' then defaultHost else host)
         in if portStr = '''' then (host, defaultPort)
            else (case Atoi portStr of (port, ok) \<Rightarrow> if ok then (host, port) else (host, defaultPort))))"

definition defaultStr :: "string \<Rightarrow> string \<Rightarrow> string" where
  "defaultStr s fallback = (if s = '''' then fallback else s)"

section \<open>The configuration\<close>

definition unlines :: "string list \<Rightarrow> string" where
  "unlines ls = concat (map (\<lambda>l. l @ [CHR 0x0A]) ls)"

definition baselineConfigYAML :: string where
  "baselineConfigYAML = unlines
    [''# Generated by go.minekube.com/geyserlite.'',
     ''bedrock:'',
     ''  address: 0.0.0.0'',
     ''  port: 19132'',
     ''  motd1: geyserlite'',
     ''  motd2: cross-play'',
     ''  server-name: geyserlite'',
     ''  compression-level: 6'',
     '''',
     ''java:'',
     ''  address: 127.0.0.1'',
     ''  port: 25565'',
     ''  auth-type: floodgate'',
     ''  forward-hostname: true'',
     '''',
     ''advanced:'',
     ''  java:'',
     ''    use-haproxy-protocol: false'',
     '''',
     ''passthrough-motd: false'',
     ''passthrough-player-counts: false'',
     ''legacy-ping-passthrough: false'',
     '''',
     ''forward-player-ping: false'',
     ''max-players: 100'',
     ''debug-mode: false'',
     '''',
     ''show-cooldown: title'',
     ''show-coordinates: true'',
     ''disable-bedrock-scaffolding: false'',
     '''',
     ''xbox-achievements-enabled: false'',
     ''log-player-ip-addresses: true'',
     ''notify-on-new-bedrock-update: false'',
     '''',
     ''scoreboard-packet-threshold: 20'',
     ''enable-proxy-connections: false'',
     ''mtu: 1400'',
     ''use-direct-connection: false'',
     ''disable-compression: false'',
     '''',
     ''config-version: 4'']"

text \<open>The literal map \<open>buildConfigMap\<close> merges onto the baseline.\<close>

definition typedKnobs :: "('l, 'o) Options \<Rightarrow> (string \<times> 'o yaml) list" where
  "typedKnobs opts =
     (let (listenAddr, listenPort) = splitHostPort (op_Listen opts) ''0.0.0.0'' 19132;
          (upstreamAddr, upstreamPort) = splitHostPort (op_Upstream opts) ''127.0.0.1'' 25565
      in [(''bedrock'', YMap
             [(''address'', YStr listenAddr),
              (''port'', YInt listenPort),
              (''motd1'', YStr (defaultStr (motd_Line1 (op_MOTD opts)) ''geyserlite'')),
              (''motd2'', YStr (defaultStr (motd_Line2 (op_MOTD opts)) ''cross-play'')),
              (''server-name'', YStr (defaultStr (motd_Line1 (op_MOTD opts)) ''geyserlite''))]),
          (''java'', YMap
             [(''address'', YStr upstreamAddr),
              (''port'', YInt upstreamPort),
              (''auth-type'', YStr (AuthType_String (op_AuthType opts))),
              (''forward-hostname'', YBool True)]),
          (''advanced'', YMap
             [(''java'', YMap [(''use-haproxy-protocol'', YBool (op_AuthType opts = Floodgate))])])])"

definition buildConfigMap ::
    "(string \<Rightarrow> 'e + (string \<times> 'o yaml) list) \<Rightarrow> ('l, 'o) Options \<Rightarrow> 'e stage_error + (string \<times> 'o yaml) list" where
  "buildConfigMap unmarshal opts =
     (case unmarshal baselineConfigYAML of
        Inl err \<Rightarrow> Inl (ParseErr err)
      | Inr cfg \<Rightarrow>
          (let cfg = mergeMap cfg (typedKnobs opts);
               cfg = (if op_AuthType opts = Floodgate
                      then AList.update ''floodgate-key-file'' (YStr ''key.bin'') cfg else cfg);
               cfg = (if length (op_ConfigOverrides opts) > 0 then mergeMap cfg (op_ConfigOverrides opts) else cfg)
           in Inr cfg))"

definition renderConfig ::
    "(string \<Rightarrow> 'e + (string \<times> 'o yaml) list) \<Rightarrow> ((string \<times> 'o yaml) list \<Rightarrow> 'e + bytes) \<Rightarrow> 'e write_fault \<Rightarrow>
      string \<Rightarrow> ('l, 'o) Options \<Rightarrow> files \<Rightarrow> 'e stage_error option \<times> files" where
  "renderConfig unmarshal marshal fault workdir opts fs =
     (case buildConfigMap unmarshal opts of
        Inl err \<Rightarrow> (Some err, fs)
      | Inr cfg \<Rightarrow>
          (case marshal cfg of
             Inl err \<Rightarrow> (Some (MarshalErr err), fs)
           | Inr out \<Rightarrow>
               (case writeFile fault (path_join [workdir, ''config.yml'']) out 384 fs of
                  (Some err, fs) \<Rightarrow> (Some (WriteErr ''config.yml'' err), fs)
                | (None, fs) \<Rightarrow> (None, fs))))"

text \<open>
  What both runners put into their working directory before Geyser starts: the Floodgate key, the
  configuration and the default permissions. The last write may fail; the runners then log a
  warning and go on.
\<close>

definition stageWorkdir ::
    "(string \<Rightarrow> 'e + (string \<times> 'o yaml) list) \<Rightarrow> ((string \<times> 'o yaml) list \<Rightarrow> 'e + bytes) \<Rightarrow> 'e write_fault \<Rightarrow>
      string \<Rightarrow> ('l, 'o) Options \<Rightarrow> files \<Rightarrow> 'e stage_error option \<times> files" where
  "stageWorkdir unmarshal marshal fault workdir opts fs =
     (case writeFloodgateKey fault workdir opts fs of
        (Some err, fs) \<Rightarrow> (Some err, fs)
      | (None, fs) \<Rightarrow>
          (case renderConfig unmarshal marshal fault workdir opts fs of
             (Some err, fs) \<Rightarrow> (Some err, fs)
           | (None, fs) \<Rightarrow> (None, snd (copyPermissionsYML fault workdir fs))))"

section \<open>Lookup\<close>

text \<open>Distinct keys at every level.\<close>

fun ywf :: "'o yaml \<Rightarrow> bool" where
  "ywf (YMap m) \<longleftrightarrow> gwf m \<and> (\<forall>p\<in>set m. ywf (snd p))"
| "ywf _ \<longleftrightarrow> True"

fun lookup_path :: "(string \<times> 'o yaml) list \<Rightarrow> string list \<Rightarrow> 'o yaml option" where
  "lookup_path m [] = None"
| "lookup_path m [k] = map_of m k"
| "lookup_path m (k # ks) = (case map_of m k of Some (YMap n) \<Rightarrow> lookup_path n ks | _ \<Rightarrow> None)"

text \<open>A path that an override map does not change: it names neither the path nor a leaf above it.\<close>

fun untouched :: "(string \<times> 'o yaml) list \<Rightarrow> string list \<Rightarrow> bool" where
  "untouched m [] \<longleftrightarrow> True"
| "untouched m [k] \<longleftrightarrow> map_of m k = None"
| "untouched m (k # ks) \<longleftrightarrow> (case map_of m k of None \<Rightarrow> True | Some (YMap n) \<Rightarrow> untouched n ks | Some _ \<Rightarrow> False)"

definition mergeOne :: "'o yaml option \<Rightarrow> 'o yaml \<Rightarrow> 'o yaml" where
  "mergeOne old v = (case (old, v) of (Some (YMap d), YMap s) \<Rightarrow> YMap (mergeMap d s) | _ \<Rightarrow> v)"

lemma mergeMap_Cons: "mergeMap dst ((k, v) # src) = mergeMap (AList.update k (mergeOne (map_of dst k) v) dst) src"
  by (simp add: mergeOne_def split: option.splits yaml.splits)

declare mergeMap.simps(2) [simp del]

lemma mergeMap_lookup:
  "gwf src \<Longrightarrow> map_of (mergeMap dst src) k =
    (case map_of src k of None \<Rightarrow> map_of dst k | Some v \<Rightarrow> Some (mergeOne (map_of dst k) v))"
proof (induction src arbitrary: dst)
  case (Cons p src)
  obtain k' v where p: "p = (k', v)" by force
  have "map_of src k' = None" using Cons.prems by (simp add: p map_of_eq_None_iff)
  then show ?case using Cons by (auto simp: p mergeMap_Cons split: option.splits)
qed simp

lemma mergeMap_gwf: "gwf dst \<Longrightarrow> gwf (mergeMap dst src)"
proof (induction src arbitrary: dst)
  case (Cons p src)
  then show ?case by (cases p) (simp only: mergeMap_Cons gwf_update)
qed simp

lemma ywf_map_of: "ywf (YMap m) \<Longrightarrow> map_of m k = Some v \<Longrightarrow> ywf v"
  by (auto dest: map_of_SomeD)

lemma lookup_path_Cons2:
  "ks \<noteq> [] \<Longrightarrow> lookup_path m (k # ks) = (case map_of m k of Some (YMap n) \<Rightarrow> lookup_path n ks | _ \<Rightarrow> None)"
  by (cases ks) (simp_all split: option.split yaml.split)

lemma untouched_Cons2:
  "ks \<noteq> [] \<Longrightarrow> untouched m (k # ks) = (case map_of m k of None \<Rightarrow> True | Some (YMap n) \<Rightarrow> untouched n ks | Some _ \<Rightarrow> False)"
  by (cases ks) (simp_all split: option.split yaml.split)

lemma untouched_lookup: "untouched m p \<Longrightarrow> lookup_path m p = None"
  by (induction m p rule: untouched.induct) (auto split: option.splits yaml.splits)

lemma merge_untouched:
  "untouched src p \<Longrightarrow> ywf (YMap src) \<Longrightarrow> lookup_path (mergeMap dst src) p = lookup_path dst p"
proof (induction p arbitrary: dst src)
  case (Cons k ks)
  have g: "gwf src" using Cons.prems(2) by simp
  show ?case
  proof (cases "ks = []")
    case True
    then show ?thesis using Cons.prems(1) by (simp add: mergeMap_lookup [OF g])
  next
    case False
    show ?thesis
    proof (cases "map_of src k")
      case None
      with False show ?thesis by (simp add: lookup_path_Cons2 mergeMap_lookup [OF g])
    next
      case (Some v)
      then obtain n where v: "v = YMap n" and u: "untouched n ks"
        using Cons.prems(1) False by (auto simp: untouched_Cons2 split: yaml.splits)
      have w: "ywf (YMap n)" using ywf_map_of [OF Cons.prems(2) Some] v by simp
      have "lookup_path n ks = None" by (rule untouched_lookup [OF u])
      then show ?thesis
        using False Some v Cons.IH [OF u w]
        by (auto simp: lookup_path_Cons2 mergeMap_lookup [OF g] mergeOne_def split: option.splits yaml.splits)
    qed
  qed
qed simp

lemma merge_leaf:
  "lookup_path src p = Some v \<Longrightarrow> (\<And>n. v \<noteq> YMap n) \<Longrightarrow> ywf (YMap src) \<Longrightarrow>
    lookup_path (mergeMap dst src) p = Some v"
proof (induction p arbitrary: dst src)
  case (Cons k ks)
  have g: "gwf src" using Cons.prems(3) by simp
  show ?case
  proof (cases "ks = []")
    case True
    then show ?thesis using Cons.prems(1,2)
      by (auto simp: mergeMap_lookup [OF g] mergeOne_def split: option.splits yaml.splits)
  next
    case False
    then obtain n where n: "map_of src k = Some (YMap n)" "lookup_path n ks = Some v"
      using Cons.prems(1) by (auto simp: lookup_path_Cons2 split: option.splits yaml.splits)
    have w: "ywf (YMap n)" by (rule ywf_map_of [OF Cons.prems(3) n(1)])
    show ?thesis
      using False n Cons.IH [OF n(2) Cons.prems(2) w]
      by (auto simp: lookup_path_Cons2 mergeMap_lookup [OF g] mergeOne_def split: option.splits yaml.splits)
  qed
qed simp

lemma ywf_typedKnobs: "ywf (YMap (typedKnobs opts))"
  by (auto simp: typedKnobs_def split: prod.splits)

section \<open>Splitting addresses\<close>

lemma HasPrefix_Cons [simp]: "HasPrefix (c # s) [d] \<longleftrightarrow> c = d"
  by (auto simp: HasPrefix_def)

lemma HasPrefix_Nil [simp]: "\<not> HasPrefix [] [d]"
  by (simp add: HasPrefix_def)

lemma show_nat_no_colon: "CHR '':'' \<notin> set (show_nat n)"
  using show_nat_digits [of "CHR '':''" n] by auto

lemma split_plain:
  assumes "\<not> HasPrefix s ''[''" "CHR '':'' \<notin> set p" "s = h @ CHR '':'' # p"
  shows "splitHostPortStr s = (h, p)"
  using assms by (simp add: splitHostPortStr_def LastIndexByte_append)

lemma split_bracket:
  assumes "CHR '']'' \<notin> set h"
  shows "splitHostPortStr (CHR ''['' # h @ CHR '']'' # CHR '':'' # p) = (h, p)"
    and "splitHostPortStr (CHR ''['' # h @ '']'') = (h, '''')"
  using assms IndexByte_append [of "CHR '']''" "CHR ''['' # h"] by (simp_all add: splitHostPortStr_def)

section \<open>Precedence\<close>

lemma lookup_update_other: "p \<noteq> [] \<Longrightarrow> hd p \<noteq> k \<Longrightarrow> lookup_path (AList.update k v m) p = lookup_path m p"
  by (cases p; cases "tl p") auto

lemma buildConfigMap_cases:
  assumes "buildConfigMap unmarshal opts = Inr cfg"
  obtains base where "unmarshal baselineConfigYAML = Inr base"
    and "cfg = mergeMap (if op_AuthType opts = Floodgate
           then AList.update ''floodgate-key-file'' (YStr ''key.bin'') (mergeMap base (typedKnobs opts))
           else mergeMap base (typedKnobs opts)) (op_ConfigOverrides opts)"
  using assms by (auto simp: buildConfigMap_def Let_def split: sum.splits if_splits)

lemma knob_not_keyfile: "lookup_path (typedKnobs opts) p = Some v \<Longrightarrow> hd p \<noteq> ''floodgate-key-file''"
  by (cases p; cases "tl p") (auto simp: typedKnobs_def split: prod.splits if_splits)


text \<open>A server behind Gate with two overrides, one of them below \<open>bedrock\<close>.\<close>

definition demo_opts :: "(unit, unit) Options" where
  "demo_opts = \<lparr>op_Listen = ''[::]'', op_Upstream = ''127.0.0.1:25567'', op_AuthType = Floodgate,
     op_FloodgateKey = replicate 16 7, op_MOTD = \<lparr>motd_Line1 = '''', motd_Line2 = ''hello''\<rparr>, op_Mode = ModeEmbedded,
     op_LibraryPath = '''', op_BinaryPath = '''', op_JVMArgs = None, op_Logger = None, op_RestartPolicy = None,
     op_ShutdownTimeout = 0, op_Version = '''', op_Mirror = '''', op_Offline = False,
     op_ConfigOverrides = [(''bedrock'', YMap [(''port'', YInt 19140)]), (''max-players'', YInt 50)]\<rparr>"

definition demo_base :: "(string \<times> unit yaml) list" where
  "demo_base = [(''bedrock'', YMap [(''address'', YStr ''0.0.0.0''), (''port'', YInt 19132), (''compression-level'', YInt 6)]),
     (''max-players'', YInt 100), (''mtu'', YInt 1400)]"


text \<open>
  Addresses are read back as they are written. For a port number that fits an int,
  \<open>splitHostPort\<close> recovers host and port from \<open>host:port\<close> (whatever colons the host contains, as
  long as it does not start with a bracket) and from \<open>[host]:port\<close>; an address without a port
  gets the default port, one without a host the default host, and the empty address both.
\<close>

theorem splitHostPort_roundtrip:
  assumes "port < 2 ^ 63" "host \<noteq> ''''"
  shows "(\<not> HasPrefix host ''['' \<longrightarrow> splitHostPort (host @ CHR '':'' # show_nat port) dh dp = (host, int port)) \<and>
    (CHR '']'' \<notin> set host \<longrightarrow> splitHostPort (CHR ''['' # host @ CHR '']'' # CHR '':'' # show_nat port) dh dp = (host, int port)) \<and>
    (CHR '']'' \<notin> set host \<longrightarrow> splitHostPort (CHR ''['' # host @ '']'') dh dp = (host, dp)) \<and>
    (\<not> HasPrefix host ''['' \<and> CHR '':'' \<notin> set host \<longrightarrow> splitHostPort host dh dp = (host, dp)) \<and>
    splitHostPort (CHR '':'' # show_nat port) dh dp = (dh, int port) \<and> splitHostPort '''' dh dp = (dh, dp)"
proof -
  have pre: "\<not> HasPrefix (host @ s) ''[''" if "\<not> HasPrefix host ''[''" for s
    using that assms(2) by (cases host) auto
  note split = split_plain [OF _ show_nat_no_colon]
  have a: "splitHostPortStr (CHR '':'' # show_nat port) = ('''', show_nat port)"
    by (rule split) simp_all
  have b: "splitHostPortStr (host @ CHR '':'' # show_nat port) = (host, show_nat port)" if "\<not> HasPrefix host ''[''"
    by (rule split) (simp_all add: pre [OF that])
  have c: "splitHostPortStr host = (host, '''')" if "\<not> HasPrefix host ''[''" "CHR '':'' \<notin> set host"
  proof -
    have n: "LastIndexByte CHR '':'' host = None" using that(2) by simp
    show ?thesis using that(1) by (simp add: splitHostPortStr_def n del: LastIndexByte_None)
  qed
  show ?thesis
    using assms a b c split_bracket [of host] by (auto simp: splitHostPort_def Atoi_show)
qed

theorem splitHostPort_roundtrip_witness:
  "splitHostPort (''::1'' @ CHR '':'' # show_nat 25565) ''h'' 1 = (''::1'', 25565) \<and>
   splitHostPort (CHR ''['' # ''::1'' @ CHR '']'' # CHR '':'' # show_nat 25565) ''h'' 1 = (''::1'', 25565)"
  using splitHostPort_roundtrip [of 25565 "''::1''" "''h''" 1] by simp

end
