(* ===== verification/Supervisor.thy ===== *)
theory Supervisor
  imports Config Session_Exec
begin

text \<open>
  The subprocess runner of \<^verbatim>\<open>go/subprocess.go\<close> and its backoff (\<^verbatim>\<open>go/backoff.go\<close>): one
  launch of the native process (\<open>runOnce\<close>), the restart loop around it, the scan of the child's
  output for its ready line.

  What the operating system answers is an argument: the record \<open>launch_env\<close> holds, for one
  launch, the result of every call that can fail, the exit of the child, which branch the
  \<open>select\<close> takes when both are ready, and the interleaving of the goroutines that share the session
  and the broker: the schedule until the \<open>select\<close> wakes up (\<open>le_schedule\<close>) and the one after it,
  until \<open>session.wait\<close> gets its turn (\<open>le_after\<close>). What these goroutines do is the session system
  of \<^verbatim>\<open>Session_System\<close>; a schedule only chooses who moves.
\<close>

section \<open>Backoff\<close>

text \<open>A \<open>time.Duration\<close> is a signed 64-bit integer: its arithmetic wraps around.\<close>

definition int64_wrap :: "int \<Rightarrow> int" where
  "int64_wrap x = (x + 2 ^ 63) mod 2 ^ 64 - 2 ^ 63"

lemma int64_wrap_id: "- (2 ^ 63) \<le> x \<Longrightarrow> x < 2 ^ 63 \<Longrightarrow> int64_wrap x = x"
  by (simp add: int64_wrap_def)

record backoff =
  bo_min :: duration
  bo_max :: duration
  bo_cur :: duration

definition newBackoff :: "duration \<Rightarrow> duration \<Rightarrow> backoff" where
  "newBackoff minD maxD =
     (let minD = (if minD \<le> 0 then second else minD);
          maxD = (if maxD \<le> 0 \<or> maxD < minD then 60 * second else maxD)
      in \<lparr>bo_min = minD, bo_max = maxD, bo_cur = minD\<rparr>)"

definition backoff_next :: "backoff \<Rightarrow> duration \<times> backoff" where
  "backoff_next b =
     (let d = bo_cur b;
          b = b\<lparr>bo_cur := int64_wrap (bo_cur b * 2)\<rparr>;
          b = (if bo_cur b > bo_max b then b\<lparr>bo_cur := bo_max b\<rparr> else b)
      in (d, b))"

definition backoff_peek :: "backoff \<Rightarrow> duration" where
  "backoff_peek b = bo_cur b"

definition backoff_reset :: "backoff \<Rightarrow> backoff" where
  "backoff_reset b = b\<lparr>bo_cur := bo_min b\<rparr>"

section \<open>The ready line\<close>

text \<open>The inner loop \<open>for j < len(line) && line[j] != 'm' { j++ }\<close>.\<close>

function findM :: "string \<Rightarrow> nat \<Rightarrow> nat" where
  "findM line j = (if j < length line \<and> line ! j \<noteq> CHR ''m'' then findM line (Suc j) else j)"
  by pat_completeness auto
termination by (relation "measure (\<lambda>(line, j). length line - j)") auto

declare findM.simps [simp del]

lemma findM_ge: "j \<le> findM line j"
  by (induction line j rule: findM.induct) (subst findM.simps, auto intro: Suc_leD)

text \<open>The outer loop; removing an escape sequence leaves \<open>i\<close> where it is.\<close>

function stripANSI :: "nat \<Rightarrow> string \<Rightarrow> string" where
  "stripANSI i line =
     (if i < length line then
        (if line ! i = CHR 0x1B
         then stripANSI i (take i line @ drop (min (findM line (i + 1) + 1) (length line)) line)
         else stripANSI (i + 1) line)
      else line)"
  by pat_completeness auto
termination
proof (relation "measure (\<lambda>(i, line). length line - i)")
  fix i :: nat and line :: string
  assume "i < length line"
  then show "((i, take i line @ drop (min (findM line (i + 1) + 1) (length line)) line), i, line)
      \<in> measure (\<lambda>(i, line). length line - i)"
    using findM_ge [of "i + 1" line] by (auto simp: min_def)
qed auto

declare stripANSI.simps [simp del]

text \<open>The search loop over \<open>line[i:i+6]\<close>.\<close>

function findDone :: "nat \<Rightarrow> string \<Rightarrow> bool" where
  "findDone i line =
     (if i + 6 \<le> length line
      then (if take 6 (drop i line) = ''Done ('' then True else findDone (i + 1) line)
      else False)"
  by pat_completeness auto
termination by (relation "measure (\<lambda>(i, line). length line - i)") auto

declare findDone.simps [simp del]

definition isGeyserReady :: "string \<Rightarrow> bool" where
  "isGeyserReady line = findDone 0 (stripANSI 0 line)"

text \<open>
  \<open>bufio.Scanner\<close> with \<open>ScanLines\<close> and a buffer of at most \<open>limit\<close> bytes: the lines of the
  stream, without the newline and a carriage return before it; a line that does not fit ends the
  scan, an unterminated last line is a line when it is not empty.
\<close>

definition dropCR :: "string \<Rightarrow> string" where
  "dropCR s = (if s \<noteq> [] \<and> last s = CHR 0x0D then butlast s else s)"

function scanLines :: "nat \<Rightarrow> string \<Rightarrow> string list" where
  "scanLines limit s =
     (if s = [] then []
      else (let line = takeWhile (\<lambda>c. c \<noteq> CHR 0x0A) s in
            if length line \<ge> limit then []
            else dropCR line # scanLines limit (drop (length line + 1) s)))"
  by pat_completeness auto
termination by (relation "measure (\<lambda>(limit, s). length s)") auto

declare scanLines.simps [simp del]

definition scannerLimit :: nat where
  "scannerLimit = 1024 * 1024"

text \<open>
  \<open>pipeToLogger\<close>: the lines logged and the ready flag after the stream ended; the flag of the
  second pipe is nil.
\<close>

fun pipeLoop :: "bool option \<Rightarrow> string list \<Rightarrow> bool option" where
  "pipeLoop flag [] = flag"
| "pipeLoop flag (line # ls) =
     pipeLoop (case flag of None \<Rightarrow> None | Some f \<Rightarrow> Some (if \<not> f then (if isGeyserReady line then True else f) else f)) ls"

definition pipeToLogger :: "string \<Rightarrow> bool option \<Rightarrow> string list \<times> bool option" where
  "pipeToLogger stream flag =
     (let ls = scanLines scannerLimit stream in (ls, pipeLoop flag ls))"

section \<open>One launch\<close>

text \<open>An error of \<open>cmd.Wait\<close> is an exit status or something else; \<open>'x\<close> are other system errors.\<close>

datatype 'x sys_error = ExitError int | SysError 'x

datatype 'x launch_error =
    SocketpairErr 'x | KeyErr 'x | BootstrapErr ingress_error | StdoutErr 'x | StderrErr 'x | StartErr 'x
  | SendBootstrap "'x sys_error session_error" | SubprocessExited int | WaitSubprocess "'x sys_error session_error"

type_synonym 'x child_session = "'x sys_error subprocessIngressSession"
type_synonym 'x child_system = "'x sys_error session_system"

record 'x launch_env =
  le_supported :: bool
  le_socketpair :: "'x option"
  le_rand :: "'x + bytes"
  le_stdoutPipe :: "'x option"
  le_stderrPipe :: "'x option"
  le_start :: "'x option"
  le_write :: "nat \<times> 'x sys_error option"
  le_wait :: "'x sys_error option"
  le_sessionFirst :: bool
  le_schedule :: "'x child_system \<Rightarrow> 'x sys_error action list"
  le_after :: "'x child_system \<Rightarrow> 'x sys_error action list"
  le_stdout :: string
  le_stderr :: string

datatype fd = FdNone | FdOpen | FdClosed
datatype proc = NotStarted | Running | Reaped

text \<open>
  What a launch changes: the process-wide generation counter, the file descriptors, the child,
  the key buffer, the session, the broker, the health flag and the log.
\<close>

record 'x launch_state =
  ls_counter :: u64
  ls_parent :: fd
  ls_child :: fd
  ls_stdout :: fd
  ls_stderr :: fd
  ls_proc :: proc
  ls_terms :: nat
  ls_args :: "string list"
  ls_key :: bytes
  ls_session :: "'x child_session option"
  ls_broker :: session_broker
  ls_healthy :: bool
  ls_log :: "string list"

definition fd_close :: "fd \<Rightarrow> fd" where
  "fd_close f = (if f = FdOpen then FdClosed else f)"

definition closeIngressPair :: "'x launch_state \<Rightarrow> 'x launch_state" where
  "closeIngressPair st = st\<lparr>ls_parent := fd_close (ls_parent st), ls_child := fd_close (ls_child st)\<rparr>"

text \<open>From the socket pair to the bootstrap packet; \<open>None\<close> would be a panic of the encoder.\<close>

definition runOnce_ingress ::
    "abi \<Rightarrow> 'x launch_env \<Rightarrow> 'x launch_state \<Rightarrow> (('x launch_error + bytes) \<times> 'x launch_state) option" where
  "runOnce_ingress A e st =
     (if \<not> le_supported e then Some (Inr [], st)
      else case le_socketpair e of
        Some err \<Rightarrow> Some (Inl (SocketpairErr err), st)
      | None \<Rightarrow>
          (let st = st\<lparr>ls_parent := FdOpen, ls_child := FdOpen\<rparr> in
           case le_rand e of
             Inl err \<Rightarrow> Some (Inl (KeyErr err), closeIngressPair st)
           | Inr key \<Rightarrow>
               (let st = st\<lparr>ls_key := key, ls_counter := ls_counter st + 1\<rparr> in
                case encodeSubprocessBootstrap A (ls_counter st) key of
                  None \<Rightarrow> None
                | Some (Inl err) \<Rightarrow> Some (Inl (BootstrapErr err), closeIngressPair st)
                | Some (Inr bootstrap) \<Rightarrow> Some (Inr bootstrap, st))))"

text \<open>The command line, the pipes and \<open>cmd.Start\<close>.\<close>

definition runOnce_start ::
    "string list \<Rightarrow> 'x launch_env \<Rightarrow> 'x launch_state \<Rightarrow> 'x launch_error option \<times> 'x launch_state" where
  "runOnce_start jvmArgs e st =
     (let st = st\<lparr>ls_args := ''--nogui'' # jvmArgs\<rparr> in
      case le_stdoutPipe e of
        Some err \<Rightarrow> (Some (StdoutErr err), closeIngressPair st)
      | None \<Rightarrow>
          (let st = st\<lparr>ls_stdout := FdOpen\<rparr> in
           case le_stderrPipe e of
             Some err \<Rightarrow> (Some (StderrErr err), closeIngressPair (st\<lparr>ls_stdout := fd_close (ls_stdout st)\<rparr>))
           | None \<Rightarrow>
               (let st = st\<lparr>ls_stderr := FdOpen\<rparr> in
                case le_start e of
                  Some err \<Rightarrow> (Some (StartErr err),
                    closeIngressPair (st\<lparr>ls_stdout := fd_close (ls_stdout st), ls_stderr := fd_close (ls_stderr st)\<rparr>))
                | None \<Rightarrow> (None, st\<lparr>ls_proc := Running, ls_child := fd_close (ls_child st)\<rparr>))))"

text \<open>\<open>cmd.Wait\<close> reaps the child and closes both pipes; \<open>session.close\<close> closes the parent's end.\<close>

definition cmd_wait :: "'x launch_state \<Rightarrow> 'x launch_state" where
  "cmd_wait st = st\<lparr>ls_proc := Reaped, ls_stdout := fd_close (ls_stdout st), ls_stderr := fd_close (ls_stderr st)\<rparr>"

definition close_session ::
    "abi \<Rightarrow> 'x sys_error session_error option \<Rightarrow> 'x child_session \<Rightarrow> 'x launch_state \<Rightarrow> 'x child_session \<times> 'x launch_state" where
  "close_session A reason s st =
     (case session_close A reason (s, ls_broker st) of
        (s, b) \<Rightarrow> (s, st\<lparr>ls_session := Some s, ls_broker := b, ls_parent := fd_close (ls_parent st)\<rparr>))"

text \<open>The session: the bootstrap write, and activation when it succeeds.\<close>

definition runOnce_session ::
    "abi \<Rightarrow> 'x launch_env \<Rightarrow> bytes \<Rightarrow> 'x launch_state \<Rightarrow> 'x launch_error option \<times> 'x launch_state" where
  "runOnce_session A e bootstrap st =
     (if ls_parent st = FdNone then (None, st)
      else
        (let s = newSubprocessIngressSession (ls_counter st) (ls_key st) in
         case writeFullPacket (le_write e) bootstrap of
           Some err \<Rightarrow>
             (case close_session A (Some err) s st of
                (_, st) \<Rightarrow> (Some (SendBootstrap err), cmd_wait (st\<lparr>ls_terms := ls_terms st + 1\<rparr>)))
         | None \<Rightarrow>
             (None, st\<lparr>ls_session := Some s, ls_broker := broker_activate (ls_counter st) (Some ()) (Some ()) (ls_broker st)\<rparr>)))"

text \<open>
  The supervision of the running child: the concurrent phase, the \<open>select\<close>, the waits, and the
  error of the launch. \<open>session.done\<close> can only be chosen when it is closed. \<open>session.wait\<close> clears
  the session's copy of the key; \<open>None\<close> if it has to wait for ever.
\<close>

definition launch_result :: "'x sys_error session_error option \<Rightarrow> 'x launch_error option" where
  "launch_result err =
     (case err of
        None \<Rightarrow> None
      | Some (ConnErr (ExitError code)) \<Rightarrow> Some (SubprocessExited code)
      | Some err \<Rightarrow> Some (WaitSubprocess err))"

definition runOnce_pipes :: "'x launch_env \<Rightarrow> 'x launch_state \<Rightarrow> 'x launch_state" where
  "runOnce_pipes e st =
     (let (out, flag) = pipeToLogger (le_stdout e) (Some (ls_healthy st));
          (err, _) = pipeToLogger (le_stderr e) None
      in st\<lparr>ls_log := ls_log st @ out @ err, ls_healthy := (flag = Some True)\<rparr>)"

definition runOnce_select ::
    "abi \<Rightarrow> 'x launch_env \<Rightarrow> 'x child_system \<Rightarrow> 'x launch_state \<Rightarrow>
      'x sys_error session_error option \<times> 'x child_system \<times> 'x launch_state" where
  "runOnce_select A e x st =
     (let wait = map_option ConnErr (le_wait e); st = st\<lparr>ls_broker := sx_broker x\<rparr> in
      if le_sessionFirst e \<and> ss_done (sx_session x)
      then (case session_err (sx_session x) of None \<Rightarrow> wait | Some err \<Rightarrow> Some err, x,
            cmd_wait (st\<lparr>ls_terms := ls_terms st + 1, ls_parent := fd_close (ls_parent st)\<rparr>))
      else (case close_session A wait (sx_session x) (cmd_wait st) of
              (s, st) \<Rightarrow> (wait, x\<lparr>sx_session := s, sx_broker := ls_broker st\<rparr>, st)))"

definition runOnce_supervise ::
    "abi \<Rightarrow> 'x launch_env \<Rightarrow> 'x launch_state \<Rightarrow> ('x launch_error option \<times> 'x launch_state) option" where
  "runOnce_supervise A e st =
     (let st = runOnce_pipes e st in
      case ls_session st of
        None \<Rightarrow> Some (launch_result (map_option ConnErr (le_wait e)), (cmd_wait st)\<lparr>ls_healthy := False\<rparr>)
      | Some s \<Rightarrow>
          (let x = session_start s (ls_broker st);
               x = sx_run A (le_schedule e x) x;
               (err, x, st) = runOnce_select A e x st;
               x = sx_run A (le_after e x) x
           in case session_wait (sx_reading x) (sx_session x) of
                None \<Rightarrow> None
              | Some s \<Rightarrow> Some (launch_result err, st\<lparr>ls_session := Some s, ls_broker := sx_broker x, ls_healthy := False\<rparr>)))"

text \<open>The whole of \<open>runOnce\<close>, with the deferred clearing of the key buffer.\<close>

definition runOnce ::
    "abi \<Rightarrow> string list \<Rightarrow> 'x launch_env \<Rightarrow> 'x launch_state \<Rightarrow> ('x launch_error option \<times> 'x launch_state) option" where
  "runOnce A jvmArgs e st =
     (let st = st\<lparr>ls_parent := FdNone, ls_child := FdNone, ls_stdout := FdNone, ls_stderr := FdNone,
          ls_proc := NotStarted, ls_key := [], ls_session := None\<rparr>;
          result =
            (case runOnce_ingress A e st of
               None \<Rightarrow> None
             | Some (Inl err, st) \<Rightarrow> Some (Some err, st)
             | Some (Inr bootstrap, st) \<Rightarrow>
                 (case runOnce_start jvmArgs e st of
                    (Some err, st) \<Rightarrow> Some (Some err, st)
                  | (None, st) \<Rightarrow>
                      (case runOnce_session A e bootstrap st of
                         (Some err, st) \<Rightarrow> Some (Some err, st)
                       | (None, st) \<Rightarrow> runOnce_supervise A e st)))
      in map_option (\<lambda>(err, st). (err, st\<lparr>ls_key := map (\<lambda>_. 0) (ls_key st)\<rparr>)) result)"

section \<open>The restart loop\<close>

text \<open>
  \<open>run\<close> after its preparation. \<open>once i\<close> is the launch of attempt \<open>i\<close>, on a state of any type, \<open>None\<close>
  if it does not return;
  \<open>canceled\<close> is \<open>errors.Is(err, context.Canceled)\<close>; \<open>ctxErr i\<close> is \<open>ctx.Err()\<close> after attempt \<open>i\<close>
  and \<open>stop i\<close> says whether the \<open>select\<close> in the backoff after attempt \<open>i\<close> takes the \<open>ctx.Done()\<close>
  branch. The result carries the delays slept. The loop may run for ever: \<open>None\<close>.
\<close>

datatype 'c run_result = CtxResult "'c option" | MaxRetriesExceeded int

record ('s, 'x, 'c) loop_env =
  lp_once :: "nat \<Rightarrow> 's \<Rightarrow> ('x option \<times> 's) option"
  lp_canceled :: "'x \<Rightarrow> bool"
  lp_ctxErr :: "nat \<Rightarrow> 'c option"
  lp_stop :: "nat \<Rightarrow> bool"

partial_function (option) runLoop ::
    "('s, 'x, 'c) loop_env \<Rightarrow> int \<Rightarrow> nat \<Rightarrow> backoff \<Rightarrow> duration list \<Rightarrow> 's \<Rightarrow>
      ('c run_result \<times> nat \<times> duration list \<times> 's) option" where
  "runLoop p maxRetries attempt b slept s =
     (if maxRetries > 0 \<and> int attempt \<ge> maxRetries then Some (MaxRetriesExceeded maxRetries, attempt, slept, s)
      else
        (case lp_once p attempt s of
           None \<Rightarrow> None
         | Some (err, s) \<Rightarrow>
             if (case err of None \<Rightarrow> True | Some x \<Rightarrow> lp_canceled p x)
             then Some (CtxResult (lp_ctxErr p attempt), Suc attempt, slept, s)
             else if lp_stop p attempt
             then Some (CtxResult (lp_ctxErr p attempt), Suc attempt, slept, s)
             else (case backoff_next b of (d, b) \<Rightarrow> runLoop p maxRetries (Suc attempt) b (slept @ [d]) s)))"

end
