(* ===== verification/Supervisor_Correct.thy ===== *)
theory Supervisor_Correct
  imports Supervisor Session_Drain
begin

text \<open>
  What the subprocess runner guarantees: the sequence of its backoff delays, the recognition of
  the ready line against a reference definition, that a launch leaves nothing behind, and when the
  restart loop returns.
\<close>

section \<open>Backoff\<close>

primrec delays :: "nat \<Rightarrow> backoff \<Rightarrow> duration list" where
  "delays 0 b = []"
| "delays (Suc n) b = (case backoff_next b of (d, b') \<Rightarrow> d # delays n b')"

lemma length_delays [simp]: "length (delays n b) = n"
  by (induction n arbitrary: b) (simp_all split: prod.split)

lemma backoff_next_fits:
  assumes "0 < bo_cur b" "bo_cur b < 2 ^ 62"
  shows "backoff_next b = (bo_cur b, b\<lparr>bo_cur := min (bo_cur b * 2) (bo_max b)\<rparr>)"
proof -
  have "int64_wrap (bo_cur b * 2) = bo_cur b * 2" using assms by (intro int64_wrap_id) auto
  then show ?thesis by (cases b) (auto simp: backoff_next_def min_def Let_def)
qed

lemma delays_nth:
  assumes "0 < bo_cur b" "bo_cur b < 2 ^ 62" "0 < bo_max b" "bo_max b < 2 ^ 62" "i < n"
  shows "delays n b ! i = (if i = 0 then bo_cur b else min (bo_cur b * 2 ^ i) (bo_max b))"
  using assms
proof (induction n arbitrary: b i)
  case (Suc n)
  show ?case
  proof (cases i)
    case 0
    then show ?thesis using backoff_next_fits [OF Suc.prems(1,2)] by simp
  next
    case (Suc j)
    let ?b = "b\<lparr>bo_cur := min (bo_cur b * 2) (bo_max b)\<rparr>"
    have IH: "delays n ?b ! j = (if j = 0 then bo_cur ?b else min (bo_cur ?b * 2 ^ j) (bo_max ?b))"
      using Suc Suc.prems by (intro Suc.IH) auto
    have "min (min (x * 2) m * 2 ^ j) m = min (x * (2 * 2 ^ j)) m" if "0 < m" "0 < x" for x m :: int
    proof -
      have "m \<le> m * 2 ^ j" "x * 2 \<le> x * (2 * 2 ^ j)" using that by simp_all
      then show ?thesis by (auto simp: min_def not_le mult.assoc)
    qed
    then show ?thesis
      using IH backoff_next_fits [OF Suc.prems(1,2)] Suc.prems(1,3) by (simp add: Suc)
  qed
qed simp

text \<open>
  C40: The delays between restarts. For every restart policy whose durations are below
  \<open>2 ^ 62\<close> nanoseconds (146 years), so that doubling cannot overflow: the first delay is the
  minimum of the policy (one second when it is not positive), the \<open>i\<close>-th is \<open>2 ^ i\<close> times that
  or the maximum, whichever is smaller, where a maximum that is not positive or is below the
  minimum counts as 60 seconds. So every delay is positive, and after the first one none exceeds
  the maximum.
\<close>

theorem backoff_delays:
  assumes "minD < 2 ^ 62" "maxD < 2 ^ 62" "i < n"
  defines "m \<equiv> if minD \<le> 0 then second else minD"
  defines "x \<equiv> if maxD \<le> 0 \<or> maxD < m then 60 * second else maxD"
  shows "delays n (newBackoff minD maxD) ! i = (if i = 0 then m else min (m * 2 ^ i) x) \<and>
    0 < delays n (newBackoff minD maxD) ! i \<and> (0 < i \<longrightarrow> delays n (newBackoff minD maxD) ! i \<le> x)"
proof -
  have b: "newBackoff minD maxD = \<lparr>bo_min = m, bo_max = x, bo_cur = m\<rparr>"
    by (simp add: newBackoff_def m_def x_def Let_def)
  have r: "0 < m" "m < 2 ^ 62" "0 < x" "x < 2 ^ 62" using assms(1,2) by (auto simp: m_def x_def)
  have "delays n (newBackoff minD maxD) ! i = (if i = 0 then m else min (m * 2 ^ i) x)"
    using delays_nth [of "newBackoff minD maxD" i n] r assms(3) by (simp add: b)
  then show ?thesis using r by auto
qed

theorem backoff_delays_witness:
  "delays 8 (newBackoff (2 * second) (60 * second)) ! 5 = 60 * second \<and>
   delays 8 (newBackoff (2 * second) (60 * second)) ! 3 = 16 * second"
  using backoff_delays [of "2 * second" "60 * second" 5 8] backoff_delays [of "2 * second" "60 * second" 3 8] by simp

section \<open>The ready line\<close>

text \<open>The reference: drop every escape byte with what follows it up to the next \<open>m\<close>.\<close>

function ansi_strip :: "string \<Rightarrow> string" where
  "ansi_strip [] = []"
| "ansi_strip (c # cs) =
     (if c = CHR 0x1B then ansi_strip (drop 1 (dropWhile (\<lambda>x. x \<noteq> CHR ''m'') cs)) else c # ansi_strip cs)"
  by pat_completeness auto
termination
proof (relation "measure length")
  fix c :: char and cs :: string
  have "length (dropWhile (\<lambda>x. x \<noteq> CHR ''m'') cs) \<le> length cs" by (rule length_dropWhile_le)
  then show "(drop 1 (dropWhile (\<lambda>x. x \<noteq> CHR ''m'') cs), c # cs) \<in> measure length" by simp
qed auto

lemma findM_drop:
  "j \<le> length line \<Longrightarrow> drop (findM line j) line = dropWhile (\<lambda>x. x \<noteq> CHR ''m'') (drop j line) \<and> findM line j \<le> length line"
proof (induction line j rule: findM.induct)
  case (1 line j)
  show ?case
  proof (cases "j < length line")
    case True
    then have d: "drop j line = line ! j # drop (Suc j) line" by (simp add: Cons_nth_drop_Suc)
    show ?thesis
    proof (cases "line ! j = CHR ''m''")
      case True
      then show ?thesis using 1(2) by (subst (1 2) findM.simps) (simp add: d)
    next
      case False
      then show ?thesis using True 1 by (subst (1 2) findM.simps) (simp add: d)
    qed
  next
    case False
    then show ?thesis using 1(2) by (subst (1 2) findM.simps) simp
  qed
qed

lemma stripANSI_exact: "i \<le> length line \<Longrightarrow> stripANSI i line = take i line @ ansi_strip (drop i line)"
proof (induction i line rule: stripANSI.induct)
  case (1 i line)
  show ?case
  proof (cases "i < length line")
    case True
    then have d: "drop i line = line ! i # drop (Suc i) line" by (simp add: Cons_nth_drop_Suc)
    show ?thesis
    proof (cases "line ! i = CHR 0x1B")
      case e: True
      define rest where "rest = drop (min (findM line (i + 1) + 1) (length line)) line"
      have f: "drop (findM line (i + 1)) line = dropWhile (\<lambda>x. x \<noteq> CHR ''m'') (drop (Suc i) line)"
        using findM_drop [of "i + 1" line] True by simp
      have r: "rest = drop 1 (dropWhile (\<lambda>x. x \<noteq> CHR ''m'') (drop (Suc i) line))"
        unfolding f [symmetric] by (simp add: rest_def min_def)
      have "stripANSI i (take i line @ rest) = take i (take i line @ rest) @ ansi_strip (drop i (take i line @ rest))"
        unfolding rest_def using True e by (intro 1(1)) simp_all
      then have "stripANSI i (take i line @ rest) = take i line @ ansi_strip rest" using True by simp
      moreover have "stripANSI i line = stripANSI i (take i line @ rest)"
        using True e unfolding rest_def by (subst stripANSI.simps) simp
      moreover have "ansi_strip (drop i line) = ansi_strip rest" using e by (simp add: d r)
      ultimately show ?thesis by simp
    next
      case False
      then show ?thesis using True 1(2) by (subst stripANSI.simps) (simp add: d take_Suc_conv_app_nth)
    qed
  next
    case False
    then show ?thesis using 1(3) by (subst stripANSI.simps) simp
  qed
qed

lemma ex_ge_step: "(\<exists>j \<ge> i. P j) \<longleftrightarrow> P i \<or> (\<exists>j \<ge> Suc i. P j)" for i :: nat
  by (metis Suc_leD Suc_leI le_neq_implies_less order_refl)

lemma findDone_exact: "findDone i line \<longleftrightarrow> (\<exists>j \<ge> i. take 6 (drop j line) = ''Done ('')"
proof (induction i line rule: findDone.induct)
  case (1 i line)
  have short: "j + 6 \<le> length line" if "take 6 (drop j line) = ''Done (''" for j
    using arg_cong [OF that, of length] by simp
  show ?case
  proof (cases "i + 6 \<le> length line")
    case True
    then show ?thesis using 1 by (subst findDone.simps) (simp add: ex_ge_step [of i])
  next
    case False
    then show ?thesis by (subst findDone.simps) (use short in \<open>fastforce\<close>)
  qed
qed

lemma contains_iff: "(\<exists>j. take 6 (drop j line) = ''Done ('') \<longleftrightarrow> (\<exists>pre post. line = pre @ ''Done ('' @ post)"
proof
  assume "\<exists>j. take 6 (drop j line) = ''Done (''"
  then obtain j where "take 6 (drop j line) = ''Done (''" ..
  then have "drop j line = ''Done ('' @ drop 6 (drop j line)"
    using append_take_drop_id [of 6 "drop j line"] by simp
  then have "line = take j line @ ''Done ('' @ drop 6 (drop j line)"
    using append_take_drop_id [of j line] by metis
  then show "\<exists>pre post. line = pre @ ''Done ('' @ post" by blast
next
  assume "\<exists>pre post. line = pre @ ''Done ('' @ post"
  then obtain pre post where "line = pre @ ''Done ('' @ post" by blast
  then have "take 6 (drop (length pre) line) = ''Done (''" by simp
  then show "\<exists>j. take 6 (drop j line) = ''Done (''" by (rule exI [of _ "length pre"])
qed

text \<open>
  The index loops of \<open>isGeyserReady\<close>, which edit the line while they run over it, terminate
  on every line and compute the reference definition: the line is taken as the ready line exactly
  when, with all colour escape sequences (an escape byte up to and including the next \<open>m\<close>, or the
  end of the line) removed, it contains \<open>Done (\<close>.
\<close>

theorem isGeyserReady_exact:
  "isGeyserReady line \<longleftrightarrow> (\<exists>pre post. ansi_strip line = pre @ ''Done ('' @ post)"
  using stripANSI_exact [of 0 line] by (simp add: isGeyserReady_def findDone_exact contains_iff)

section \<open>The health flag\<close>

lemma pipeLoop_flag: "pipeLoop flag ls = map_option (\<lambda>f. f \<or> (\<exists>l\<in>set ls. isGeyserReady l)) flag"
proof (induction ls arbitrary: flag)
  case Nil
  then show ?case by (cases flag) simp_all
next
  case (Cons l ls)
  then show ?case by (cases flag) auto
qed

section \<open>A launch leaves nothing behind\<close>

lemma bootstrap_exact:
  assumes "abi_ok A"
  shows "encodeSubprocessBootstrap A g key =
    Some (if g = 0 \<or> length key \<noteq> SubprocessIPCKeyBytes A then Inl ErrIngressABI
          else Inr (SubprocessFrameVersion A # be64_bytes g @ key))"
proof -
  define n where "n = SubprocessBootstrapPacketBytes A"
  have n: "length key = SubprocessIPCKeyBytes A \<Longrightarrow> n = 9 + length key" using assms by (simp add: n_def abi_ok_def)
  show ?thesis
  proof (cases "g = 0 \<or> length key \<noteq> SubprocessIPCKeyBytes A")
    case True
    then show ?thesis by (simp add: encodeSubprocessBootstrap_def)
  next
    case False
    then have l: "n = 9 + length key" using n by simp
    define p where "p = overwrite 0 [SubprocessFrameVersion A] (replicate n 0)"
    define q where "q = overwrite 1 (be64_bytes g) p"
    have lp: "length p = n" "length q = n" using l by (simp_all add: p_def q_def)
    have e: "encodeSubprocessBootstrap A g key = Some (Inr (overwrite 9 key q))"
      using False l lp by (simp add: encodeSubprocessBootstrap_def go_simps put_u64_def p_def q_def n_def [symmetric])
    have "p = SubprocessFrameVersion A # replicate (8 + length key) 0"
      using l by (simp add: p_def overwrite_def)
    then have "q = SubprocessFrameVersion A # be64_bytes g @ replicate (length key) 0"
      by (simp add: q_def overwrite_def)
    then have "overwrite 9 key q = SubprocessFrameVersion A # be64_bytes g @ key"
      by (simp add: overwrite_def)
    then show ?thesis using False e by simp
  qed
qed

text \<open>
  What a launch relies on: the schedule after the \<open>select\<close> is not cut short, it goes on until the
  calls in progress and the read loop have returned. \<open>drain_sched_drains\<close> says that there is such a schedule for every
  closed session.
\<close>

definition drains :: "abi \<Rightarrow> 'x launch_env \<Rightarrow> bool" where
  "drains A e \<longleftrightarrow> (\<forall>x. sealed (sx_session x) \<longrightarrow> sx_work (sx_run A (le_after e x) x) = 0)"

definition launch_clean :: "'x launch_state \<Rightarrow> bool" where
  "launch_clean st \<longleftrightarrow> ls_parent st \<noteq> FdOpen \<and> ls_child st \<noteq> FdOpen \<and> ls_stdout st \<noteq> FdOpen \<and> ls_stderr st \<noteq> FdOpen \<and>
     ls_proc st \<noteq> Running \<and> \<not> ls_healthy st \<and> \<not> b_active (ls_broker st)"

lemma fd_close_not_open [simp]: "fd_close f \<noteq> FdOpen"
  by (simp add: fd_close_def)

lemma fd_close_None [simp]: "fd_close f = FdNone \<longleftrightarrow> f = FdNone"
  by (simp add: fd_close_def)

text \<open>The state in front of each phase.\<close>

definition fresh_launch :: "'x launch_state \<Rightarrow> bool" where
  "fresh_launch st \<longleftrightarrow> ls_parent st = FdNone \<and> ls_child st = FdNone \<and> ls_stdout st = FdNone \<and> ls_stderr st = FdNone \<and>
     ls_proc st = NotStarted \<and> \<not> ls_healthy st \<and> \<not> b_active (ls_broker st) \<and> ls_session st = None \<and> ls_key st = []"

definition before_start :: "u64 \<Rightarrow> 'x launch_state \<Rightarrow> bool" where
  "before_start c st \<longleftrightarrow> (ls_parent st = FdNone \<and> ls_child st = FdNone \<or> ls_parent st = FdOpen \<and> ls_child st = FdOpen \<and> ls_counter st = c + 1) \<and>
     ls_stdout st = FdNone \<and> ls_stderr st = FdNone \<and> ls_proc st = NotStarted \<and> \<not> ls_healthy st \<and> \<not> b_active (ls_broker st) \<and>
     ls_session st = None"

definition started :: "u64 \<Rightarrow> 'x launch_state \<Rightarrow> bool" where
  "started c st \<longleftrightarrow> (ls_parent st = FdNone \<or> ls_parent st = FdOpen \<and> ls_counter st = c + 1) \<and> ls_child st \<noteq> FdOpen \<and>
     ls_stdout st = FdOpen \<and> ls_stderr st = FdOpen \<and> ls_proc st = Running \<and> \<not> ls_healthy st"

lemma ingress_phase:
  assumes "abi_ok A" "fresh_launch st"
  obtains err st' where "runOnce_ingress A e st = Some (Inl err, st')" "launch_clean st'" "ls_session st' = None"
  | bootstrap st' where "runOnce_ingress A e st = Some (Inr bootstrap, st')" "before_start (ls_counter st) st'"
proof -
  have *: "(\<exists>err st'. runOnce_ingress A e st = Some (Inl err, st') \<and> launch_clean st' \<and> ls_session st' = None) \<or>
    (\<exists>bootstrap st'. runOnce_ingress A e st = Some (Inr bootstrap, st') \<and> before_start (ls_counter st) st')"
    using assms(2)
    by (cases "le_supported e"; cases "le_socketpair e"; cases "le_rand e")
      (auto simp: runOnce_ingress_def bootstrap_exact [OF assms(1)] fresh_launch_def before_start_def launch_clean_def
        closeIngressPair_def Let_def)
  then show thesis using that by blast
qed

lemma start_phase:
  assumes "before_start c st"
  obtains err st' where "runOnce_start args e st = (Some err, st')" "launch_clean st'" "ls_session st' = None"
  | st' where "runOnce_start args e st = (None, st')" "started c st'" "ls_session st' = None" "\<not> b_active (ls_broker st')"
proof -
  have *: "(\<exists>err st'. runOnce_start args e st = (Some err, st') \<and> launch_clean st' \<and> ls_session st' = None) \<or>
    (\<exists>st'. runOnce_start args e st = (None, st') \<and> started c st' \<and> ls_session st' = None \<and> \<not> b_active (ls_broker st'))"
    using assms
    by (cases "le_stdoutPipe e"; cases "le_stderrPipe e"; cases "le_start e")
      (auto simp: runOnce_start_def before_start_def started_def launch_clean_def closeIngressPair_def fd_close_def Let_def)
  then show thesis using that by blast
qed

lemma deactivate_inactive: "b_generation b = g \<or> \<not> b_active b \<Longrightarrow> \<not> b_active (broker_deactivate g b)"
  by (auto simp: broker_deactivate_def)

lemma activate_generation [simp]: "b_generation (broker_activate g n f b) = g"
  by (simp add: broker_activate_def)

lemma session_phase:
  assumes "started c st" "ls_session st = None" "\<not> b_active (ls_broker st)"
  obtains err st' where "runOnce_session A e bootstrap st = (Some (SendBootstrap err), st')" "launch_clean st'"
  | st' where "runOnce_session A e bootstrap st = (None, st')" "started c st'" "ls_session st' = None"
      "\<not> b_active (ls_broker st')" "ls_parent st' = FdNone"
  | st' where "runOnce_session A e bootstrap st = (None, st')" "started c st'"
      "ls_session st' = Some (newSubprocessIngressSession (c + 1) (ls_key st))" "b_generation (ls_broker st') = c + 1"
proof (cases "ls_parent st = FdNone")
  case True
  then show thesis using that(2) [of st] assms by (simp add: runOnce_session_def)
next
  case False
  then have c: "ls_counter st = c + 1" using assms(1) by (simp add: started_def)
  show thesis
  proof (cases "writeFullPacket (le_write e) bootstrap")
    case None
    show thesis
      by (rule that(3)) (use None False c assms(1) in \<open>auto simp: runOnce_session_def started_def Let_def\<close>)
  next
    case (Some err)
    show thesis
      by (rule that(1)) (use Some False assms in \<open>auto simp: runOnce_session_def started_def Let_def close_session_def
        session_close_unfold newSubprocessIngressSession_def cmd_wait_def launch_clean_def deactivate_inactive\<close>)
  qed
qed

lemma close_session_shut:
  assumes "close_session A reason s st = (s', st')" "b_generation (ls_broker st) = ss_generation s"
    and "ss_closed s \<Longrightarrow> \<not> b_active (ls_broker st)"
  shows "ss_closed s' \<and> \<not> b_active (ls_broker st') \<and> ls_parent st' \<noteq> FdOpen \<and> ls_child st' = ls_child st \<and>
    ls_stdout st' = ls_stdout st \<and> ls_stderr st' = ls_stderr st \<and> ls_proc st' = ls_proc st"
  using assms
  by (auto simp: close_session_def session_close_unfold notify_all_keeps deactivate_inactive split: if_splits)

text \<open>
  The session of a launch in the hands of its goroutines: a run of the session system, linked to the
  broker. Once it is closed and drained, \<open>wait\<close> returns and leaves neither a key nor an active broker.
\<close>

definition attended :: "abi \<Rightarrow> u64 \<Rightarrow> bytes \<Rightarrow> 'e session_system \<Rightarrow> bool" where
  "attended A g key x \<longleftrightarrow> (\<exists>x0 es. sxinit g key x0 \<and> run (sxstep A) x0 es x) \<and> sx_linked g x"

lemma attended_inv: "abi_ok A \<Longrightarrow> attended A g key x \<Longrightarrow> ident_ok g key x"
  unfolding attended_def using session_run_inv sess_invD(1) by blast

lemma attended_start:
  assumes "b_generation b = g"
  shows "attended A g key (session_start (newSubprocessIngressSession g key) b)"
  using session_start_init run_nil assms
  by (fastforce simp add: attended_def sx_linked_def linked_def session_start_def newSubprocessIngressSession_def)

lemma attended_run:
  assumes "attended A g key x"
  shows "attended A g key (sx_run A acts x)"
proof -
  obtain es where "run (sxstep A) x es (sx_run A acts x)" using sx_run_run by blast
  then show ?thesis using assms sx_run_linked run_append by (fastforce simp: attended_def)
qed

lemma attended_close:
  assumes "attended A g key x" "session_close A reason (sx_session x, sx_broker x) = (s, b)"
  shows "attended A g key (x\<lparr>sx_session := s, sx_broker := b\<rparr>)"
proof -
  have "run (sxstep A) x [XClose] (x\<lparr>sx_session := s, sx_broker := b\<rparr>)"
    by (rule run_one [of "sxstep A"]) (rule sx_close [OF assms(2)])
  then have "\<exists>x0 es. sxinit g key x0 \<and> run (sxstep A) x0 es (x\<lparr>sx_session := s, sx_broker := b\<rparr>)"
    using assms(1) run_append by (fastforce simp: attended_def)
  then show ?thesis using assms linked_close [of g "sx_session x" "sx_broker x" A reason]
    by (simp add: attended_def sx_linked_def)
qed

lemma attended_sealed: "abi_ok A \<Longrightarrow> attended A g key x \<Longrightarrow> ss_done (sx_session x) \<or> ss_closed (sx_session x) \<Longrightarrow> sealed (sx_session x)"
  using attended_inv [of A g key x] by (auto simp: attended_def sx_linked_def linked_def sealed_def ident_ok_def)

lemma select_phase:
  assumes sel: "runOnce_select A e x st = (err, x', st')" and x: "abi_ok A" "attended A g key x" and n: "ls_child st \<noteq> FdOpen"
  shows "attended A g key x' \<and> sealed (sx_session x') \<and>
    (\<not> b_active b \<longrightarrow> launch_clean (st'\<lparr>ls_session := y, ls_broker := b, ls_healthy := False\<rparr>))"
proof (cases "le_sessionFirst e \<and> ss_done (sx_session x)")
  case True
  then show ?thesis using sel x n attended_sealed [OF x]
    by (auto simp: runOnce_select_def Let_def cmd_wait_def launch_clean_def)
next
  case False
  obtain s c where cl: "session_close A (map_option ConnErr (le_wait e)) (sx_session x, sx_broker x) = (s, c)" by force
  have e: "x' = x\<lparr>sx_session := s, sx_broker := c\<rparr>"
    "ls_parent st' = fd_close (ls_parent st)" "ls_child st' = ls_child st" "ls_proc st' = Reaped"
    "ls_stdout st' = fd_close (ls_stdout st)" "ls_stderr st' = fd_close (ls_stderr st)"
    using sel cl by (auto simp: runOnce_select_def False Let_def close_session_def cmd_wait_def)
  have a: "attended A g key x'" using attended_close [OF x(2) cl] e(1) by simp
  moreover have "ss_closed (sx_session x')" using cl by (auto simp: e(1) session_close_unfold notify_all_keeps split: if_splits)
  ultimately show ?thesis using attended_sealed [OF x(1) a] n e(2-) by (simp add: launch_clean_def)
qed

lemma drained_launch:
  assumes "abi_ok A" "attended A g key x" "sealed (sx_session x)" "sx_work (sx_run A acts x) = 0"
  shows "\<exists>s. session_wait (sx_reading (sx_run A acts x)) (sx_session (sx_run A acts x)) = Some s \<and>
    (\<forall>b\<in>set (ss_key s). b = 0) \<and> \<not> b_active (sx_broker (sx_run A acts x))"
proof -
  have a: "attended A g key (sx_run A acts x)" by (rule attended_run [OF assms(2)])
  then have "ident_ok g key (sx_run A acts x)" by (rule attended_inv [OF assms(1)])
  from drained_waits [OF this assms(4)] show ?thesis
    using a sx_run_sealed [OF assms(3), of A acts] by (auto simp: attended_def sx_linked_def linked_def sealed_def)
qed

lemma supervise_phase:
  assumes st: "abi_ok A" "started c st" "drains A e"
    and s: "ls_session st = None \<and> \<not> b_active (ls_broker st) \<and> ls_parent st = FdNone \<or>
      ls_session st = Some (newSubprocessIngressSession (c + 1) key) \<and> b_generation (ls_broker st) = c + 1"
  shows "\<exists>err st'. runOnce_supervise A e st = Some (err, st') \<and> launch_clean st' \<and>
    (\<forall>s. ls_session st' = Some s \<longrightarrow> (\<forall>b\<in>set (ss_key s). b = 0))"
proof -
  define u where "u = runOnce_pipes e st"
  have u: "ls_parent u = ls_parent st" "ls_child u = ls_child st" "ls_stdout u = ls_stdout st" "ls_stderr u = ls_stderr st"
      "ls_session u = ls_session st" "ls_broker u = ls_broker st"
    by (simp_all add: u_def runOnce_pipes_def split: prod.split)
  show ?thesis
  proof (cases "ls_session st")
    case None
    then show ?thesis using s u st(2)
      by (auto simp: runOnce_supervise_def u_def [symmetric] Let_def cmd_wait_def launch_clean_def started_def)
  next
    case (Some s0)
    define x0 where "x0 = session_start s0 (ls_broker u)"
    define x1 where "x1 = sx_run A (le_schedule e x0) x0"
    have "attended A (c + 1) key x0" using attended_start [of "ls_broker u"] Some s u(6) by (auto simp: x0_def)
    then have x1: "attended A (c + 1) key x1" unfolding x1_def by (rule attended_run)
    obtain err x2 w where sel: "runOnce_select A e x1 u = (err, x2, w)" by (rule prod_cases3)
    have x2: "attended A (c + 1) key x2" "sealed (sx_session x2)"
      and cl: "\<not> b_active b \<Longrightarrow> launch_clean (w\<lparr>ls_session := y, ls_broker := b, ls_healthy := False\<rparr>)" for b y
      using select_phase [OF sel st(1) x1, of b y] st(2) u by (auto simp: started_def)
    have "sx_work (sx_run A (le_after e x2) x2) = 0" using st(3) x2(2) by (simp add: drains_def)
    from drained_launch [OF st(1) x2 this] show ?thesis using Some u(5) sel cl
      by (auto simp: runOnce_supervise_def u_def [symmetric] x0_def [symmetric] x1_def [symmetric] Let_def)
  qed
qed

lemma runOnce_clean:
  assumes "abi_ok A" "\<not> ls_healthy st" "\<not> b_active (ls_broker st)" "drains A e"
  shows "\<exists>err st'. runOnce A jvmArgs e st = Some (err, st') \<and> launch_clean st' \<and> (\<forall>b\<in>set (ls_key st'). b = 0) \<and>
    ((\<forall>x. err \<noteq> Some (SendBootstrap x)) \<longrightarrow> (\<forall>s. ls_session st' = Some s \<longrightarrow> (\<forall>b\<in>set (ss_key s). b = 0)))"
proof -
  define c where "c = ls_counter st"
  define s0 where "s0 = st\<lparr>ls_parent := FdNone, ls_child := FdNone, ls_stdout := FdNone, ls_stderr := FdNone,
      ls_proc := NotStarted, ls_key := [], ls_session := None\<rparr>"
  define body where "body = (case runOnce_ingress A e s0 of
      None \<Rightarrow> None
    | Some (Inl err, st) \<Rightarrow> Some (Some err, st)
    | Some (Inr bootstrap, st) \<Rightarrow>
        (case runOnce_start jvmArgs e st of
           (Some err, st) \<Rightarrow> Some (Some err, st)
         | (None, st) \<Rightarrow>
             (case runOnce_session A e bootstrap st of
                (Some err, st) \<Rightarrow> Some (Some err, st)
              | (None, st) \<Rightarrow> runOnce_supervise A e st)))"
  have f: "fresh_launch s0" "ls_counter s0 = c" using assms(2,3) by (simp_all add: s0_def fresh_launch_def c_def)
  have "\<exists>err st'. body = Some (err, st') \<and> launch_clean st' \<and>
      ((\<forall>x. err \<noteq> Some (SendBootstrap x)) \<longrightarrow> (\<forall>s. ls_session st' = Some s \<longrightarrow> (\<forall>b\<in>set (ss_key s). b = 0)))"
    using assms(1) f(1)
  proof (cases rule: ingress_phase [of A s0 e])
    case (1 err st')
    then show ?thesis by (simp add: body_def)
  next
    case (2 bootstrap s1)
    note i = 2(1) and b = 2(2) [unfolded f(2)]
    from b show ?thesis
    proof (cases rule: start_phase [of c s1 jvmArgs e])
      case (1 err st')
      then show ?thesis using i by (simp add: body_def)
    next
      case (2 s2)
      note s = 2(1)
      from 2(2-4) show ?thesis
      proof (cases rule: session_phase [of c s2 A e bootstrap])
        case (1 err st')
        then show ?thesis using i s by (simp add: body_def)
      next
        case (2 s3)
        then show ?thesis using i s supervise_phase [OF assms(1) 2(2) assms(4)] by (auto simp: body_def)
      next
        case (3 s3)
        then show ?thesis using i s supervise_phase [OF assms(1) 3(2) assms(4), where key = "ls_key s2"] by (auto simp: body_def)
      qed
    qed
  qed
  then obtain err st' where body: "body = Some (err, st')" "launch_clean st'"
    "(\<forall>x. err \<noteq> Some (SendBootstrap x)) \<longrightarrow> (\<forall>s. ls_session st' = Some s \<longrightarrow> (\<forall>b\<in>set (ss_key s). b = 0))" by blast
  have "runOnce A jvmArgs e st = Some (err, st'\<lparr>ls_key := map (\<lambda>_. 0) (ls_key st')\<rparr>)"
    using body(1) by (simp add: runOnce_def s0_def [symmetric] body_def [symmetric] Let_def)
  then show ?thesis using body(2,3) by (simp add: launch_clean_def)
qed


text \<open>
  A launch whose child exits with status 0 while the read loop sees the end of the stream first.
\<close>

definition demo_env :: "bool \<Rightarrow> 'x launch_env" where
  "demo_env sessionFirst = \<lparr>le_supported = True, le_socketpair = None, le_rand = Inr (replicate (SubprocessIPCKeyBytes abi_v1) 7),
     le_stdoutPipe = None, le_stderrPipe = None, le_start = None,
     le_write = (SubprocessBootstrapPacketBytes abi_v1, None), le_wait = None, le_sessionFirst = sessionFirst,
     le_schedule = (\<lambda>_. [DoRead 0 (Inl ReadClosed)]), le_after = (\<lambda>x. drain_sched abi_v1 (sx_work x) x),
     le_stdout = [], le_stderr = []\<rparr>"

definition demo_launch :: "'x launch_state" where
  "demo_launch = \<lparr>ls_counter = 0, ls_parent = FdNone, ls_child = FdNone, ls_stdout = FdNone, ls_stderr = FdNone,
     ls_proc = NotStarted, ls_terms = 0, ls_args = [], ls_key = [], ls_session = None,
     ls_broker = newIngressBroker defaultIngressQueueCapacity, ls_healthy = False, ls_log = []\<rparr>"

lemma demo_drains: "drains abi_v1 (demo_env f)"
  by (simp add: drains_def demo_env_def drain_sched_drains)

lemma demo_launch_ok: "\<not> ls_healthy demo_launch" "\<not> b_active (ls_broker demo_launch)"
  by (simp_all add: demo_launch_def newIngressBroker_def Let_def)


text \<open>
  The order in which the parent notices that the child has exited decides the outcome: a child
  that exits with status 0 makes \<open>runOnce\<close> return nil when \<open>cmd.Wait\<close> comes first, and an error,
  hence a restart, when the read loop has already seen the end of the stream.
\<close>

lemma clean_exit_race:
  assumes "session_err (sx_session x) = Some EOFErr" "ss_done (sx_session x)" "le_wait e = None"
  shows "fst (runOnce_select A (e\<lparr>le_sessionFirst := True\<rparr>) x st) = Some EOFErr"
    "fst (runOnce_select A (e\<lparr>le_sessionFirst := False\<rparr>) x st) = None"
    "launch_result (Some EOFErr) \<noteq> None" "launch_result None = None"
  using assms by (simp_all add: runOnce_select_def Let_def launch_result_def split: prod.split)

section \<open>The restart loop\<close>

text \<open>
  The launches of a run, when each of them returns: \<open>errs i\<close> is what attempt \<open>i\<close> returned, \<open>ts i\<close> the
  state in front of it. \<open>attempt_ends\<close> says whether the loop ends with attempt \<open>i\<close>.
\<close>

definition launches :: "('s, 'x, 'c) loop_env \<Rightarrow> (nat \<Rightarrow> 'x option) \<Rightarrow> (nat \<Rightarrow> 's) \<Rightarrow> bool" where
  "launches p errs ts \<longleftrightarrow> (\<forall>i. lp_once p i (ts i) = Some (errs i, ts (Suc i)))"

definition attempt_ends :: "('s, 'x, 'c) loop_env \<Rightarrow> (nat \<Rightarrow> 'x option) \<Rightarrow> nat \<Rightarrow> bool" where
  "attempt_ends p errs i \<longleftrightarrow> (case errs i of None \<Rightarrow> True | Some x \<Rightarrow> lp_canceled p x) \<or> lp_stop p i"

lemma runLoop_step:
  assumes "launches p errs ts" "\<not> (maxRetries > 0 \<and> int i \<ge> maxRetries)"
  shows "runLoop p maxRetries i b slept (ts i) =
    (if attempt_ends p errs i then Some (CtxResult (lp_ctxErr p i), Suc i, slept, ts (Suc i))
     else runLoop p maxRetries (Suc i) (snd (backoff_next b)) (slept @ [fst (backoff_next b)]) (ts (Suc i)))"
  using assms by (subst runLoop.simps) (auto simp: attempt_ends_def launches_def split: prod.splits option.splits)

lemma runLoop_skip:
  assumes "launches p errs ts"
    and "\<And>j. i \<le> j \<Longrightarrow> j < k \<Longrightarrow> \<not> attempt_ends p errs j" "maxRetries > 0 \<Longrightarrow> int k \<le> maxRetries" "i \<le> k"
  shows "\<exists>b'. runLoop p maxRetries i b slept (ts i) = runLoop p maxRetries k b' (slept @ delays (k - i) b) (ts k)"
  using assms(2-4)
proof (induction "k - i" arbitrary: i b slept)
  case 0
  then show ?case by auto
next
  case (Suc n)
  then have ik: "i < k" by simp
  then have ki: "k - i = Suc (k - Suc i)" by simp
  have "runLoop p maxRetries i b slept (ts i) =
      runLoop p maxRetries (Suc i) (snd (backoff_next b)) (slept @ [fst (backoff_next b)]) (ts (Suc i))"
    using Suc.prems ik by (subst runLoop_step [OF assms(1)]) auto
  moreover have "\<exists>b'. runLoop p maxRetries (Suc i) (snd (backoff_next b)) (slept @ [fst (backoff_next b)]) (ts (Suc i))
      = runLoop p maxRetries k b' ((slept @ [fst (backoff_next b)]) @ delays (k - Suc i) (snd (backoff_next b))) (ts k)"
    using Suc ik by (intro Suc.hyps(1)) auto
  ultimately show ?case by (cases "backoff_next b") (simp add: ki)
qed

lemma runLoop_ends:
  assumes l: "launches p errs ts" and "attempt_ends p errs k" "\<And>j. j < k \<Longrightarrow> \<not> attempt_ends p errs j"
    "maxRetries > 0 \<Longrightarrow> int k < maxRetries"
  shows "runLoop p maxRetries 0 b [] (ts 0) = Some (CtxResult (lp_ctxErr p k), Suc k, delays k b, ts (Suc k))"
proof -
  obtain b' where "runLoop p maxRetries 0 b [] (ts 0) = runLoop p maxRetries k b' ([] @ delays (k - 0) b) (ts k)"
    using runLoop_skip [OF l, of 0 k maxRetries b "[]"] assms(3,4) by fastforce
  moreover have "runLoop p maxRetries k b' (delays k b) (ts k) = Some (CtxResult (lp_ctxErr p k), Suc k, delays k b, ts (Suc k))"
    using assms(2,4) by (subst runLoop_step [OF l]) auto
  ultimately show ?thesis by simp
qed

lemma runLoop_gives_up:
  assumes l: "launches p errs ts" and "\<And>j. j < n \<Longrightarrow> \<not> attempt_ends p errs j" "0 < n"
  shows "runLoop p (int n) 0 b [] (ts 0) = Some (MaxRetriesExceeded (int n), n, delays n b, ts n)"
proof -
  obtain b' where "runLoop p (int n) 0 b [] (ts 0) = runLoop p (int n) n b' ([] @ delays (n - 0) b) (ts n)"
    using runLoop_skip [OF l, of 0 n "int n" b "[]"] assms by auto
  moreover have "runLoop p (int n) n b' (delays n b) (ts n) = Some (MaxRetriesExceeded (int n), n, delays n b, ts n)"
    using assms(3) by (subst runLoop.simps) simp
  ultimately show ?thesis by simp
qed

lemma runLoop_returns_only:
  assumes "runLoop p maxRetries i b slept t = Some r"
  shows "maxRetries \<le> 0 \<longrightarrow> (\<forall>errs ts. launches p errs ts \<and> t = ts i \<longrightarrow> (\<exists>k \<ge> i. attempt_ends p errs k))"
proof (rule runLoop.raw_induct [OF _ assms, where P = "\<lambda>p maxRetries i b slept t r.
    maxRetries \<le> 0 \<longrightarrow> (\<forall>errs ts. launches p errs ts \<and> t = ts i \<longrightarrow> (\<exists>k \<ge> i. attempt_ends p errs k))"], goal_cases)
  case (1 f p m i b slept t r)
  note IH = 1(1) and eq = 1(2)
  show ?case
  proof (intro impI allI, elim conjE)
    fix errs ts assume m: "m \<le> 0" and l: "launches p errs ts" and t: "t = ts i"
    show "\<exists>k \<ge> i. attempt_ends p errs k"
    proof (cases "attempt_ends p errs i")
      case False
      have o: "lp_once p i t = Some (errs i, ts (Suc i))" using l by (simp add: t launches_def)
      obtain d b' where n: "backoff_next b = (d, b')" by force
      have "f p m (Suc i) b' (slept @ [d]) (ts (Suc i)) = Some r"
        using eq m False o n by (auto simp: attempt_ends_def split: option.splits if_splits)
      then have "\<exists>k \<ge> Suc i. attempt_ends p errs k" using IH m l by blast
      then show ?thesis using Suc_leD by blast
    qed auto
  qed
qed

text \<open>
  C31: The restart loop with a limit of \<open>n > 0\<close> retries always returns, if its launches do. If some attempt below
  \<open>n\<close> ends the loop (the launch returned without error or with a cancellation, or the context was
  done in the backoff after it), the first such attempt is the last launch, its context error is the
  result and the loop slept exactly the backoff delays between the attempts before; otherwise it
  gives up after exactly \<open>n\<close> launches, that is after \<open>n - 1\<close> restarts.
\<close>

theorem runLoop_bounded:
  assumes "0 < n" "launches p errs ts"
  shows "case (find (attempt_ends p errs) [0..<n]) of
      Some k \<Rightarrow> runLoop p (int n) 0 b [] (ts 0) = Some (CtxResult (lp_ctxErr p k), Suc k, delays k b, ts (Suc k))
    | None \<Rightarrow> runLoop p (int n) 0 b [] (ts 0) = Some (MaxRetriesExceeded (int n), n, delays n b, ts n)"
proof (cases "find (attempt_ends p errs) [0..<n]")
  case None
  then have "\<not> attempt_ends p errs j" if "j < n" for j using that by (auto simp: find_None_iff)
  then show ?thesis using None runLoop_gives_up [OF assms(2), of n b] assms(1) by simp
next
  case (Some k)
  then have "k < n" "attempt_ends p errs k" "\<And>j. j < k \<Longrightarrow> \<not> attempt_ends p errs j"
    by (auto simp: find_Some_iff)
  then show ?thesis using Some runLoop_ends [OF assms(2), of k "int n" b] by auto
qed

definition demo_loop :: "(nat, unit, unit) loop_env" where
  "demo_loop = \<lparr>lp_once = (\<lambda>i s. Some (if i < 2 then Some () else None, s + 1)), lp_canceled = (\<lambda>_. False), lp_ctxErr = (\<lambda>_. None),
     lp_stop = (\<lambda>_. False)\<rparr>"

definition demo_errs :: "nat \<Rightarrow> unit option" where
  "demo_errs i = (if i < 2 then Some () else None)"

lemma demo_launches: "launches demo_loop demo_errs id"
  by (simp add: launches_def demo_loop_def demo_errs_def)

theorem runLoop_bounded_witness:
  "runLoop demo_loop 5 0 (newBackoff second (60 * second)) [] 0 = Some (CtxResult None, 3, [second, 2 * second], 3) \<and>
   runLoop demo_loop 2 0 (newBackoff second (60 * second)) [] 0 = Some (MaxRetriesExceeded 2, 2, [second, 2 * second], 2)"
proof -
  have e: "find (attempt_ends demo_loop demo_errs) [0..<5] = Some 2" "find (attempt_ends demo_loop demo_errs) [0..<2] = None"
    by (simp_all add: upt_rec attempt_ends_def demo_loop_def demo_errs_def)
  have d: "delays 2 (newBackoff second minute) = [second, 2000000000]"
    by (simp add: numeral_2_eq_2 newBackoff_def backoff_next_def int64_wrap_def Let_def)
  have c: "lp_ctxErr demo_loop 2 = None" by (simp add: demo_loop_def)
  show ?thesis
    using runLoop_bounded [OF _ demo_launches, of 5 "newBackoff second (60 * second)"]
      runLoop_bounded [OF _ demo_launches, of 2 "newBackoff second (60 * second)"]
    by (simp add: e d c)
qed

text \<open>
  C32: The restart loop without a limit runs until it is told to stop. Given that its launches return, it
  returns exactly when some attempt ends it, in which case it returns the context error after the first such
  attempt; if every launch fails and the context is never done, it restarts for ever.
\<close>

theorem runLoop_unbounded:
  assumes "maxRetries \<le> 0" "launches p errs ts"
  shows "((\<exists>r. runLoop p maxRetries 0 b [] (ts 0) = Some r) \<longleftrightarrow> (\<exists>k. attempt_ends p errs k)) \<and>
    (\<forall>k. attempt_ends p errs k \<and> (\<forall>j<k. \<not> attempt_ends p errs j) \<longrightarrow>
       runLoop p maxRetries 0 b [] (ts 0) = Some (CtxResult (lp_ctxErr p k), Suc k, delays k b, ts (Suc k)))"
proof -
  have first: "runLoop p maxRetries 0 b [] (ts 0) = Some (CtxResult (lp_ctxErr p k), Suc k, delays k b, ts (Suc k))"
    if "attempt_ends p errs k" "\<forall>j<k. \<not> attempt_ends p errs j" for k
    using that assms by (intro runLoop_ends [OF assms(2)]) auto
  have "\<exists>r. runLoop p maxRetries 0 b [] (ts 0) = Some r" if "attempt_ends p errs k" for k
    using first LeastI [of "attempt_ends p errs", OF that] not_less_Least [of _ "attempt_ends p errs"] by blast
  moreover have "\<exists>k. attempt_ends p errs k" if "runLoop p maxRetries 0 b [] (ts 0) = Some r" for r
    using runLoop_returns_only [OF that] assms by blast
  ultimately show ?thesis using first by blast
qed

theorem runLoop_unbounded_witness:
  "runLoop demo_loop 0 0 (newBackoff second (60 * second)) [] 0 = Some (CtxResult None, 3, delays 2 (newBackoff second (60 * second)), 3)"
proof -
  have "attempt_ends demo_loop demo_errs 2" "\<forall>j<2. \<not> attempt_ends demo_loop demo_errs j"
    by (auto simp: attempt_ends_def demo_loop_def demo_errs_def less_2_cases_iff)
  then have "runLoop demo_loop 0 0 (newBackoff second (60 * second)) [] (id 0) =
      Some (CtxResult (lp_ctxErr demo_loop 2), Suc 2, delays 2 (newBackoff second (60 * second)), id (Suc 2))"
    using runLoop_unbounded [OF _ demo_launches, of 0 "newBackoff second (60 * second)"] by blast
  moreover have "lp_ctxErr demo_loop 2 = None" by (simp add: demo_loop_def)
  ultimately show ?thesis by simp
qed

end
