(* ===== verification/Assets.thy ===== *)
theory Assets
  imports Options Go_Crypto
begin

text \<open>
  Finding the native binary or library: \<^verbatim>\<open>go/locate.go\<close>, the verified download of
  \<^verbatim>\<open>go/download.go\<close> and the extraction of embedded assets of \<^verbatim>\<open>go/embed.go\<close>.

  The operating system and the network are arguments. The file system is a map from paths to
  files; a \<open>dl_env\<close> says what the calls of one download answer, and what other processes do
  to the files between the verification of the temporary file and the final look at the cache.
\<close>

unbundle bit_operations_syntax

section \<open>locate.go\<close>

record stat_info =
  st_dir :: bool
  st_mode :: nat

datatype 'e check_error = StatErr 'e | IsDirectory | NotExecutable

datatype assetKind = assetKindBinary | assetKindLibrary

record ('e, 's) locate_env =
  lc_goos :: string
  lc_getenv :: env
  lc_stat :: "string \<Rightarrow> 'e + stat_info"
  lc_embeddedBinary :: "'s \<Rightarrow> ('e + (string \<times> bool)) \<times> 's"
  lc_embeddedLibrary :: "'s \<Rightarrow> ('e + (string \<times> bool)) \<times> 's"
  lc_lookPath :: "string \<Rightarrow> 'e + string"
  lc_download :: "assetKind \<Rightarrow> 's \<Rightarrow> ('e + string) \<times> 's"

datatype 'e locate_error =
    PathErr string "'e check_error"
  | EnvErr string "'e check_error"
  | EmbedErr 'e
  | AutoDownloadFailed sentinel 'e
  | NotFound sentinel

definition executableAt :: "('e, 's) locate_env \<Rightarrow> string \<Rightarrow> 'e check_error option" where
  "executableAt e p =
     (case lc_stat e p of
        Inl err \<Rightarrow> Some (StatErr err)
      | Inr info \<Rightarrow>
          if st_dir info then Some IsDirectory
          else if lc_goos e \<noteq> ''windows'' \<and> st_mode info AND 73 = 0 then Some NotExecutable
          else None)"

definition fileAt :: "('e, 's) locate_env \<Rightarrow> string \<Rightarrow> 'e check_error option" where
  "fileAt e p =
     (case lc_stat e p of
        Inl err \<Rightarrow> Some (StatErr err)
      | Inr info \<Rightarrow> if st_dir info then Some IsDirectory else None)"

definition libraryName :: "string \<Rightarrow> string" where
  "libraryName goos =
     (if goos = ''darwin'' then ''libgeyserlite.dylib''
      else if goos = ''windows'' then ''geyserlite.dll''
      else ''libgeyserlite.so'')"

definition systemLibDirs :: "env \<Rightarrow> string list" where
  "systemLibDirs getenv =
     (let dirs = [''/usr/local/lib'', ''/usr/lib'']
      in if getenv ''LD_LIBRARY_PATH'' \<noteq> '''' then SplitList (getenv ''LD_LIBRARY_PATH'') @ dirs else dirs)"

text \<open>The last two sources, which both locators end with: the download and the sentinel.\<close>

definition locateRemote ::
    "('e, 's) locate_env \<Rightarrow> bool \<Rightarrow> assetKind \<Rightarrow> sentinel \<Rightarrow> 's \<Rightarrow> ('e locate_error + string) \<times> 's" where
  "locateRemote e offline kind missing s =
     (if \<not> offline
      then (case lc_download e kind s of
              (Inr path, s) \<Rightarrow> (Inr path, s)
            | (Inl err, s) \<Rightarrow> (Inl (AutoDownloadFailed missing err), s))
      else (Inl (NotFound missing), s))"

definition locateBinary ::
    "('e, 's) locate_env \<Rightarrow> ('l, 'o) Options \<Rightarrow> 's \<Rightarrow> ('e locate_error + string) \<times> 's" where
  "locateBinary e opts s =
     (if op_BinaryPath opts \<noteq> ''''
      then (case executableAt e (op_BinaryPath opts) of
              Some err \<Rightarrow> (Inl (PathErr (op_BinaryPath opts) err), s)
            | None \<Rightarrow> (Inr (op_BinaryPath opts), s))
      else if lc_getenv e ''GEYSERLITE_BINARY'' \<noteq> ''''
      then (case executableAt e (lc_getenv e ''GEYSERLITE_BINARY'') of
              Some err \<Rightarrow> (Inl (EnvErr (lc_getenv e ''GEYSERLITE_BINARY'') err), s)
            | None \<Rightarrow> (Inr (lc_getenv e ''GEYSERLITE_BINARY''), s))
      else
        (case lc_embeddedBinary e s of
           (Inl err, s) \<Rightarrow> (Inl (EmbedErr err), s)
         | (Inr (path, True), s) \<Rightarrow> (Inr path, s)
         | (Inr (_, False), s) \<Rightarrow>
             (case lc_lookPath e ''geyserlite'' of
                Inr path \<Rightarrow> (Inr path, s)
              | Inl _ \<Rightarrow> locateRemote e (op_Offline opts) assetKindBinary ErrNoBinary s)))"

text \<open>The first of the directories that holds the library.\<close>

fun searchDirs :: "('e, 's) locate_env \<Rightarrow> string list \<Rightarrow> string option" where
  "searchDirs e [] = None"
| "searchDirs e (dir # dirs) =
     (let p = path_join [dir, libraryName (lc_goos e)] in
      if fileAt e p = None then Some p else searchDirs e dirs)"

definition locateLibrary ::
    "('e, 's) locate_env \<Rightarrow> ('l, 'o) Options \<Rightarrow> 's \<Rightarrow> ('e locate_error + string) \<times> 's" where
  "locateLibrary e opts s =
     (if op_LibraryPath opts \<noteq> ''''
      then (case fileAt e (op_LibraryPath opts) of
              Some err \<Rightarrow> (Inl (PathErr (op_LibraryPath opts) err), s)
            | None \<Rightarrow> (Inr (op_LibraryPath opts), s))
      else if lc_getenv e ''GEYSERLITE_LIBRARY'' \<noteq> ''''
      then (case fileAt e (lc_getenv e ''GEYSERLITE_LIBRARY'') of
              Some err \<Rightarrow> (Inl (EnvErr (lc_getenv e ''GEYSERLITE_LIBRARY'') err), s)
            | None \<Rightarrow> (Inr (lc_getenv e ''GEYSERLITE_LIBRARY''), s))
      else
        (case lc_embeddedLibrary e s of
           (Inl err, s) \<Rightarrow> (Inl (EmbedErr err), s)
         | (Inr (path, True), s) \<Rightarrow> (Inr path, s)
         | (Inr (_, False), s) \<Rightarrow>
             (case searchDirs e (systemLibDirs (lc_getenv e)) of
                Some p \<Rightarrow> (Inr p, s)
              | None \<Rightarrow> locateRemote e (op_Offline opts) assetKindLibrary ErrNoLibrary s)))"

section \<open>download.go\<close>

definition DefaultVersion :: string where
  "DefaultVersion = ''v0.7.6''"

definition DefaultDownloadBase :: string where
  "DefaultDownloadBase = ''https://github.com/minekube/geyserlite/releases/download''"

datatype asset_error = UnsupportedArch string | UnsupportedWindows string string | UnsupportedOS string string

definition assetFor :: "assetKind \<Rightarrow> string \<Rightarrow> string \<Rightarrow> asset_error + string" where
  "assetFor kind goos goarch =
     (if goarch \<noteq> ''amd64'' \<and> goarch \<noteq> ''arm64'' then Inl (UnsupportedArch goarch)
      else
        (let arch = goarch in
         if goos = ''windows'' then
           (if kind = assetKindBinary \<and> arch = ''amd64'' then Inr ''geyserlite-windows-amd64.exe''
            else Inl (UnsupportedWindows goos goarch))
         else if goos \<noteq> ''linux'' then Inl (UnsupportedOS goos goarch)
         else (case kind of
                 assetKindBinary \<Rightarrow> Inr (''geyserlite-linux-'' @ arch)
               | assetKindLibrary \<Rightarrow> Inr (''libgeyserlite-linux-'' @ arch @ ''.so''))))"

text \<open>
  The answer to a request: the status, the bytes of the body and the error, if any, that ends the
  body early.
\<close>

record 'e response =
  rs_status :: nat
  rs_body :: bytes
  rs_err :: "'e option"

record 'e dl_env =
  dl_goos :: string
  dl_goarch :: string
  dl_cacheDir :: "'e + string"
  dl_get :: "string \<Rightarrow> 'e + 'e response"
  dl_readErr :: "string \<Rightarrow> 'e option"
  dl_mkdirErr :: "'e option"
  dl_createTemp :: "'e + string"
  dl_openErr :: "'e option"
  dl_closeErr :: "'e option"
  dl_chmodOK :: bool
  dl_removeOK :: bool
  dl_renameErr :: "'e option"
  dl_others :: "files \<Rightarrow> files"

datatype 'e download_error =
    AssetErr asset_error | CacheErr 'e | HttpErr 'e | HttpStatus nat | ReadErr 'e | NotListed string string
  | MkdirErr 'e | TempErr 'e | GetErr "'e download_error" | OpenErr 'e | CopyErr 'e | CloseErr 'e
  | ShaErr "'e option" | ShaMismatch string string | RenameErr 'e

definition httpGet :: "'e dl_env \<Rightarrow> string \<Rightarrow> 'e download_error + 'e response" where
  "httpGet e url =
     (case dl_get e url of
        Inl err \<Rightarrow> Inl (HttpErr err)
      | Inr resp \<Rightarrow> if rs_status resp div 100 \<noteq> 2 then Inl (HttpStatus (rs_status resp)) else Inr resp)"

text \<open>The loop over the lines of \<open>checksums.txt\<close>.\<close>

fun findSha :: "string \<Rightarrow> string list \<Rightarrow> string option" where
  "findSha assetName [] = None"
| "findSha assetName (line # ls) =
     (case Fields line of
        [sha, file] \<Rightarrow>
          (let name = TrimPrefix file ''*'' in
           if name = assetName \<or> HasSuffix name (CHR ''/'' # assetName) then Some (ToLower sha)
           else findSha assetName ls)
      | _ \<Rightarrow> findSha assetName ls)"

text \<open>\<open>io.LimitReader\<close> ends the body after a mebibyte, before an error that comes later.\<close>

definition manifestLimit :: nat where
  "manifestLimit = 2 ^ 20"

definition fetchExpectedSha ::
    "'e dl_env \<Rightarrow> string \<Rightarrow> string \<Rightarrow> string \<Rightarrow> 'e download_error + string" where
  "fetchExpectedSha e base version assetName =
     (case httpGet e (TrimSuffix base ''/'' @ ''/'' @ version @ ''/checksums.txt'') of
        Inl err \<Rightarrow> Inl (GetErr err)
      | Inr resp \<Rightarrow>
          (case (if length (rs_body resp) < manifestLimit then rs_err resp else None) of
             Some err \<Rightarrow> Inl (ReadErr err)
           | None \<Rightarrow>
               (case findSha assetName (SplitByte CHR 0x0A (string_of_bytes (take manifestLimit (rs_body resp)))) of
                  Some sha \<Rightarrow> Inr sha
                | None \<Rightarrow> Inl (NotListed assetName version))))"

definition verifiedDownloadPath :: "string \<Rightarrow> string \<Rightarrow> string \<Rightarrow> string" where
  "verifiedDownloadPath dir assetName expectedSha = path_join [dir, expectedSha, assetName]"

text \<open>\<open>os.Open\<close> and \<open>streamSha\<close> on a path; a file that does not exist is the error \<open>None\<close>.\<close>

definition hexSha :: "bytes \<Rightarrow> string" where
  "hexSha data = hexEncode (sha256 data)"

definition shaFile :: "'e dl_env \<Rightarrow> string \<Rightarrow> files \<Rightarrow> 'e option + string" where
  "shaFile e path fs =
     (case fs path of
        None \<Rightarrow> Inl None
      | Some f \<Rightarrow> (case dl_readErr e path of Some err \<Rightarrow> Inl (Some err) | None \<Rightarrow> Inr (hexSha (f_data f))))"

definition cacheHit :: "'e dl_env \<Rightarrow> string \<Rightarrow> string \<Rightarrow> files \<Rightarrow> bool" where
  "cacheHit e path expectedSha fs \<longleftrightarrow> shaFile e path fs = Inr expectedSha"

definition osRemove :: "'e dl_env \<Rightarrow> string \<Rightarrow> files \<Rightarrow> files" where
  "osRemove e path fs = (if dl_removeOK e then fs(path := None) else fs)"

text \<open>\<open>downloadFile\<close>: the destination exists, so its mode stays.\<close>

definition downloadFile ::
    "'e dl_env \<Rightarrow> string \<Rightarrow> string \<Rightarrow> files \<Rightarrow> 'e download_error option \<times> files" where
  "downloadFile e url dest fs =
     (case httpGet e url of
        Inl err \<Rightarrow> (Some (GetErr err), fs)
      | Inr resp \<Rightarrow>
          (case dl_openErr e of
             Some err \<Rightarrow> (Some (OpenErr err), fs)
           | None \<Rightarrow>
               (let mode = (case fs dest of Some f \<Rightarrow> f_mode f | None \<Rightarrow> 420);
                    fs = fs(dest \<mapsto> \<lparr>f_data = rs_body resp, f_mode = mode\<rparr>)
                in case rs_err resp of
                     Some err \<Rightarrow> (Some (CopyErr err), fs)
                   | None \<Rightarrow> (map_option CloseErr (dl_closeErr e), fs))))"

text \<open>From the temporary file on.\<close>

definition fetchInto ::
    "'e dl_env \<Rightarrow> assetKind \<Rightarrow> string \<Rightarrow> string \<Rightarrow> string \<Rightarrow> string \<Rightarrow> files \<Rightarrow> ('e download_error + string) \<times> files" where
  "fetchInto e kind url cachedPath expectedSha tmpPath fs =
     (case downloadFile e url tmpPath fs of
        (Some err, fs) \<Rightarrow> (Inl err, osRemove e tmpPath fs)
      | (None, fs) \<Rightarrow>
          (case shaFile e tmpPath fs of
             Inl err \<Rightarrow> (Inl (ShaErr err), osRemove e tmpPath fs)
           | Inr gotSha \<Rightarrow>
               if gotSha \<noteq> expectedSha then (Inl (ShaMismatch gotSha expectedSha), osRemove e tmpPath fs)
               else
                 (let fs = (if kind = assetKindBinary \<and> dl_chmodOK e
                            then fs(tmpPath := map_option (\<lambda>f. f\<lparr>f_mode := 493\<rparr>) (fs tmpPath)) else fs);
                      fs = dl_others e fs
                  in if cacheHit e cachedPath expectedSha fs then (Inr cachedPath, osRemove e tmpPath fs)
                     else case dl_renameErr e of
                       Some err \<Rightarrow> (Inl (RenameErr err), osRemove e tmpPath fs)
                     | None \<Rightarrow> (Inr cachedPath, fs(cachedPath := fs tmpPath, tmpPath := None)))))"

definition downloadAsset ::
    "'e dl_env \<Rightarrow> ('l, 'o) Options \<Rightarrow> assetKind \<Rightarrow> files \<Rightarrow> ('e download_error + string) \<times> files" where
  "downloadAsset e opts kind fs =
     (let version = (if op_Version opts = '''' then DefaultVersion else op_Version opts);
          base = (if op_Mirror opts = '''' then DefaultDownloadBase else op_Mirror opts)
      in case assetFor kind (dl_goos e) (dl_goarch e) of
           Inl err \<Rightarrow> (Inl (AssetErr err), fs)
         | Inr assetName \<Rightarrow>
             (case dl_cacheDir e of
                Inl err \<Rightarrow> (Inl (CacheErr err), fs)
              | Inr cacheDir \<Rightarrow>
                  (let dir = path_join [cacheDir, ''geyserlite'', version];
                       legacyCachedPath = path_join [dir, assetName]
                   in case fetchExpectedSha e base version assetName of
                        Inl err \<Rightarrow> (Inl err, fs)
                      | Inr expectedSha \<Rightarrow>
                          (let cachedPath = verifiedDownloadPath dir assetName expectedSha in
                           if cacheHit e cachedPath expectedSha fs then (Inr cachedPath, fs)
                           else if legacyCachedPath \<noteq> cachedPath \<and> cacheHit e legacyCachedPath expectedSha fs
                           then (Inr legacyCachedPath, fs)
                           else case dl_mkdirErr e of
                             Some err \<Rightarrow> (Inl (MkdirErr err), fs)
                           | None \<Rightarrow>
                               (case dl_createTemp e of
                                  Inl err \<Rightarrow> (Inl (TempErr err), fs)
                                | Inr tmpPath \<Rightarrow>
                                    fetchInto e kind (TrimSuffix base ''/'' @ ''/'' @ version @ ''/'' @ assetName)
                                      cachedPath expectedSha tmpPath (fs(tmpPath \<mapsto> \<lparr>f_data = [], f_mode = 384\<rparr>)))))))"

section \<open>embed.go\<close>

datatype 'e extract_error = EmbedCacheErr 'e | EmbedStatErr 'e | EmbedMkdirErr 'e | EmbedWriteErr 'e | EmbedRenameErr 'e

record 'e ex_env =
  ex_cacheDir :: "'e + string"
  ex_statErr :: "'e option"
  ex_mkdirErr :: "'e option"
  ex_fault :: "'e write_fault"
  ex_renameErr :: "'e option"

text \<open>\<open>None\<close> in the result says that the build carries no blob.\<close>

definition extractEmbeddedAsset ::
    "'e ex_env \<Rightarrow> bytes \<Rightarrow> string \<Rightarrow> bool \<Rightarrow> files \<Rightarrow> ('e extract_error + string option) \<times> files" where
  "extractEmbeddedAsset e blob name executable fs =
     (if length blob = 0 then (Inr None, fs)
      else case ex_cacheDir e of
        Inl err \<Rightarrow> (Inl (EmbedCacheErr err), fs)
      | Inr cacheRoot \<Rightarrow>
          (let dir = path_join [cacheRoot, ''geyserlite'', hexSha blob];
               path = path_join [dir, name]
           in case ex_statErr e of
                Some err \<Rightarrow> (Inl (EmbedStatErr err), fs)
              | None \<Rightarrow>
                  if (case fs path of Some f \<Rightarrow> length (f_data f) = length blob | None \<Rightarrow> False)
                  then (Inr (Some path), fs)
                  else case ex_mkdirErr e of
                    Some err \<Rightarrow> (Inl (EmbedMkdirErr err), fs)
                  | None \<Rightarrow>
                      (let tmp = path @ ''.tmp'' in
                       case writeFile (ex_fault e) tmp blob (if executable then 493 else 420) fs of
                         (Some err, fs) \<Rightarrow> (Inl (EmbedWriteErr err), fs)
                       | (None, fs) \<Rightarrow>
                           (case ex_renameErr e of
                              Some err \<Rightarrow> (Inl (EmbedRenameErr err), fs(tmp := None))
                            | None \<Rightarrow> (Inr (Some path), fs(path := fs tmp, tmp := None))))))"

end
