(* ===== verification/Assets_Correct.thy ===== *)
theory Assets_Correct
  imports Assets
begin

text \<open>
  What asset resolution guarantees: a download is only ever handed out when its hash is the
  one the release lists, the checksum manifest is read correctly, and the documented resolution
  order holds.
\<close>

section \<open>Paths\<close>

definition plain :: "string \<Rightarrow> bool" where
  "plain a \<longleftrightarrow> a \<noteq> '''' \<and> a \<noteq> ''.'' \<and> a \<noteq> ''..'' \<and> CHR ''/'' \<notin> set a"

lemma clean_parts_plain: "plain a \<Longrightarrow> clean_parts r acc (ps @ [a]) = clean_parts r acc ps @ [a]"
  by (induction ps arbitrary: acc) (auto simp: plain_def)

lemma SplitByte_snoc: "c \<notin> set a \<Longrightarrow> SplitByte c (x @ c # a) = SplitByte c x @ [a]"
  by (induction x) (auto simp: SplitByte_single split: list.splits)

lemma JoinByte_snoc: "\<exists>x. JoinByte c (ps @ [a]) = x @ a"
proof (induction ps)
  case (Cons p ps)
  then obtain x where "JoinByte c (ps @ [a]) = x @ a" ..
  then have "JoinByte c ((p # ps) @ [a]) = (p @ c # x) @ a" by (simp add: JoinByte_Cons)
  then show ?case ..
qed simp

lemma JoinByte_snoc2: "qs \<noteq> [] \<Longrightarrow> JoinByte c (qs @ [a]) = JoinByte c qs @ c # a"
  by (induction c qs rule: JoinByte.induct) (auto simp: JoinByte_Cons)

lemma path_clean_plain:
  assumes "plain a" "s = a \<or> (\<exists>x. s = x @ CHR ''/'' # a)"
  shows "\<exists>y. path_clean s = y @ a"
proof -
  obtain ps where ps: "SplitByte CHR ''/'' s = ps @ [a]"
    using assms by (metis SplitByte_single SplitByte_snoc append_Nil plain_def)
  obtain x where x: "JoinByte CHR ''/'' (clean_parts (HasPrefix s ''/'') [] (ps @ [a])) = x @ a"
    using JoinByte_snoc by (metis assms(1) clean_parts_plain)
  have "x @ a \<noteq> []" using assms(1) by (simp add: plain_def)
  then have "path_clean s = (if HasPrefix s ''/'' then CHR ''/'' # x else x) @ a"
    using ps x by (cases "HasPrefix s ''/''") (auto simp: path_clean_def Let_def)
  then show ?thesis ..
qed

lemma path_join_suffix:
  assumes "plain a"
  shows "\<exists>y. path_join (ps @ [a]) = y @ a"
proof -
  define qs where "qs = filter (\<lambda>p. p \<noteq> []) ps"
  have "path_join (ps @ [a]) = path_clean (JoinByte CHR ''/'' (qs @ [a]))"
    using assms by (simp add: path_join_def qs_def plain_def Let_def)
  moreover have "JoinByte CHR ''/'' (qs @ [a]) = a \<or> (\<exists>x. JoinByte CHR ''/'' (qs @ [a]) = x @ CHR ''/'' # a)"
    by (cases "qs = []") (auto simp: JoinByte_snoc2)
  ultimately show ?thesis using path_clean_plain [OF assms] by simp
qed

section \<open>The asset names\<close>

lemma assetFor_cases:
  assumes "assetFor kind goos goarch = Inr a"
  obtains "a = ''geyserlite-windows-amd64.exe''" | "a = ''geyserlite-linux-amd64''" | "a = ''geyserlite-linux-arm64''"
  | "a = ''libgeyserlite-linux-amd64.so''" | "a = ''libgeyserlite-linux-arm64.so''"
  using assms by (cases kind) (auto simp: assetFor_def Let_def split: if_splits)

lemma asset_plain: "assetFor kind goos goarch = Inr a \<Longrightarrow> plain a"
  by (erule assetFor_cases) (simp_all add: plain_def)

lemma asset_not_tmp: "assetFor kind goos goarch = Inr a \<Longrightarrow> \<not> HasSuffix (y @ a) ''.tmp''"
  by (erule assetFor_cases) (simp_all add: HasSuffix_def)

lemma verifiedDownloadPath_not_tmp:
  assumes "assetFor kind goos goarch = Inr a"
  shows "\<not> HasSuffix (verifiedDownloadPath dir a sha) ''.tmp''"
  using path_join_suffix [OF asset_plain [OF assms], of "[dir, sha]"] asset_not_tmp [OF assms]
  by (auto simp: verifiedDownloadPath_def)

section \<open>Downloads\<close>

lemma cacheHit_data: "cacheHit e path sha fs \<Longrightarrow> \<exists>f. fs path = Some f \<and> hexSha (f_data f) = sha"
  by (auto simp: cacheHit_def shaFile_def split: option.splits)

lemma downloadFile_keeps: "downloadFile e url dest fs = (r, fs') \<Longrightarrow> p \<noteq> dest \<Longrightarrow> fs' p = fs p"
  by (auto simp: downloadFile_def Let_def split: sum.splits option.splits)

lemma fetchInto_result:
  assumes f: "fetchInto e kind url cached sha t fs = (r, fs')" and t: "t \<noteq> cached" and o: "\<And>fs. dl_others e fs t = fs t"
  shows "(case r of
      Inr path \<Rightarrow> path = cached \<and> (\<exists>f. fs' path = Some f \<and> hexSha (f_data f) = sha) \<and> (dl_removeOK e \<longrightarrow> fs' t = None)
    | Inl _ \<Rightarrow> dl_removeOK e \<longrightarrow> fs' t = None)"
proof -
  obtain err fs1 where d: "downloadFile e url t fs = (err, fs1)" by force
  show ?thesis
  proof (cases err)
    case (Some x)
    then show ?thesis using f d by (auto simp: fetchInto_def osRemove_def)
  next
    case None
    show ?thesis
    proof (cases "shaFile e t fs1 = Inr sha")
      case False
      then show ?thesis using f d None
        by (auto simp: fetchInto_def osRemove_def split: sum.splits option.splits if_splits)
    next
      case True
      then obtain f1 where f1: "fs1 t = Some f1" "hexSha (f_data f1) = sha"
        by (auto simp: shaFile_def split: option.splits)
      define fs2 where "fs2 = (if kind = assetKindBinary \<and> dl_chmodOK e
        then fs1(t := map_option (\<lambda>f. f\<lparr>f_mode := 493\<rparr>) (fs1 t)) else fs1)"
      define fs3 where "fs3 = dl_others e fs2"
      have "\<exists>f. fs3 t = Some f \<and> hexSha (f_data f) = sha" using f1 by (auto simp: fs3_def fs2_def o)
      moreover have "(r, fs') = (if cacheHit e cached sha fs3 then (Inr cached, osRemove e t fs3)
          else case dl_renameErr e of Some err \<Rightarrow> (Inl (RenameErr err), osRemove e t fs3)
            | None \<Rightarrow> (Inr cached, fs3(cached := fs3 t, t := None)))"
        unfolding f [symmetric] fetchInto_def Let_def by (simp add: d None True fs2_def fs3_def split: option.split)
      ultimately show ?thesis using t cacheHit_data [of e cached sha fs3]
        by (auto simp: osRemove_def split: if_splits option.splits)
    qed
  qed
qed

lemma download_checked:
  assumes "downloadAsset e opts kind fs = (r, fs')" "dl_createTemp e = Inr t" "HasSuffix t ''.tmp''" "fs t = None"
    and "\<And>fs. dl_others e fs t = fs t"
  shows "(\<forall>path. r = Inr path \<longrightarrow>
      (\<exists>asset sha f. assetFor kind (dl_goos e) (dl_goarch e) = Inr asset \<and>
         fetchExpectedSha e (if op_Mirror opts = '''' then DefaultDownloadBase else op_Mirror opts)
           (if op_Version opts = '''' then DefaultVersion else op_Version opts) asset = Inr sha \<and>
         fs' path = Some f \<and> hexEncode (sha256 (f_data f)) = sha)) \<and>
    (dl_removeOK e \<longrightarrow> fs' t = None)"
proof (cases "assetFor kind (dl_goos e) (dl_goarch e)")
  case (Inl err)
  then show ?thesis using assms(1,4) by (auto simp: downloadAsset_def Let_def)
next
  case (Inr asset)
  note a = Inr
  define version where "version = (if op_Version opts = '''' then DefaultVersion else op_Version opts)"
  define base where "base = (if op_Mirror opts = '''' then DefaultDownloadBase else op_Mirror opts)"
  show ?thesis
  proof (cases "dl_cacheDir e")
    case (Inl err)
    then show ?thesis using assms(1,4) a by (auto simp: downloadAsset_def Let_def)
  next
    case (Inr cacheDir)
    define dir where "dir = path_join [cacheDir, ''geyserlite'', version]"
    show ?thesis
    proof (cases "fetchExpectedSha e base version asset")
      case (Inl err)
      then show ?thesis using assms(1,4) a Inr
        by (auto simp: downloadAsset_def base_def version_def Let_def)
    next
      case (Inr sha)
      define cached where "cached = verifiedDownloadPath dir asset sha"
      define fetched where "fetched = fetchInto e kind (TrimSuffix base ''/'' @ ''/'' @ version @ ''/'' @ asset) cached sha t
          (fs(t \<mapsto> \<lparr>f_data = [], f_mode = 384\<rparr>))"
      have tc: "t \<noteq> cached" using verifiedDownloadPath_not_tmp [OF a] assms(3) unfolding cached_def by metis
      have r: "(r, fs') = (if cacheHit e cached sha fs then (Inr cached, fs)
          else if path_join [dir, asset] \<noteq> cached \<and> cacheHit e (path_join [dir, asset]) sha fs then (Inr (path_join [dir, asset]), fs)
          else case dl_mkdirErr e of Some err \<Rightarrow> (Inl (MkdirErr err), fs) | None \<Rightarrow> fetched)"
        unfolding assms(1) [symmetric] downloadAsset_def Let_def base_def [symmetric] version_def [symmetric]
        by (simp add: assms(2) a \<open>dl_cacheDir e = Inr cacheDir\<close> Inr cached_def dir_def fetched_def split: option.split)
      have fetch: "fetched = (r', fs'') \<Longrightarrow> case r' of
          Inr path \<Rightarrow> path = cached \<and> (\<exists>f. fs'' path = Some f \<and> hexSha (f_data f) = sha) \<and> (dl_removeOK e \<longrightarrow> fs'' t = None)
        | Inl _ \<Rightarrow> dl_removeOK e \<longrightarrow> fs'' t = None" for r' fs''
        unfolding fetched_def by (rule fetchInto_result [OF _ tc assms(5)])
      have "(\<forall>path. r = Inr path \<longrightarrow> (\<exists>f. fs' path = Some f \<and> hexSha (f_data f) = sha)) \<and> (dl_removeOK e \<longrightarrow> fs' t = None)"
        using r fetch [of r fs'] assms(4) cacheHit_data [of e cached sha fs] cacheHit_data [of e "path_join [dir, asset]" sha fs]
        by (auto split: if_splits option.splits sum.splits)
      then show ?thesis using a Inr unfolding base_def version_def hexSha_def by blast
    qed
  qed
qed

text \<open>
  C21: Only verified downloads are used. Whenever \<open>downloadAsset\<close> returns a path, the file there
  has exactly the SHA-256 that the release's \<open>checksums.txt\<close> lists for the asset of this platform,
  whether it came from either cache, from the network, or from another process that put it there
  meanwhile; and on every outcome, success or failure, the temporary file is gone (given that
  \<open>os.Remove\<close> works, temporary names end in \<open>.tmp\<close>, and others leave this process's temporary file
  alone).
\<close>

theorem download_verified:
  assumes "downloadAsset e opts kind fs = (r, fs')" "dl_createTemp e = Inr t" "HasSuffix t ''.tmp''" "fs t = None"
    and "\<And>fs. dl_others e fs t = fs t"
  shows "(\<forall>path. r = Inr path \<longrightarrow>
      (\<exists>asset sha f. assetFor kind (dl_goos e) (dl_goarch e) = Inr asset \<and>
         fetchExpectedSha e (if op_Mirror opts = '''' then DefaultDownloadBase else op_Mirror opts)
           (if op_Version opts = '''' then DefaultVersion else op_Version opts) asset = Inr sha \<and>
         fs' path = Some f \<and> hexEncode (sha256 (f_data f)) = sha)) \<and>
    (dl_removeOK e \<longrightarrow> fs' t = None)"
  using download_checked [OF assms] .

section \<open>The checksum manifest\<close>

text \<open>A line as \<open>sha256sum\<close> writes it: digest, two blanks or a blank and an asterisk, name.\<close>

definition manifestLine :: "bytes \<times> bool \<times> string \<Rightarrow> string" where
  "manifestLine = (\<lambda>(digest, star, name). hexEncode digest @ (if star then '' *'' else ''  '') @ name)"

definition manifest :: "(bytes \<times> bool \<times> string) list \<Rightarrow> string" where
  "manifest es = concat (map (\<lambda>x. manifestLine x @ [CHR 0x0A]) es)"

definition entry_ok :: "bytes \<times> bool \<times> string \<Rightarrow> bool" where
  "entry_ok = (\<lambda>(digest, star, name). digest \<noteq> [] \<and> name \<noteq> '''' \<and> hd name \<noteq> CHR ''*'' \<and> (\<forall>c\<in>set name. graphic c))"

lemma Fields_two:
  assumes "\<forall>c\<in>set a. graphic c" "\<forall>c\<in>set b. graphic c" "a \<noteq> []" "b \<noteq> []"
  shows "Fields (a @ '' '' @ b) = [a, b]" "Fields (a @ ''  '' @ b) = [a, b]"
proof -
  have b: "fieldsLoop [] b = [b]" using fieldsLoop_graphic [OF assms(2), of "[]" "[]"] assms(4) by (simp add: fieldsLoop_Nil)
  show "Fields (a @ '' '' @ b) = [a, b]" "Fields (a @ ''  '' @ b) = [a, b]"
    using assms(3) b by (simp_all add: Fields_def fieldsLoop_graphic [OF assms(1)] fieldsLoop_space)
qed

lemma graphic_star: "graphic CHR ''*''"
  by (simp add: graphic_def)

lemma Fields_manifestLine:
  assumes "entry_ok (digest, star, name)"
  shows "Fields (manifestLine (digest, star, name)) = [hexEncode digest, (if star then ''*'' else '''') @ name]"
proof -
  have h: "\<forall>c\<in>set (hexEncode digest). graphic c" "hexEncode digest \<noteq> []"
    using assms hexEncode_graphic length_hexEncode [of digest] by (auto simp: entry_ok_def simp del: length_hexEncode)
  have n: "\<forall>c\<in>set name. graphic c" "name \<noteq> []" using assms by (auto simp: entry_ok_def)
  show ?thesis
    using Fields_two(1) [OF h(1) _ h(2), of "CHR ''*'' # name"] Fields_two(2) [OF h(1) n(1) h(2) n(2)] n graphic_star
    by (auto simp: manifestLine_def)
qed

lemma manifestLine_no_newline: "entry_ok x \<Longrightarrow> CHR 0x0A \<notin> set (manifestLine x)"
  using hexEncode_graphic [of "CHR 0x0A"]
  by (cases x) (auto simp: manifestLine_def entry_ok_def graphic_def split: if_splits)

lemma Split_manifest: "\<forall>x\<in>set es. entry_ok x \<Longrightarrow> SplitByte CHR 0x0A (manifest es) = map manifestLine es @ ['''']"
  by (induction es) (auto simp: manifest_def SplitByte_append manifestLine_no_newline)

lemma TrimPrefix_star:
  "hd name \<noteq> CHR ''*'' \<Longrightarrow> name \<noteq> [] \<Longrightarrow> TrimPrefix ((if star then ''*'' else '''') @ name) ''*'' = name"
  by (cases name) (auto simp: TrimPrefix_def HasPrefix_def)

definition listed :: "string \<Rightarrow> string \<Rightarrow> bool" where
  "listed asset name \<longleftrightarrow> name = asset \<or> HasSuffix name (CHR ''/'' # asset)"

lemma findSha_manifest:
  assumes "\<forall>x\<in>set es. entry_ok x"
  shows "findSha asset (map manifestLine es @ ['''']) =
    map_option (\<lambda>(digest, _, _). hexEncode digest) (find (\<lambda>(_, _, name). listed asset name) es)"
  using assms
proof (induction es)
  case Nil
  then show ?case by (simp add: Fields_def fieldsLoop_Nil)
next
  case (Cons x es)
  obtain digest star name where x: "x = (digest, star, name)" by (rule prod_cases3)
  have "entry_ok (digest, star, name)" using Cons.prems by (simp add: x)
  moreover have "TrimPrefix ((if star then ''*'' else '''') @ name) ''*'' = name"
    using calculation by (intro TrimPrefix_star) (auto simp: entry_ok_def)
  ultimately show ?case using Cons by (simp add: x Fields_manifestLine listed_def Let_def)
qed

lemma fetchExpectedSha_manifest:
  assumes "dl_get e (TrimSuffix base ''/'' @ ''/'' @ version @ ''/checksums.txt'') =
      Inr \<lparr>rs_status = 200, rs_body = bytes_of_string (manifest es), rs_err = None\<rparr>"
    and "\<forall>x\<in>set es. entry_ok x" "length (manifest es) < manifestLimit"
  shows "fetchExpectedSha e base version asset =
    (case find (\<lambda>(_, _, name). listed asset name) es of
       Some (digest, _, _) \<Rightarrow> Inr (hexEncode digest)
     | None \<Rightarrow> Inl (NotListed asset version))"
proof -
  have "take manifestLimit (bytes_of_string (manifest es)) = bytes_of_string (manifest es)"
    using assms(3) by (simp add: bytes_of_string_def)
  then have "fetchExpectedSha e base version asset =
      (case findSha asset (SplitByte CHR 0x0A (manifest es)) of Some sha \<Rightarrow> Inr sha | None \<Rightarrow> Inl (NotListed asset version))"
    using assms(1) by (simp add: fetchExpectedSha_def httpGet_def)
  then show ?thesis
    by (auto simp: Split_manifest [OF assms(2)] findSha_manifest [OF assms(2)] split: option.split)
qed

text \<open>
  The checksum manifest is read back correctly. For a manifest in the format of \<open>sha256sum\<close>,
  text or binary mode, of less than a mebibyte, served with a success status, \<open>fetchExpectedSha\<close>
  returns the lower-case hex digest of the first entry whose name is the asset or ends in a slash and
  the asset, and fails with the asset's name and version when there is none.
\<close>

theorem checksums_roundtrip:
  assumes "dl_get e (TrimSuffix base ''/'' @ ''/'' @ version @ ''/checksums.txt'') =
      Inr \<lparr>rs_status = 200, rs_body = bytes_of_string (manifest es), rs_err = None\<rparr>"
    and "\<forall>x\<in>set es. entry_ok x" "length (manifest es) < manifestLimit"
  shows "fetchExpectedSha e base version asset =
    (case find (\<lambda>(_, _, name). name = asset \<or> HasSuffix name (CHR ''/'' # asset)) es of
       Some (digest, _, _) \<Rightarrow> Inr (hexEncode digest)
     | None \<Rightarrow> Inl (NotListed asset version))"
  using fetchExpectedSha_manifest [OF assms, of asset] by (simp add: listed_def)

text \<open>A release with two assets, served by a mirror.\<close>

definition demo_entries :: "bytes \<Rightarrow> (bytes \<times> bool \<times> string) list" where
  "demo_entries blob = [(sha256 [1], False, ''geyserlite-linux-arm64''), (sha256 blob, True, ''dist/geyserlite-linux-amd64'')]"

definition demo_dl :: "bytes \<Rightarrow> unit dl_env" where
  "demo_dl blob = \<lparr>dl_goos = ''linux'', dl_goarch = ''amd64'', dl_cacheDir = Inr ''/cache'',
     dl_get = (\<lambda>url. if HasSuffix url ''/checksums.txt''
        then Inr \<lparr>rs_status = 200, rs_body = bytes_of_string (manifest (demo_entries blob)), rs_err = None\<rparr>
        else Inr \<lparr>rs_status = 200, rs_body = blob, rs_err = None\<rparr>),
     dl_readErr = (\<lambda>_. None), dl_mkdirErr = None, dl_createTemp = Inr ''/cache/geyserlite/x.1.tmp'', dl_openErr = None,
     dl_closeErr = None, dl_chmodOK = True, dl_removeOK = True, dl_renameErr = None, dl_others = (\<lambda>fs. fs)\<rparr>"

lemma demo_entries_ok: "\<forall>x\<in>set (demo_entries blob). entry_ok x" "length (manifest (demo_entries blob)) < manifestLimit"
proof -
  have "sha256 m \<noteq> []" for m using length_sha256 [of m] by (auto simp del: length_sha256)
  then show "\<forall>x\<in>set (demo_entries blob). entry_ok x" by (simp add: demo_entries_def entry_ok_def graphic_def)
  show "length (manifest (demo_entries blob)) < manifestLimit"
    by (simp add: manifest_def manifestLine_def demo_entries_def manifestLimit_def)
qed

lemma demo_dl_manifest:
  "dl_get (demo_dl blob) (TrimSuffix base ''/'' @ ''/'' @ version @ ''/checksums.txt'') =
    Inr \<lparr>rs_status = 200, rs_body = bytes_of_string (manifest (demo_entries blob)), rs_err = None\<rparr>"
  by (simp add: demo_dl_def HasSuffix_def)

theorem checksums_roundtrip_witness:
  "fetchExpectedSha (demo_dl [2, 3]) ''https://mirror/'' ''v1'' ''geyserlite-linux-amd64'' = Inr (hexEncode (sha256 [2, 3]))"
  using checksums_roundtrip [OF demo_dl_manifest demo_entries_ok, of "[2, 3]" "''https://mirror/''" "''v1''" "''geyserlite-linux-amd64''"]
  by (simp add: demo_entries_def HasSuffix_def)

lemma demo_fetch: "fetchExpectedSha (demo_dl blob) base version ''geyserlite-linux-amd64'' = Inr (hexSha blob)"
  using fetchExpectedSha_manifest [OF demo_dl_manifest demo_entries_ok, of blob base version "''geyserlite-linux-amd64''"]
  by (simp add: demo_entries_def listed_def HasSuffix_def hexSha_def)

lemma demo_asset: "assetFor assetKindBinary (dl_goos (demo_dl blob)) (dl_goarch (demo_dl blob)) = Inr ''geyserlite-linux-amd64''"
  by (simp add: demo_dl_def assetFor_def)

definition demo_mirror :: "(unit, unit) Options" where
  "demo_mirror = \<lparr>op_Listen = '''', op_Upstream = ''u'', op_AuthType = Online, op_FloodgateKey = [],
     op_MOTD = \<lparr>motd_Line1 = '''', motd_Line2 = ''''\<rparr>, op_Mode = ModeSubprocess, op_LibraryPath = '''', op_BinaryPath = '''',
     op_JVMArgs = None, op_Logger = None, op_RestartPolicy = None, op_ShutdownTimeout = 0, op_Version = ''v1'',
     op_Mirror = ''https://mirror/'', op_Offline = False, op_ConfigOverrides = []\<rparr>"

lemma demo_download:
  "\<exists>path fs'. downloadAsset (demo_dl blob) demo_mirror assetKindBinary Map.empty = (Inr path, fs')"
proof -
  define t where "t = ''/cache/geyserlite/x.1.tmp''"
  have t: "dl_createTemp (demo_dl blob) = Inr t" by (simp add: demo_dl_def t_def)
  have "verifiedDownloadPath dir ''geyserlite-linux-amd64'' sha \<noteq> t" for dir sha
    using verifiedDownloadPath_not_tmp [OF demo_asset, of dir sha] by (auto simp: t_def HasSuffix_def)
  moreover have "dl_cacheDir (demo_dl blob) = Inr ''/cache''" "dl_mkdirErr (demo_dl blob) = None" "dl_openErr (demo_dl blob) = None"
    "dl_closeErr (demo_dl blob) = None" "dl_renameErr (demo_dl blob) = None" "dl_readErr (demo_dl blob) = (\<lambda>_. None)"
    "dl_others (demo_dl blob) = (\<lambda>fs. fs)"
    "dl_get (demo_dl blob) ''https://mirror/v1/geyserlite-linux-amd64'' = Inr \<lparr>rs_status = 200, rs_body = blob, rs_err = None\<rparr>"
    by (simp_all add: demo_dl_def HasSuffix_def)
  ultimately show ?thesis
    by (simp add: downloadAsset_def demo_asset demo_fetch demo_mirror_def t cacheHit_def shaFile_def fetchInto_def
        downloadFile_def httpGet_def TrimSuffix_def HasSuffix_def Let_def)
qed

theorem download_verified_witness:
  "\<exists>path fs' f. downloadAsset (demo_dl [2, 3]) demo_mirror assetKindBinary Map.empty = (Inr path, fs') \<and>
     fs' path = Some f \<and> hexEncode (sha256 (f_data f)) = hexEncode (sha256 [2, 3]) \<and> fs' ''/cache/geyserlite/x.1.tmp'' = None"
proof -
  obtain path fs' where d: "downloadAsset (demo_dl [2, 3]) demo_mirror assetKindBinary Map.empty = (Inr path, fs')"
    using demo_download by blast
  have t: "dl_createTemp (demo_dl [2, 3]) = Inr ''/cache/geyserlite/x.1.tmp''" "HasSuffix ''/cache/geyserlite/x.1.tmp'' ''.tmp''"
    "\<And>fs. dl_others (demo_dl [2, 3]) fs ''/cache/geyserlite/x.1.tmp'' = fs ''/cache/geyserlite/x.1.tmp''" "dl_removeOK (demo_dl [2, 3])"
    by (simp_all add: demo_dl_def HasSuffix_def)
  show ?thesis
    using download_verified [OF d t(1,2) _ t(3)] t(4) d
    by (auto simp: demo_asset demo_fetch hexSha_def)
qed

section \<open>Resolution\<close>

lemma searchDirs_first:
  assumes "searchDirs e dirs = Some p"
  shows "fileAt e p = None \<and> (\<exists>before dir after. dirs = before @ dir # after \<and> p = path_join [dir, libraryName (lc_goos e)] \<and>
    (\<forall>x\<in>set before. fileAt e (path_join [x, libraryName (lc_goos e)]) \<noteq> None))"
  using assms
proof (induction dirs)
  case (Cons d ds)
  show ?case
  proof (cases "fileAt e (path_join [d, libraryName (lc_goos e)]) = None")
    case True
    then show ?thesis using Cons.prems
      by (intro conjI exI [of _ "[]"] exI [of _ d] exI [of _ ds]) (auto simp: Let_def)
  next
    case False
    then have "searchDirs e ds = Some p" using Cons.prems by (simp add: Let_def split: if_splits)
    with Cons.IH obtain before dir after where "fileAt e p = None" "ds = before @ dir # after"
      "p = path_join [dir, libraryName (lc_goos e)]" "\<forall>x\<in>set before. fileAt e (path_join [x, libraryName (lc_goos e)]) \<noteq> None"
      by blast
    then show ?thesis using False
      by (intro conjI exI [of _ "d # before"] exI [of _ dir] exI [of _ after]) auto
  qed
qed simp

lemma checks_ignore_download:
  "executableAt (e\<lparr>lc_download := d\<rparr>) = executableAt e" "fileAt (e\<lparr>lc_download := d\<rparr>) = fileAt e"
  by (simp_all add: executableAt_def fileAt_def fun_eq_iff split: sum.split)

lemma search_ignores_download: "searchDirs (e\<lparr>lc_download := d\<rparr>) ds = searchDirs e ds"
  by (induction ds) (simp_all add: checks_ignore_download Let_def)

text \<open>
  Assets are resolved in the documented order. A path given in the options, else one
  given in the environment, is authoritative: it is returned if it passes its check (executable file
  for the binary, file for the library), nothing else is tried and no state changes. Otherwise a
  path comes from the embedded blob, the search path (for the library: the first directory in order
  whose file exists), or a download, and the \<open>not found\<close> error means that all of these came up empty.
  With \<open>Offline\<close> the download is never consulted.
\<close>

theorem locate_policy:
  "(op_Offline opts \<longrightarrow> locateBinary (e\<lparr>lc_download := d\<rparr>) opts s = locateBinary e opts s \<and>
      locateLibrary (e\<lparr>lc_download := d\<rparr>) opts s = locateLibrary e opts s) \<and>
   (\<forall>p s'. locateBinary e opts s = (Inr p, s') \<longrightarrow>
      (if op_BinaryPath opts \<noteq> '''' then p = op_BinaryPath opts \<and> executableAt e p = None \<and> s' = s
       else if lc_getenv e ''GEYSERLITE_BINARY'' \<noteq> '''' then p = lc_getenv e ''GEYSERLITE_BINARY'' \<and> executableAt e p = None \<and> s' = s
       else lc_embeddedBinary e s = (Inr (p, True), s') \<or>
         (\<exists>q s1. lc_embeddedBinary e s = (Inr (q, False), s1) \<and>
            (lc_lookPath e ''geyserlite'' = Inr p \<and> s' = s1 \<or> \<not> op_Offline opts \<and> lc_download e assetKindBinary s1 = (Inr p, s'))))) \<and>
   (\<forall>p s'. locateLibrary e opts s = (Inr p, s') \<longrightarrow>
      (if op_LibraryPath opts \<noteq> '''' then p = op_LibraryPath opts \<and> fileAt e p = None \<and> s' = s
       else if lc_getenv e ''GEYSERLITE_LIBRARY'' \<noteq> '''' then p = lc_getenv e ''GEYSERLITE_LIBRARY'' \<and> fileAt e p = None \<and> s' = s
       else lc_embeddedLibrary e s = (Inr (p, True), s') \<or>
         (\<exists>q s1. lc_embeddedLibrary e s = (Inr (q, False), s1) \<and>
            (s' = s1 \<and> fileAt e p = None \<and>
               (\<exists>before dir after. systemLibDirs (lc_getenv e) = before @ dir # after \<and> p = path_join [dir, libraryName (lc_goos e)] \<and>
                  (\<forall>x\<in>set before. fileAt e (path_join [x, libraryName (lc_goos e)]) \<noteq> None)) \<or>
             \<not> op_Offline opts \<and> lc_download e assetKindLibrary s1 = (Inr p, s'))))) \<and>
   (\<forall>err. fst (locateBinary e opts s) = Inl (NotFound err) \<longrightarrow>
      err = ErrNoBinary \<and> op_Offline opts \<and> op_BinaryPath opts = '''' \<and> lc_getenv e ''GEYSERLITE_BINARY'' = '''' \<and>
      (\<forall>p. lc_lookPath e ''geyserlite'' \<noteq> Inr p))"
proof (intro conjI)
  show "op_Offline opts \<longrightarrow> locateBinary (e\<lparr>lc_download := d\<rparr>) opts s = locateBinary e opts s \<and>
        locateLibrary (e\<lparr>lc_download := d\<rparr>) opts s = locateLibrary e opts s"
    by (simp add: locateBinary_def locateLibrary_def locateRemote_def checks_ignore_download search_ignores_download
        split: option.split prod.split sum.split bool.split)
  show "\<forall>p s'. locateLibrary e opts s = (Inr p, s') \<longrightarrow>
      (if op_LibraryPath opts \<noteq> '''' then p = op_LibraryPath opts \<and> fileAt e p = None \<and> s' = s
       else if lc_getenv e ''GEYSERLITE_LIBRARY'' \<noteq> '''' then p = lc_getenv e ''GEYSERLITE_LIBRARY'' \<and> fileAt e p = None \<and> s' = s
       else lc_embeddedLibrary e s = (Inr (p, True), s') \<or>
         (\<exists>q s1. lc_embeddedLibrary e s = (Inr (q, False), s1) \<and>
            (s' = s1 \<and> fileAt e p = None \<and>
               (\<exists>before dir after. systemLibDirs (lc_getenv e) = before @ dir # after \<and> p = path_join [dir, libraryName (lc_goos e)] \<and>
                  (\<forall>x\<in>set before. fileAt e (path_join [x, libraryName (lc_goos e)]) \<noteq> None)) \<or>
             \<not> op_Offline opts \<and> lc_download e assetKindLibrary s1 = (Inr p, s'))))"
    using searchDirs_first [of e "systemLibDirs (lc_getenv e)"]
    by (auto simp: locateLibrary_def locateRemote_def split: option.splits prod.splits sum.splits bool.splits if_splits)
qed (auto simp: locateBinary_def locateRemote_def split: option.splits prod.splits sum.splits bool.splits if_splits)

definition demo_locate :: "(unit, nat) locate_env" where
  "demo_locate = \<lparr>lc_goos = ''linux'', lc_getenv = (\<lambda>_. ''''),
     lc_stat = (\<lambda>p. if p = ''/opt/geyserlite'' then Inr \<lparr>st_dir = False, st_mode = 493\<rparr> else Inl ()),
     lc_embeddedBinary = (\<lambda>s. (Inr ('''', False), s)), lc_embeddedLibrary = (\<lambda>s. (Inr ('''', False), s)),
     lc_lookPath = (\<lambda>_. Inl ()), lc_download = (\<lambda>_ s. (Inr ''/cache/x'', s + 1))\<rparr>"

theorem locate_policy_witness:
  "locateBinary demo_locate (demo_mirror\<lparr>op_BinaryPath := ''/opt/geyserlite''\<rparr>) 0 = (Inr ''/opt/geyserlite'', 0) \<and>
   executableAt demo_locate ''/opt/geyserlite'' = None"
proof -
  have l: "locateBinary demo_locate (demo_mirror\<lparr>op_BinaryPath := ''/opt/geyserlite''\<rparr>) 0 = (Inr ''/opt/geyserlite'', 0)"
    by (simp add: locateBinary_def demo_mirror_def executableAt_def demo_locate_def)
  moreover have "executableAt demo_locate ''/opt/geyserlite'' = None"
    using locate_policy [THEN conjunct2, THEN conjunct1, rule_format, OF l] by (simp add: demo_mirror_def)
  ultimately show ?thesis ..
qed

end
