(* ===== verification/Server.thy ===== *)
theory Server
  imports Options Broker
begin

text \<open>
  The life cycle of \<open>Server\<close> (\<^verbatim>\<open>go/server.go\<close>): construction, and \<open>Start\<close>, \<open>Stop\<close> and
  \<open>Healthy\<close> called from any number of goroutines. The runner is not part of this theory: what it
  returns is an argument. \<open>'x\<close> is the type of errors; Go's nil error is \<open>None\<close>.
\<close>

section \<open>The server\<close>

datatype runner = EmbeddedRunner | SubprocessRunner

text \<open>
  \<open>sv_done\<close> is the channel \<open>done\<close>: nil, open or closed. \<open>sv_canceled\<close> says that the context
  of the run is cancelled, \<open>sv_runErr\<close> is the atomic pointer to the error of the run.
\<close>

datatype channel = NilChan | OpenChan | ClosedChan

record ('l, 'o, 'x) Server =
  sv_opts :: "('l, 'o) Options"
  sv_ingress :: "(unit, unit) ingressBroker"
  sv_started :: bool
  sv_canceled :: bool
  sv_done :: channel
  sv_runErr :: "'x option option"
  sv_runner :: runner

definition server_New :: "'l \<Rightarrow> ('l, 'o) Options \<Rightarrow> sentinel + ('l, 'o, 'x) Server" where
  "server_New slog_Default opts =
     (case validate slog_Default opts of
        Inl err \<Rightarrow> Inl err
      | Inr validated \<Rightarrow>
          Inr \<lparr>sv_opts = validated, sv_ingress = newIngressBroker defaultIngressQueueCapacity, sv_started = False,
            sv_canceled = False, sv_done = NilChan, sv_runErr = None,
            sv_runner = (case op_Mode validated of
               ModeEmbedded \<Rightarrow> EmbeddedRunner | ModeSubprocess \<Rightarrow> SubprocessRunner | ModeOther _ \<Rightarrow> EmbeddedRunner)\<rparr>)"

definition ConnectionOpened :: "('l, 'o, 'x) Server \<Rightarrow> ConnectionOpen chan" where
  "ConnectionOpened s = b_opened (sv_ingress s)"

definition VerifiedIngress :: "('l, 'o, 'x) Server \<Rightarrow> VerifiedFrame chan" where
  "VerifiedIngress s = b_verified (sv_ingress s)"

text \<open>\<open>Assign\<close>; \<open>None\<close> would be a panic.\<close>

definition server_Assign ::
    "abi \<Rightarrow> time \<Rightarrow> (unit \<Rightarrow> ConnectionAssignment \<Rightarrow> (unit, unit) ingressBroker \<Rightarrow> int \<times> (unit, unit) ingressBroker) \<Rightarrow>
      ConnectionAssignment \<Rightarrow> ('l, 'o, 'x) Server \<Rightarrow> (assign_error option \<times> ('l, 'o, 'x) Server) option" where
  "server_Assign A now native assignment s =
     map_option (\<lambda>(err, b). (err, s\<lparr>sv_ingress := b\<rparr>)) (broker_assign A now native assignment (sv_ingress s))"

text \<open>\<open>Start\<close> up to the call of the runner, the store of the result, and the two deferred calls.\<close>

definition Start_begin :: "('l, 'o, 'x) Server \<Rightarrow> sentinel + ('l, 'o, 'x) Server" where
  "Start_begin s =
     (if sv_started s then Inl ErrAlreadyStarted
      else Inr (s\<lparr>sv_started := True, sv_canceled := False, sv_done := OpenChan\<rparr>))"

definition Start_store :: "'x option \<Rightarrow> ('l, 'o, 'x) Server \<Rightarrow> ('l, 'o, 'x) Server" where
  "Start_store err s = s\<lparr>sv_runErr := Some err\<rparr>"

definition Start_deferred :: "('l, 'o, 'x) Server \<Rightarrow> ('l, 'o, 'x) Server" where
  "Start_deferred s = s\<lparr>sv_canceled := True, sv_done := ClosedChan\<rparr>"

text \<open>\<open>Stop\<close> up to \<open>cancel()\<close>, and the branch of its \<open>select\<close> that is ready once \<open>done\<close> is closed.\<close>

definition Stop_begin :: "('l, 'o, 'x) Server \<Rightarrow> sentinel + ('l, 'o, 'x) Server" where
  "Stop_begin s =
     (if \<not> sv_started s then Inl ErrNotStarted else Inr (s\<lparr>sv_canceled := True\<rparr>))"

definition Stop_done :: "('l, 'o, 'x) Server \<Rightarrow> 'x option option" where
  "Stop_done s =
     (if sv_done s = ClosedChan then Some (case sv_runErr s of Some err \<Rightarrow> err | None \<Rightarrow> None) else None)"

definition Healthy :: "bool \<Rightarrow> ('l, 'o, 'x) Server \<Rightarrow> bool" where
  "Healthy runner_healthy s = (if \<not> sv_started s then False else runner_healthy)"

section \<open>Concurrent calls\<close>

datatype 'x start_phase = Launched | Returned "'x option" | Stored "'x option"

record ('l, 'o, 'x) server_system =
  sy_server :: "('l, 'o, 'x) Server"
  sy_starts :: "'x start_phase list"
  sy_stops :: nat

datatype 'x server_event =
    SvRefused sentinel
  | SvLaunch
  | SvReturn "'x option"
  | SvStore
  | SvStarted "'x option"
  | SvStop
  | SvStopDone "'x option"
  | SvStopTimeout

inductive svstep :: "('l, 'o, 'x) server_system \<Rightarrow> 'x server_event \<Rightarrow> ('l, 'o, 'x) server_system \<Rightarrow> bool" where
  sv_launch: "Start_begin (sy_server x) = Inr s \<Longrightarrow>
    svstep x SvLaunch (x\<lparr>sy_server := s, sy_starts := Launched # sy_starts x\<rparr>)"
| sv_start_refused: "Start_begin (sy_server x) = Inl err \<Longrightarrow> svstep x (SvRefused err) x"
| sv_return: "Launched \<in> set (sy_starts x) \<Longrightarrow>
    svstep x (SvReturn err) (x\<lparr>sy_starts := Returned err # remove1 Launched (sy_starts x)\<rparr>)"
| sv_store: "Returned err \<in> set (sy_starts x) \<Longrightarrow>
    svstep x SvStore (x\<lparr>sy_server := Start_store err (sy_server x),
      sy_starts := Stored err # remove1 (Returned err) (sy_starts x)\<rparr>)"
| sv_finish: "Stored err \<in> set (sy_starts x) \<Longrightarrow>
    svstep x (SvStarted err) (x\<lparr>sy_server := Start_deferred (sy_server x), sy_starts := remove1 (Stored err) (sy_starts x)\<rparr>)"
| sv_stop: "Stop_begin (sy_server x) = Inr s \<Longrightarrow> svstep x SvStop (x\<lparr>sy_server := s, sy_stops := sy_stops x + 1\<rparr>)"
| sv_stop_refused: "Stop_begin (sy_server x) = Inl err \<Longrightarrow> svstep x (SvRefused err) x"
| sv_stop_done: "0 < sy_stops x \<Longrightarrow> Stop_done (sy_server x) = Some err \<Longrightarrow>
    svstep x (SvStopDone err) (x\<lparr>sy_stops := sy_stops x - 1\<rparr>)"
| sv_stop_timeout: "0 < sy_stops x \<Longrightarrow> svstep x SvStopTimeout (x\<lparr>sy_stops := sy_stops x - 1\<rparr>)"

inductive_cases svstep_launchE: "svstep x SvLaunch y"
inductive_cases svstep_refusedE: "svstep x (SvRefused err) y"

definition svinit :: "('l, 'o, 'x) server_system \<Rightarrow> bool" where
  "svinit x \<longleftrightarrow> (\<exists>lg opts. server_New lg opts = Inr (sy_server x)) \<and> sy_starts x = [] \<and> sy_stops x = 0"

text \<open>
  Where the server is: not started; or started once, with the one \<open>Start\<close> that got through in one of
  its phases, or finished with its result stored.
\<close>

definition sv_inv :: "('l, 'o, 'x) server_system \<Rightarrow> bool" where
  "sv_inv x \<longleftrightarrow>
     (let s = sy_server x in
      (\<not> sv_started s \<and> sv_done s = NilChan \<and> sy_starts x = [] \<and> sv_runErr s = None \<and> sy_stops x = 0) \<or>
      (sv_started s \<and> sv_done s = OpenChan \<and>
        (sy_starts x = [Launched] \<and> sv_runErr s = None \<or> (\<exists>r. sy_starts x = [Returned r]) \<and> sv_runErr s = None \<or>
         (\<exists>r. sy_starts x = [Stored r] \<and> sv_runErr s = Some r))) \<or>
      (sv_started s \<and> sv_done s = ClosedChan \<and> sy_starts x = [] \<and> sv_runErr s \<noteq> None))"

lemma server_New_fresh:
  "server_New lg opts = Inr s \<Longrightarrow> \<not> sv_started s \<and> sv_done s = NilChan \<and> sv_runErr s = None \<and> options_ok (sv_opts s)"
  using validate_ok [of lg opts] by (cases "validate lg opts") (auto simp: server_New_def)

lemma sv_inv_init: "svinit x \<Longrightarrow> sv_inv x"
  using server_New_fresh by (fastforce simp: svinit_def sv_inv_def Let_def)

lemma sv_inv_step: "svstep x e y \<Longrightarrow> sv_inv x \<Longrightarrow> sv_inv y"
  by (induction rule: svstep.induct)
    (auto simp: sv_inv_def Let_def Start_begin_def Start_store_def Start_deferred_def Stop_begin_def split: if_splits)

interpretation sv: invariant_system svinit svstep sv_inv
  by unfold_locales (auto intro: sv_inv_init sv_inv_step)

text \<open>What a run of the system says about the state it leads to.\<close>

definition sv_hist :: "'x server_event list \<Rightarrow> ('l, 'o, 'x) server_system \<Rightarrow> bool" where
  "sv_hist es x \<longleftrightarrow>
     length (filter (\<lambda>e. e = SvLaunch) es) = (if sv_started (sy_server x) then 1 else 0) \<and>
     (\<forall>r. SvReturn r \<in> set es \<longleftrightarrow> Returned r \<in> set (sy_starts x) \<or> sv_runErr (sy_server x) = Some r) \<and>
     (\<forall>r. SvStopDone r \<in> set es \<or> SvStarted r \<in> set es \<longrightarrow> sv_runErr (sy_server x) = Some r)"

lemma sv_hist_run:
  assumes "run svstep x es y" "svinit x"
  shows "sv_hist es y"
  using assms
proof (induction rule: run.induct)
  case (run_nil s)
  then obtain lg opts where "server_New lg opts = Inr (sy_server s)" by (auto simp: svinit_def)
  then show ?case using run_nil server_New_fresh [of lg opts "sy_server s"] by (simp add: svinit_def sv_hist_def)
next
  case (run_snoc s es t e u)
  have inv: "sv_inv t" using sv.run_inv [OF run_snoc.hyps(1)] sv_inv_init run_snoc.prems by blast
  from run_snoc.hyps(2) run_snoc.IH [OF run_snoc.prems] inv show ?case
    by (induction rule: svstep.induct)
      (auto simp: sv_hist_def sv_inv_def Let_def Start_begin_def Start_store_def Start_deferred_def Stop_begin_def Stop_done_def
        split: if_splits)
qed

text \<open>
  C16: A server runs once, and everybody learns the same result. In every interleaving of
  \<open>Start\<close> and \<open>Stop\<close> calls on a new server: the runner is launched at most once; the runner's result is
  one value, the value that \<open>Start\<close> returns and that every \<open>Stop\<close> which does not time out returns,
  and no \<open>Stop\<close> returns it before the runner has returned; once launched, \<open>Start\<close> is refused with
  \<open>ErrAlreadyStarted\<close> and \<open>Stop\<close> is no longer refused.
\<close>

theorem server_runs_once:
  assumes "svinit x" "run svstep x es y"
  shows "length (filter (\<lambda>e. e = SvLaunch) es) \<le> 1 \<and>
    (\<forall>r r'. SvReturn r \<in> set es \<and> SvReturn r' \<in> set es \<longrightarrow> r = r') \<and>
    (\<forall>r. SvStopDone r \<in> set es \<or> SvStarted r \<in> set es \<longrightarrow> SvReturn r \<in> set es) \<and>
    (\<forall>err z. SvLaunch \<in> set es \<and> svstep y (SvRefused err) z \<longrightarrow> err = ErrAlreadyStarted)"
proof -
  have h: "sv_hist es y" by (rule sv_hist_run [OF assms(2,1)])
  have i: "sv_inv y" using sv.run_inv [OF assms(2)] sv_inv_init [OF assms(1)] by blast
  have "sv_started (sy_server y)" if "SvLaunch \<in> set es"
  proof (rule ccontr)
    assume "\<not> sv_started (sy_server y)"
    then have "filter (\<lambda>e. e = SvLaunch) es = []" using h by (simp add: sv_hist_def)
    then show False using that by (auto simp: filter_empty_conv)
  qed
  then have "err = ErrAlreadyStarted" if "SvLaunch \<in> set es" "svstep y (SvRefused err) z" for err z
    using that by (auto elim!: svstep_refusedE simp: Start_begin_def Stop_begin_def)
  moreover have "r = r'" if "SvReturn r \<in> set es" "SvReturn r' \<in> set es" for r r'
    using that h i by (auto simp: sv_hist_def sv_inv_def Let_def)
  moreover have "SvReturn r \<in> set es" if "SvStopDone r \<in> set es \<or> SvStarted r \<in> set es" for r
    using that h unfolding sv_hist_def by blast
  moreover have "length (filter (\<lambda>e. e = SvLaunch) es) \<le> 1" using h by (simp add: sv_hist_def)
  ultimately show ?thesis by blast
qed

definition demo_server_opts :: "(unit, unit) Options" where
  "demo_server_opts = \<lparr>op_Listen = '''', op_Upstream = ''gate:25567'', op_AuthType = Online, op_FloodgateKey = [],
     op_MOTD = \<lparr>motd_Line1 = '''', motd_Line2 = ''''\<rparr>, op_Mode = ModeSubprocess, op_LibraryPath = '''', op_BinaryPath = '''',
     op_JVMArgs = None, op_Logger = None, op_RestartPolicy = None, op_ShutdownTimeout = 0, op_Version = '''',
     op_Mirror = '''', op_Offline = True, op_ConfigOverrides = []\<rparr>"

lemma demo_server: "\<exists>s :: (unit, unit, nat) Server. server_New () demo_server_opts = Inr s"
  by (simp add: server_New_def validate_eq demo_server_opts_def)

theorem server_runs_once_witness:
  "\<exists>(x :: (unit, unit, nat) server_system) y. svinit x \<and> run svstep x [SvLaunch, SvStop, SvReturn (Some 7), SvStore, SvStarted (Some 7), SvStopDone (Some 7)] y \<and>
     (\<forall>err z. svstep y (SvRefused err) z \<longrightarrow> err = ErrAlreadyStarted)"
proof -
  obtain s :: "(unit, unit, nat) Server" where s: "server_New () demo_server_opts = Inr s" using demo_server by blast
  note fresh = server_New_fresh [OF s]
  define x0 where "x0 = \<lparr>sy_server = s, sy_starts = [], sy_stops = 0\<rparr>"
  define s1 where "s1 = s\<lparr>sv_started := True, sv_canceled := False, sv_done := OpenChan\<rparr>"
  define x1 where "x1 = \<lparr>sy_server = s1, sy_starts = [Launched], sy_stops = 0\<rparr>"
  define x2 where "x2 = \<lparr>sy_server = s1\<lparr>sv_canceled := True\<rparr>, sy_starts = [Launched], sy_stops = 1\<rparr>"
  define x3 where "x3 = x2\<lparr>sy_starts := [Returned (Some (7 :: nat))]\<rparr>"
  define x4 where "x4 = x2\<lparr>sy_server := Start_store (Some 7) (sy_server x2), sy_starts := [Stored (Some 7)]\<rparr>"
  define x5 where "x5 = x4\<lparr>sy_server := Start_deferred (sy_server x4), sy_starts := []\<rparr>"
  have 1: "svstep x0 SvLaunch x1"
    using sv_launch [of x0 s1] fresh by (simp add: x0_def x1_def s1_def Start_begin_def)
  have 2: "svstep x1 SvStop x2"
    using sv_stop [of x1 "s1\<lparr>sv_canceled := True\<rparr>"] by (simp add: x1_def x2_def s1_def Stop_begin_def)
  have 3: "svstep x2 (SvReturn (Some 7)) x3" using sv_return [of x2 "Some 7"] by (simp add: x2_def x3_def)
  have 4: "svstep x3 SvStore x4" using sv_store [of "Some 7" x3] by (simp add: x3_def x4_def x2_def)
  have 5: "svstep x4 (SvStarted (Some 7)) x5" using sv_finish [of "Some 7" x4] by (simp add: x4_def x5_def)
  have 6: "svstep x5 (SvStopDone (Some 7)) (x5\<lparr>sy_stops := 0\<rparr>)"
    using sv_stop_done [of x5 "Some 7"] by (simp add: x5_def x4_def x2_def s1_def Stop_done_def Start_deferred_def Start_store_def)
  have r: "run svstep x0 [SvLaunch, SvStop, SvReturn (Some 7), SvStore, SvStarted (Some 7), SvStopDone (Some 7)] (x5\<lparr>sy_stops := 0\<rparr>)"
    by (rule run_cons [where step = svstep, OF 1], rule run_cons [where step = svstep, OF 2],
        rule run_cons [where step = svstep, OF 3], rule run_cons [where step = svstep, OF 4],
        rule run_cons [where step = svstep, OF 5], rule run_one [where step = svstep, OF 6])
  have i: "svinit x0" using s by (auto simp: svinit_def x0_def)
  have "err = ErrAlreadyStarted" if "svstep (x5\<lparr>sy_stops := 0\<rparr>) (SvRefused err) z" for err z
    using server_runs_once [OF i r] that by (metis list.set_intros(1))
  then show ?thesis using i r by blast
qed

end
