(* ===== verification/Embedded.thy ===== *)
theory Embedded
  imports Options Broker
begin

text \<open>
  The in-process runner: the callback generations of \<^verbatim>\<open>go/embedded_ingress.go\<close> and the isolate
  life cycle of \<^verbatim>\<open>go/embedded.go\<close>. The native library (GraalVM and the exported entry points)
  is not Go code of the repository: what its functions return is an argument, and every call of it
  is recorded in a trace. \<open>'c\<close> is the type of context errors, \<open>'e\<close> that of other errors.

  The broker holds two closures, \<open>assignNative\<close> and \<open>fatal\<close>; here both are the id of the
  generation they belong to.
\<close>

section \<open>Callback generations\<close>

type_synonym gen_broker = "(u64, u64) ingressBroker"

datatype gen_error = GenIngress ingress_error | GenNullPointer

text \<open>
  \<open>cg_failed\<close> says that \<open>fatalOnce\<close> has run; \<open>cg_wake\<close> holds the errors sent on \<open>fatalWake\<close>,
  a channel of capacity one that is closed after the send.
\<close>

record callbackGeneration =
  cg_id :: u64
  cg_accepting :: bool
  cg_inFlight :: nat
  cg_failed :: bool
  cg_wake :: "gen_error list"

definition newCallbackGeneration :: "u64 \<Rightarrow> callbackGeneration" where
  "newCallbackGeneration gid =
     \<lparr>cg_id = gid, cg_accepting = True, cg_inFlight = 0, cg_failed = False, cg_wake = []\<rparr>"

definition gen_enter :: "callbackGeneration \<Rightarrow> bool \<times> callbackGeneration" where
  "gen_enter g = (if \<not> cg_accepting g then (False, g) else (True, g\<lparr>cg_inFlight := cg_inFlight g + 1\<rparr>))"

definition gen_done :: "callbackGeneration \<Rightarrow> callbackGeneration" where
  "gen_done g = g\<lparr>cg_inFlight := cg_inFlight g - 1\<rparr>"

definition closeGate :: "callbackGeneration \<Rightarrow> callbackGeneration" where
  "closeGate g = g\<lparr>cg_accepting := False\<rparr>"

text \<open>\<open>inFlight.Wait()\<close> returns when the count is zero; \<open>None\<close> while it waits.\<close>

definition closeAndWait :: "callbackGeneration \<Rightarrow> callbackGeneration option" where
  "closeAndWait g = (let g = closeGate g in if cg_inFlight g = 0 then Some g else None)"

definition gen_fail :: "gen_error \<Rightarrow> callbackGeneration \<times> gen_broker \<Rightarrow> callbackGeneration \<times> gen_broker" where
  "gen_fail err = (\<lambda>(g, b).
     let b = broker_failGeneration (cg_id g) b in
     if cg_failed g then (g, b)
     else (let g = closeGate (g\<lparr>cg_failed := True\<rparr>) in (g\<lparr>cg_wake := cg_wake g @ [err]\<rparr>, b)))"

section \<open>The callbacks\<close>

text \<open>
  The bodies of the two callbacks, between \<open>enter\<close> and the deferred \<open>Done\<close>. A broker method that
  fails has run its \<open>fatal\<close> callback, which is \<open>fail\<close> of the generation, before it returns.
\<close>

definition runFatal :: "ingress_error option \<Rightarrow> u64 option \<Rightarrow> callbackGeneration \<times> gen_broker \<Rightarrow> callbackGeneration \<times> gen_broker" where
  "runFatal err fatal gb =
     (case (err, fatal) of (Some e, Some _) \<Rightarrow> gen_fail (GenIngress e) gb | _ \<Rightarrow> gb)"

definition openFn_body :: "time \<Rightarrow> u64 \<Rightarrow> callbackGeneration \<times> gen_broker \<Rightarrow> callbackGeneration \<times> gen_broker" where
  "openFn_body now handle = (\<lambda>(g, b).
     case broker_open now (cg_id g) handle b of
       (err, fatal, b) \<Rightarrow>
         (let gb = runFatal err fatal (g, b) in
          case err of Some e \<Rightarrow> gen_fail (GenIngress e) gb | None \<Rightarrow> gb))"

text \<open>\<open>mem p n\<close> are the \<open>n\<close> bytes of native memory at \<open>p\<close>.\<close>

definition copyNativeBytes :: "(u64 \<Rightarrow> nat \<Rightarrow> bytes) \<Rightarrow> u64 \<Rightarrow> nat \<Rightarrow> bytes" where
  "copyNativeBytes mem p n = mem p n"

definition verifiedFn_body ::
    "abi \<Rightarrow> time \<Rightarrow> (u64 \<Rightarrow> nat \<Rightarrow> bytes) \<Rightarrow> u64 \<Rightarrow> u64 \<Rightarrow> u32 \<Rightarrow> u64 \<Rightarrow>
      callbackGeneration \<times> gen_broker \<Rightarrow> callbackGeneration \<times> gen_broker" where
  "verifiedFn_body A now mem correlationPtr framePtr frameLen expiresUnixMS = (\<lambda>(g, b).
     if correlationPtr = 0 \<or> framePtr = 0 then gen_fail GenNullPointer (g, b)
     else if unat frameLen < MinIngressFrameBytes A \<or> unat frameLen > MaxIngressFrameBytes A
     then gen_fail (GenIngress ErrIngressFrame) (g, b)
     else
       (let correlation = copyNativeBytes mem correlationPtr (CorrelationBytes A);
            frame = copyNativeBytes mem framePtr (unat frameLen)
        in case broker_deliverCallback A now (cg_id g) correlation frame expiresUnixMS b of
             (err, fatal, b) \<Rightarrow>
               (let gb = runFatal err fatal (g, b) in
                case err of Some e \<Rightarrow> gen_fail (GenIngress e) gb | None \<Rightarrow> gb)))"

section \<open>The isolate\<close>

datatype native =
    NCreate | NInit | NRegister | NUnregister | NAttach | NStatus | NShutdown | NRun | NRunReturned | NTearDown
  | GDrained | GHealthStopped

datatype ('c, 'e) embedded_error =
    Prepare 'e | CreateFailed int | InitFailed int | GenerationActive | RegisterFailed int | UnregisterFailed int
  | AttachFailed int | ShutdownFailed int | RunFailed int | TearDownFailed int | CtxErr 'c | Fatal gen_error

datatype 'c supervisor_event = EvFatal gen_error | EvRun int | EvCtx 'c

text \<open>
  What one run meets: the result of locating, loading and staging, the return codes of the native
  calls, \<open>ctx.Err()\<close> at its three checks, whether the context ends the wait for the isolate, on
  either side of the channel, the callbacks the native side has invoked when the supervisor wakes up,
  the event it wakes up to, how often the health poller asked
  for the status before it ended, and whether the last answer was 1.
\<close>

datatype callback =
    CbOpen time u64
  | CbVerified time "u64 \<Rightarrow> nat \<Rightarrow> bytes" u64 u64 u32 u64

record ('c, 'e) embedded_env =
  em_prepare :: "'e option"
  em_create :: int
  em_init :: int
  em_ctx :: "nat \<Rightarrow> 'c option"
  em_registerRC :: int
  em_attachUnregister :: int
  em_unregisterRC :: int
  em_handoffCtx :: "'c option"
  em_mainCtx :: "'c option"
  em_callbacks :: "callback list"
  em_event :: "'c supervisor_event"
  em_attachHealth :: int
  em_polls :: nat
  em_up :: bool
  em_attachShutdown :: int
  em_shutdownRC :: int
  em_runRC :: int
  em_tearDownRC :: int

record embedded_state =
  es_counter :: u64
  es_current :: "u64 option"
  es_gen :: callbackGeneration
  es_broker :: gen_broker
  es_healthy :: bool
  es_trace :: "native list"

definition emit :: "native \<Rightarrow> embedded_state \<Rightarrow> embedded_state" where
  "emit n st = st\<lparr>es_trace := es_trace st @ [n]\<rparr>"

text \<open>
  \<open>callOnAttachedThread\<close>: the result is sent before the deferred detach, so the detach may come at
  any later time and is not part of the trace.
\<close>

definition callOnAttachedThread ::
    "int \<Rightarrow> (embedded_state \<Rightarrow> ('c, 'e) embedded_error option \<times> embedded_state) \<Rightarrow> embedded_state \<Rightarrow>
      ('c, 'e) embedded_error option \<times> embedded_state" where
  "callOnAttachedThread attachRC fn st =
     (let st = emit NAttach st in if attachRC \<noteq> 0 then (Some (AttachFailed attachRC), st) else fn st)"

definition clearCurrentGeneration :: "embedded_state \<Rightarrow> embedded_state" where
  "clearCurrentGeneration st =
     (if es_current st = Some (cg_id (es_gen st)) then st\<lparr>es_current := None\<rparr> else st)"

text \<open>
  The waits for callbacks in flight are \<open>GDrained\<close>: the generation after it has none.
\<close>

definition drain_gen :: "embedded_state \<Rightarrow> embedded_state" where
  "drain_gen st = emit GDrained (st\<lparr>es_gen := (es_gen st)\<lparr>cg_inFlight := 0\<rparr>\<rparr>)"

definition close_gate :: "embedded_state \<Rightarrow> embedded_state" where
  "close_gate st = st\<lparr>es_gen := closeGate (es_gen st)\<rparr>"

definition deactivate_gen :: "embedded_state \<Rightarrow> embedded_state" where
  "deactivate_gen st = st\<lparr>es_broker := broker_deactivate (cg_id (es_gen st)) (es_broker st)\<rparr>"

definition startIngressGeneration ::
    "abi \<Rightarrow> ('c, 'e) embedded_env \<Rightarrow> embedded_state \<Rightarrow> ('c, 'e) embedded_error option \<times> embedded_state" where
  "startIngressGeneration A e st =
     (let gid = cg_id (es_gen st);
          st = st\<lparr>es_broker := broker_activate gid (Some gid) (Some gid) (es_broker st)\<rparr>
      in if es_current st \<noteq> None
         then (Some GenerationActive, deactivate_gen (drain_gen (close_gate st)))
         else
           (let st = emit NRegister (st\<lparr>es_current := Some gid\<rparr>) in
            if em_registerRC e \<noteq> CallbackRegistrationOK A
            then (Some (RegisterFailed (em_registerRC e)),
                  clearCurrentGeneration (deactivate_gen (drain_gen (close_gate (emit NUnregister st)))))
            else (None, st)))"

definition stopIngressGeneration ::
    "abi \<Rightarrow> ('c, 'e) embedded_env \<Rightarrow> embedded_state \<Rightarrow> ('c, 'e) embedded_error option \<times> embedded_state" where
  "stopIngressGeneration A e st =
     (let st = deactivate_gen (close_gate st);
          (err, st) = callOnAttachedThread (em_attachUnregister e)
            (\<lambda>st. (if em_unregisterRC e \<noteq> CallbackRegistrationOK A then Some (UnregisterFailed (em_unregisterRC e)) else None,
                   emit NUnregister st)) st
      in (err, clearCurrentGeneration (drain_gen st)))"

text \<open>\<open>Assign\<close> through the closure of \<open>startIngressGeneration\<close>: the gate, then the native call.\<close>

definition assignIngress :: "int \<Rightarrow> int \<Rightarrow> int" where
  "assignIngress attachRC rc = (if attachRC \<noteq> 0 then embeddedAssignmentTransportFailure else rc)"

definition assign_closure :: "int \<Rightarrow> int \<Rightarrow> callbackGeneration \<Rightarrow> int \<times> callbackGeneration" where
  "assign_closure attachRC rc g =
     (case gen_enter g of
        (False, g) \<Rightarrow> (embeddedAssignmentTransportFailure, g)
      | (True, g) \<Rightarrow> (assignIngress attachRC rc, gen_done g))"

text \<open>
  The two functions the native side calls, \<open>openFn\<close> and \<open>verifiedFn\<close> of \<open>newCallbackRoots\<close>: nothing
  happens unless a generation is current and its gate is open. Another generation that is current
  is another runner's: its callbacks leave this runner's state alone.
\<close>

definition guarded ::
    "(callbackGeneration \<times> gen_broker \<Rightarrow> callbackGeneration \<times> gen_broker) \<Rightarrow> embedded_state \<Rightarrow> embedded_state" where
  "guarded body st =
     (if es_current st \<noteq> Some (cg_id (es_gen st)) then st
      else case gen_enter (es_gen st) of
        (False, _) \<Rightarrow> st
      | (True, g) \<Rightarrow> (case body (g, es_broker st) of (g, b) \<Rightarrow> st\<lparr>es_gen := gen_done g, es_broker := b\<rparr>))"

definition openFn :: "time \<Rightarrow> u64 \<Rightarrow> embedded_state \<Rightarrow> embedded_state" where
  "openFn now handle = guarded (openFn_body now handle)"

definition verifiedFn ::
    "abi \<Rightarrow> time \<Rightarrow> (u64 \<Rightarrow> nat \<Rightarrow> bytes) \<Rightarrow> u64 \<Rightarrow> u64 \<Rightarrow> u32 \<Rightarrow> u64 \<Rightarrow> embedded_state \<Rightarrow> embedded_state" where
  "verifiedFn A now mem correlationPtr framePtr frameLen expiresUnixMS =
     guarded (verifiedFn_body A now mem correlationPtr framePtr frameLen expiresUnixMS)"

fun callback_run :: "abi \<Rightarrow> callback \<Rightarrow> embedded_state \<Rightarrow> embedded_state" where
  "callback_run A (CbOpen now handle) st = openFn now handle st"
| "callback_run A (CbVerified now mem c f n ms) st = verifiedFn A now mem c f n ms st"

text \<open>
  The goroutine that owns the isolate, up to the handover; \<open>Some err\<close> is what it sends on
  \<open>createErr\<close>. Every failure after the creation tears the isolate down.
\<close>

definition tear_down :: "embedded_state \<Rightarrow> embedded_state" where
  "tear_down st = emit NTearDown st"

definition embedded_create ::
    "abi \<Rightarrow> ('c, 'e) embedded_env \<Rightarrow> embedded_state \<Rightarrow> ('c, 'e) embedded_error option \<times> embedded_state" where
  "embedded_create A e st =
     (let st = emit NCreate st in
      if em_create e \<noteq> 0 then (Some (CreateFailed (em_create e)), st)
      else case em_ctx e 1 of Some c \<Rightarrow> (Some (CtxErr c), tear_down st)
      | None \<Rightarrow>
          (let st = emit NInit st in
           if em_init e \<noteq> 0 then (Some (InitFailed (em_init e)), tear_down st)
           else case em_ctx e 2 of Some c \<Rightarrow> (Some (CtxErr c), tear_down st)
           | None \<Rightarrow>
               (case startIngressGeneration A e st of
                  (Some err, st) \<Rightarrow> (Some err, tear_down st)
                | (None, st) \<Rightarrow>
                    (case (case em_ctx e 3 of Some c \<Rightarrow> Some c | None \<Rightarrow> em_handoffCtx e) of
                       Some c \<Rightarrow> (Some (CtxErr c), tear_down (snd (stopIngressGeneration A e st)))
                     | None \<Rightarrow> (None, emit NRun st)))))"

text \<open>\<open>reason\<close> keeps the first error.\<close>

definition first_error :: "'x option \<Rightarrow> 'x option \<Rightarrow> 'x option" where
  "first_error reason err = (if reason = None then err else reason)"

definition health_poll :: "('c, 'e) embedded_env \<Rightarrow> embedded_state \<Rightarrow> embedded_state" where
  "health_poll e st =
     (let st = emit NAttach st in
      if em_attachHealth e \<noteq> 0 then emit GHealthStopped st
      else emit GHealthStopped (st\<lparr>es_trace := es_trace st @ replicate (em_polls e) NStatus,
             es_healthy := es_healthy st \<or> em_up e\<rparr>))"

text \<open>
  The supervisor, from the wake-up to the end: gate, unregistration, health poller, shutdown unless
  \<open>geyser_run\<close> has returned by itself, teardown.
\<close>

definition embedded_supervise ::
    "abi \<Rightarrow> ('c, 'e) embedded_env \<Rightarrow> embedded_state \<Rightarrow> ('c, 'e) embedded_error option \<times> embedded_state" where
  "embedded_supervise A e st =
     (let runErr = (\<lambda>rc. if rc \<noteq> 0 then Some (RunFailed rc) else None);
          st = fold (callback_run A) (em_callbacks e) st;
          (reason, runExited, st) =
            (case em_event e of
               EvFatal err \<Rightarrow> (Some (Fatal err), False, st)
             | EvRun rc \<Rightarrow> (runErr rc, True, emit NRunReturned st)
             | EvCtx c \<Rightarrow> (Some (CtxErr c), False, st));
          (err, st) = stopIngressGeneration A e (close_gate st);
          reason = first_error reason err;
          st = health_poll e st;
          (reason, st) =
            (if runExited then (reason, st)
             else
               (let (err, st) = callOnAttachedThread (em_attachShutdown e)
                      (\<lambda>st. (if em_shutdownRC e \<noteq> 0 then Some (ShutdownFailed (em_shutdownRC e)) else None, emit NShutdown st)) st;
                    reason = first_error reason err
                in (first_error reason (runErr (em_runRC e)), emit NRunReturned st)));
          st = tear_down st;
          reason = first_error reason (if em_tearDownRC e \<noteq> 0 then Some (TearDownFailed (em_tearDownRC e)) else None)
      in (reason, st\<lparr>es_healthy := False\<rparr>))"

definition embedded_run ::
    "abi \<Rightarrow> ('c, 'e) embedded_env \<Rightarrow> embedded_state \<Rightarrow> ('c, 'e) embedded_error option \<times> embedded_state" where
  "embedded_run A e st =
     (case em_prepare e of
        Some err \<Rightarrow> (Some (Prepare err), st)
      | None \<Rightarrow>
          (let st = st\<lparr>es_counter := es_counter st + 1\<rparr>;
               st = st\<lparr>es_gen := newCallbackGeneration (es_counter st)\<rparr>
           in case embedded_create A e st of
                (Some err, st) \<Rightarrow> (case em_mainCtx e of Some c \<Rightarrow> (Some (CtxErr c), st) | None \<Rightarrow> (Some err, st))
              | (None, st) \<Rightarrow> embedded_supervise A e st))"

section \<open>Loading and polling\<close>

text \<open>
  \<open>load\<close> runs once: the second call reports no error whatever the first one met. \<open>bindErr\<close> is
  what registering an export panics with.
\<close>

definition exports :: "string list" where
  "exports = [''graal_create_isolate'', ''graal_tear_down_isolate'', ''graal_attach_thread'', ''graal_detach_thread'',
     ''geyser_init'', ''geyser_run'', ''geyser_shutdown'', ''geyser_status'',
     ''geyserlite_set_ingress_callbacks_v1'', ''geyserlite_assign_verified_ingress_v1'']"

datatype 'e load_error = OpenLibrary 'e | BindErr string 'e

fun bindAll :: "(string \<Rightarrow> 'e option) \<Rightarrow> string list \<Rightarrow> 'e load_error option" where
  "bindAll bindErr [] = None"
| "bindAll bindErr (name # names) =
     (case bindErr name of Some err \<Rightarrow> Some (BindErr name err) | None \<Rightarrow> bindAll bindErr names)"

definition embedded_load :: "'e option \<Rightarrow> (string \<Rightarrow> 'e option) \<Rightarrow> bool \<Rightarrow> 'e load_error option \<times> bool" where
  "embedded_load openErr bindErr once =
     (if once then (None, True)
      else case openErr of
        Some err \<Rightarrow> (Some (OpenLibrary err), True)
      | None \<Rightarrow> (bindAll bindErr exports, True))"

definition cString :: "string \<Rightarrow> bytes" where
  "cString s = bytes_of_string s @ [0]"

text \<open>
  The loop of \<open>pollHealth\<close>: \<open>status i\<close> is the answer to poll \<open>i\<close>, \<open>before i\<close> and \<open>after i\<close> say
  whether the context is done at the two \<open>select\<close>s around it. The result is the health flag it sets
  and the number of polls.
\<close>

partial_function (option) pollLoop ::
    "(nat \<Rightarrow> int) \<Rightarrow> (nat \<Rightarrow> bool) \<Rightarrow> (nat \<Rightarrow> bool) \<Rightarrow> nat \<Rightarrow> (bool \<times> nat) option" where
  "pollLoop status before after i =
     (if before i then Some (False, i)
      else if status i = 1 then Some (True, Suc i)
      else if after i then Some (False, Suc i)
      else pollLoop status before after (Suc i))"

end
