(* ===== verification/Embedded_Correct.thy ===== *)
theory Embedded_Correct
  imports Embedded Broker_Inv
begin

text \<open>
  What the in-process runner guarantees. The native calls of a run follow the protocol of an
  isolate, stated as an automaton (\<open>monitor\<close>); the callbacks of a generation, which the native side may
  invoke at any time and on any thread, stop before the generation is drained; a callback that fails
  closes its generation and wakes the supervisor once.
\<close>

section \<open>The protocol of an isolate\<close>

record mon =
  mn_created :: bool
  mn_init :: bool
  mn_registered :: bool
  mn_drained :: bool
  mn_running :: bool
  mn_health :: bool
  mn_torn :: bool

definition mon0 :: mon where
  "mon0 = \<lparr>mn_created = False, mn_init = False, mn_registered = False, mn_drained = False, mn_running = False,
     mn_health = False, mn_torn = False\<rparr>"

text \<open>
  Which call may come next: no call before the creation or after the teardown; shutdown only
  while \<open>geyser_run\<close> is running, after the callbacks are drained and the health poller has stopped;
  teardown only when \<open>geyser_run\<close> is not running and registered callbacks are drained.
\<close>

definition allowed :: "native \<Rightarrow> mon \<Rightarrow> bool" where
  "allowed n m \<longleftrightarrow> \<not> mn_torn m \<and>
     (case n of
        NCreate \<Rightarrow> \<not> mn_created m
      | NInit \<Rightarrow> mn_created m \<and> \<not> mn_init m
      | NRegister \<Rightarrow> mn_init m \<and> \<not> mn_registered m
      | NUnregister \<Rightarrow> mn_registered m
      | NAttach \<Rightarrow> mn_init m
      | NStatus \<Rightarrow> mn_init m \<and> \<not> mn_health m
      | NRun \<Rightarrow> mn_init m \<and> mn_registered m \<and> \<not> mn_drained m
      | NRunReturned \<Rightarrow> mn_running m
      | NShutdown \<Rightarrow> mn_running m \<and> mn_drained m \<and> mn_health m
      | NTearDown \<Rightarrow> mn_created m \<and> \<not> mn_running m \<and> (mn_registered m \<longrightarrow> mn_drained m)
      | _ \<Rightarrow> True)"

definition advance :: "native \<Rightarrow> mon \<Rightarrow> mon" where
  "advance n m =
     (case n of
        NCreate \<Rightarrow> m\<lparr>mn_created := True\<rparr>
      | NInit \<Rightarrow> m\<lparr>mn_init := True\<rparr>
      | NRegister \<Rightarrow> m\<lparr>mn_registered := True\<rparr>
      | NRun \<Rightarrow> m\<lparr>mn_running := True\<rparr>
      | NRunReturned \<Rightarrow> m\<lparr>mn_running := False\<rparr>
      | NTearDown \<Rightarrow> m\<lparr>mn_torn := True\<rparr>
      | GDrained \<Rightarrow> m\<lparr>mn_drained := True\<rparr>
      | GHealthStopped \<Rightarrow> m\<lparr>mn_health := True\<rparr>
      | _ \<Rightarrow> m)"

fun monitor :: "mon \<Rightarrow> native list \<Rightarrow> mon option" where
  "monitor m [] = Some m"
| "monitor m (n # ns) = (if allowed n m then monitor (advance n m) ns else None)"

lemma monitor_append: "monitor m (xs @ ys) = (case monitor m xs of None \<Rightarrow> None | Some m' \<Rightarrow> monitor m' ys)"
  by (induction xs arbitrary: m) auto

lemma monitor_seq: "monitor m xs = Some m' \<Longrightarrow> monitor m (xs @ ys) = monitor m' ys"
  by (simp add: monitor_append)

lemma monitor_polls:
  "mn_init m \<Longrightarrow> \<not> mn_health m \<Longrightarrow> \<not> mn_torn m \<Longrightarrow> monitor m (replicate k NStatus) = Some m"
  by (induction k) (auto simp: allowed_def advance_def)

lemma emit_sel [simp]:
  "es_counter (emit n st) = es_counter st" "es_current (emit n st) = es_current st" "es_gen (emit n st) = es_gen st"
  "es_broker (emit n st) = es_broker st" "es_healthy (emit n st) = es_healthy st" "es_trace (emit n st) = es_trace st @ [n]"
  by (simp_all add: emit_def)

lemma close_gate_sel [simp]:
  "es_current (close_gate st) = es_current st" "es_broker (close_gate st) = es_broker st" "es_healthy (close_gate st) = es_healthy st"
  "es_trace (close_gate st) = es_trace st" "cg_id (es_gen (close_gate st)) = cg_id (es_gen st)"
  by (simp_all add: close_gate_def closeGate_def)

lemma drain_gen_sel [simp]:
  "es_current (drain_gen st) = es_current st" "es_broker (drain_gen st) = es_broker st" "es_healthy (drain_gen st) = es_healthy st"
  "es_trace (drain_gen st) = es_trace st @ [GDrained]" "cg_id (es_gen (drain_gen st)) = cg_id (es_gen st)"
  by (simp_all add: drain_gen_def)

lemma deactivate_gen_sel [simp]:
  "es_current (deactivate_gen st) = es_current st" "es_broker (deactivate_gen st) = broker_deactivate (cg_id (es_gen st)) (es_broker st)"
  "es_healthy (deactivate_gen st) = es_healthy st" "es_trace (deactivate_gen st) = es_trace st" "es_gen (deactivate_gen st) = es_gen st"
  by (simp_all add: deactivate_gen_def)

lemma clear_sel [simp]:
  "es_current (clearCurrentGeneration st) = (if es_current st = Some (cg_id (es_gen st)) then None else es_current st)"
  "es_broker (clearCurrentGeneration st) = es_broker st" "es_healthy (clearCurrentGeneration st) = es_healthy st"
  "es_trace (clearCurrentGeneration st) = es_trace st"
  by (simp_all add: clearCurrentGeneration_def)

lemma tear_down_sel [simp]:
  "es_current (tear_down st) = es_current st" "es_broker (tear_down st) = es_broker st" "es_healthy (tear_down st) = es_healthy st"
  "es_trace (tear_down st) = es_trace st @ [NTearDown]"
  by (simp_all add: tear_down_def)

lemma deactivate_quiet: "b_generation b = g \<or> \<not> b_active b \<Longrightarrow> \<not> b_active (broker_deactivate g b)"
  by (auto simp: broker_deactivate_def)

text \<open>A generation that is registered and current, and one that is gone.\<close>

definition gen_live :: "embedded_state \<Rightarrow> bool" where
  "gen_live st \<longleftrightarrow> es_current st = Some (cg_id (es_gen st)) \<and> b_generation (es_broker st) = cg_id (es_gen st)"

lemma gen_stop_phase:
  assumes "gen_live st" "stopIngressGeneration A e st = (err, st')"
  shows "es_current st' = None \<and> \<not> b_active (es_broker st') \<and> es_healthy st' = es_healthy st \<and>
    (\<exists>us. es_trace st' = es_trace st @ NAttach # us @ [GDrained] \<and> set us \<subseteq> {NUnregister})"
  using assms
  by (auto simp: stopIngressGeneration_def callOnAttachedThread_def gen_live_def deactivate_quiet Let_def split: if_splits)

lemma gen_start_phase:
  assumes "\<not> b_active (es_broker st)" "startIngressGeneration A e st = (err, st')"
  shows "es_healthy st' = es_healthy st \<and>
    (case err of
       Some _ \<Rightarrow> es_current st' = es_current st \<and> \<not> b_active (es_broker st') \<and>
         (es_trace st' = es_trace st @ [GDrained] \<or> es_trace st' = es_trace st @ [NRegister, NUnregister, GDrained])
     | None \<Rightarrow> es_current st = None \<and> gen_live st' \<and> es_trace st' = es_trace st @ [NRegister])"
proof -
  have g: "b_generation (broker_activate g n f b) = g" for g n f and b :: gen_broker by (simp add: broker_activate_def)
  show ?thesis using assms
    by (auto simp: startIngressGeneration_def Let_def gen_live_def g deactivate_quiet Let_def split: if_splits)
qed

lemma monitor_unregisters:
  "set us \<subseteq> {NUnregister} \<Longrightarrow> mn_registered m \<Longrightarrow> \<not> mn_torn m \<Longrightarrow> monitor m us = Some m"
  by (induction us) (auto simp: allowed_def advance_def)

lemma monitor_stop:
  assumes "set us \<subseteq> {NUnregister}" "mn_init m" "mn_registered m" "\<not> mn_torn m"
  shows "monitor m (NAttach # us @ [GDrained]) = Some (m\<lparr>mn_drained := True\<rparr>)"
proof -
  have "monitor m us = Some m" by (rule monitor_unregisters) (use assms in auto)
  then show ?thesis using assms by (simp add: monitor_append allowed_def advance_def)
qed

lemma create_phase:
  assumes st: "\<not> b_active (es_broker st)" "es_trace st = []" and cr: "embedded_create A e st = (err, st')"
  shows "es_healthy st' = es_healthy st \<and>
    (case err of
       Some _ \<Rightarrow> es_current st' = es_current st \<and> \<not> b_active (es_broker st') \<and>
         (\<exists>m. monitor mon0 (es_trace st') = Some m \<and> \<not> mn_running m \<and> (mn_torn m \<longleftrightarrow> em_create e = 0))
     | None \<Rightarrow> es_current st = None \<and> gen_live st' \<and> em_create e = 0 \<and>
         es_trace st' = [NCreate, NInit, NRegister, NRun])"
proof -
  define s1 where "s1 = emit NInit (emit NCreate st)"
  have s1: "\<not> b_active (es_broker s1)" "es_trace s1 = [NCreate, NInit]" "es_current s1 = es_current st" "es_healthy s1 = es_healthy st"
    using st by (simp_all add: s1_def)
  note mdefs = allowed_def advance_def mon0_def
  obtain serr s2 where sg: "startIngressGeneration A e s1 = (serr, s2)" by force
  note sp = gen_start_phase [OF s1(1) sg]
  obtain terr s3 where tg: "stopIngressGeneration A e s2 = (terr, s3)" by force
  consider (c) "em_create e \<noteq> 0" | (x1) c where "em_create e = 0" "em_ctx e 1 = Some c"
    | (i) "em_create e = 0" "em_ctx e 1 = None" "em_init e \<noteq> 0"
    | (x2) c where "em_create e = 0" "em_ctx e 1 = None" "em_init e = 0" "em_ctx e 2 = Some c"
    | (s) "em_create e = 0" "em_ctx e 1 = None" "em_init e = 0" "em_ctx e 2 = None"
    by (cases "em_create e = 0"; cases "em_ctx e 1"; cases "em_init e = 0"; cases "em_ctx e 2") auto
  then show ?thesis
  proof cases
    case s
    have eq: "embedded_create A e st = (case serr of Some err \<Rightarrow> (Some err, tear_down s2)
        | None \<Rightarrow> (case (case em_ctx e 3 of Some c \<Rightarrow> Some c | None \<Rightarrow> em_handoffCtx e) of
            Some c \<Rightarrow> (Some (CtxErr c), tear_down s3) | None \<Rightarrow> (None, emit NRun s2)))"
      using s sg tg by (simp add: embedded_create_def s1_def [symmetric] Let_def split: option.split)
    show ?thesis
    proof (cases serr)
      case (Some x)
      then show ?thesis using eq cr sp s(1) s1 by (auto simp: mdefs)
    next
      case None
      then have live: "gen_live s2" "es_current s1 = None" "es_trace s2 = [NCreate, NInit, NRegister]" "es_healthy s2 = es_healthy st"
        using sp s1 by auto
      from gen_stop_phase [OF live(1) tg] obtain us where us: "es_trace s3 = es_trace s2 @ NAttach # us @ [GDrained]" "set us \<subseteq> {NUnregister}"
        and s3: "es_current s3 = None" "\<not> b_active (es_broker s3)" "es_healthy s3 = es_healthy s2" by blast
      define m where "m = mon0\<lparr>mn_created := True, mn_init := True, mn_registered := True\<rparr>"
      have "monitor mon0 (es_trace s2) = Some m" by (simp add: live(3) mdefs m_def)
      then have "monitor mon0 (es_trace s3) = Some (m\<lparr>mn_drained := True\<rparr>)"
        using monitor_stop [OF us(2), of m] by (simp add: us(1) monitor_append m_def mon0_def)
      then have m3: "monitor mon0 (es_trace s3 @ [NTearDown]) = Some (m\<lparr>mn_drained := True, mn_torn := True\<rparr>)"
        by (simp add: monitor_append allowed_def advance_def m_def mon0_def)
      show ?thesis
      proof (cases "case em_ctx e 3 of Some c \<Rightarrow> Some c | None \<Rightarrow> em_handoffCtx e")
        case None
        then show ?thesis using eq cr \<open>serr = None\<close> live s1 s(1) by (auto simp: gen_live_def)
      next
        case (Some c)
        then have "err = Some (CtxErr c)" "st' = tear_down s3" using eq cr \<open>serr = None\<close> by simp_all
        then show ?thesis using live s1 s3 m3 s(1) by (simp add: m_def mon0_def)
      qed
    qed
  qed (use cr st in \<open>auto simp: embedded_create_def mdefs Let_def\<close>)
qed

section \<open>Callbacks\<close>

lemma failGeneration_frame [simp]: "b_generation (broker_failGeneration g b) = b_generation b"
  by (simp add: broker_failGeneration_def)

lemma open_generation: "broker_open now g h b = (err, f, b') \<Longrightarrow> b_generation b' = b_generation b"
  by (erule open_cases) (auto simp: failWith_eq evict_frame)

lemma deliver_generation: "broker_deliver A now g c fr ms b = (err, f, b') \<Longrightarrow> b_generation b' = b_generation b"
  by (erule deliver_cases) (auto simp: failWith_eq closeCorrelation_eq drop_one_def stopTimer_eq split: option.splits)

text \<open>What a failure leaves of a generation: the gate closed, and one error for the supervisor.\<close>

definition failed_with :: "gen_error \<Rightarrow> callbackGeneration \<Rightarrow> callbackGeneration" where
  "failed_with err g =
     (if cg_failed g then g else g\<lparr>cg_accepting := False, cg_failed := True, cg_wake := cg_wake g @ [err]\<rparr>)"

lemma failed_with_sel [simp]:
  "cg_id (failed_with err g) = cg_id g" "cg_inFlight (failed_with err g) = cg_inFlight g" "cg_failed (failed_with err g)"
  "failed_with err' (failed_with err g) = failed_with err g"
  by (simp_all add: failed_with_def)

lemma gen_fail_eq: "gen_fail err (g, b) = (failed_with err g, broker_failGeneration (cg_id g) b)"
  by (simp add: gen_fail_def failed_with_def closeGate_def Let_def)

lemma failGeneration_twice [simp]: "broker_failGeneration i (broker_failGeneration i b) = broker_failGeneration i b"
  by (auto simp: broker_failGeneration_def intro!: ingressBroker.equality chan.equality)

text \<open>How a callback reports the broker's result, with or without the broker's own \<open>fatal\<close> before it.\<close>

definition reported :: "gen_error option \<Rightarrow> callbackGeneration \<times> gen_broker \<Rightarrow> callbackGeneration \<times> gen_broker" where
  "reported err = (\<lambda>(g, b). case err of None \<Rightarrow> (g, b)
     | Some e \<Rightarrow> (failed_with e g, broker_failGeneration (cg_id g) b))"

lemma report_eq:
  "(let gb = runFatal err f (g, b) in case err of Some e \<Rightarrow> gen_fail (GenIngress e) gb | None \<Rightarrow> gb) =
   reported (map_option GenIngress err) (g, b)"
  by (cases err; cases f) (simp_all add: runFatal_def reported_def gen_fail_eq Let_def)

lemma openFn_body_eq:
  "openFn_body now h (g, b) =
     (case broker_open now (cg_id g) h b of (err, _, b) \<Rightarrow> reported (map_option GenIngress err) (g, b))"
  by (simp add: openFn_body_def report_eq split: prod.split)

definition verified_call ::
    "abi \<Rightarrow> time \<Rightarrow> (u64 \<Rightarrow> nat \<Rightarrow> bytes) \<Rightarrow> u64 \<Rightarrow> u64 \<Rightarrow> u32 \<Rightarrow> u64 \<Rightarrow> u64 \<Rightarrow> gen_broker \<Rightarrow> gen_error option \<times> gen_broker" where
  "verified_call A now mem c f n ms gid b =
     (if c = 0 \<or> f = 0 then (Some GenNullPointer, b)
      else if unat n < MinIngressFrameBytes A \<or> unat n > MaxIngressFrameBytes A then (Some (GenIngress ErrIngressFrame), b)
      else case broker_deliver A now gid (mem c (CorrelationBytes A)) (mem f (unat n)) ms b of
        (err, _, b) \<Rightarrow> (map_option GenIngress err, b))"

lemma verifiedFn_body_eq:
  "verifiedFn_body A now mem c f n ms (g, b) =
     (case verified_call A now mem c f n ms (cg_id g) b of (err, b) \<Rightarrow> reported err (g, b))"
  by (auto simp: verifiedFn_body_def verified_call_def broker_deliverCallback_def copyNativeBytes_def report_eq gen_fail_eq
      reported_def split: prod.split option.split)

lemma reported_frame:
  assumes "reported err (g, b) = (g', b')"
  shows "cg_id g' = cg_id g" "b_generation b' = b_generation b" "cg_inFlight g' = cg_inFlight g"
    "g' = g \<or> (\<exists>e. g' = failed_with e g)"
  using assms by (auto simp: reported_def split: option.splits)

lemma openFn_body_frame:
  assumes "openFn_body now h (g, b) = (g', b')"
  shows "cg_id g' = cg_id g \<and> b_generation b' = b_generation b \<and> cg_inFlight g' = cg_inFlight g \<and>
    (g' = g \<or> (\<exists>e. g' = failed_with e g))"
proof -
  obtain err f b1 where op: "broker_open now (cg_id g) h b = (err, f, b1)" by (metis prod_cases3)
  show ?thesis using assms reported_frame open_generation [OF op] unfolding openFn_body_eq op by simp
qed

lemma verifiedFn_body_frame:
  assumes "verifiedFn_body A now mem c f n ms (g, b) = (g', b')"
  shows "cg_id g' = cg_id g \<and> b_generation b' = b_generation b \<and> cg_inFlight g' = cg_inFlight g \<and>
    (g' = g \<or> (\<exists>e. g' = failed_with e g))"
proof -
  obtain err b1 where op: "verified_call A now mem c f n ms (cg_id g) b = (err, b1)" by force
  then have "b_generation b1 = b_generation b"
    by (auto simp: verified_call_def split: if_splits prod.splits dest: deliver_generation)
  then show ?thesis using assms reported_frame unfolding verifiedFn_body_eq op by simp
qed

lemma guarded_frame:
  assumes "\<And>g b g' b'. body (g, b) = (g', b') \<Longrightarrow> cg_id g' = cg_id g \<and> b_generation b' = b_generation b"
  shows "es_current (guarded body st) = es_current st \<and> cg_id (es_gen (guarded body st)) = cg_id (es_gen st) \<and>
    b_generation (es_broker (guarded body st)) = b_generation (es_broker st) \<and>
    es_trace (guarded body st) = es_trace st \<and> es_healthy (guarded body st) = es_healthy st"
proof (cases "body (snd (gen_enter (es_gen st)), es_broker st)")
  case (Pair g b)
  from assms [OF this] show ?thesis using Pair
    by (auto simp: guarded_def gen_enter_def gen_done_def split: prod.splits)
qed

lemma callback_frame:
  "es_current (callback_run A cb st) = es_current st \<and> cg_id (es_gen (callback_run A cb st)) = cg_id (es_gen st) \<and>
   b_generation (es_broker (callback_run A cb st)) = b_generation (es_broker st) \<and>
   es_trace (callback_run A cb st) = es_trace st \<and> es_healthy (callback_run A cb st) = es_healthy st"
  by (cases cb) (simp_all add: openFn_def verifiedFn_def guarded_frame openFn_body_frame verifiedFn_body_frame)

lemma callbacks_live:
  assumes "gen_live st"
  shows "gen_live (fold (callback_run A) cbs st) \<and> es_trace (fold (callback_run A) cbs st) = es_trace st \<and>
    es_healthy (fold (callback_run A) cbs st) = es_healthy st"
  using assms
proof (induction cbs arbitrary: st)
  case (Cons cb cbs)
  have "gen_live (callback_run A cb st)" using Cons.prems callback_frame [of A cb st] by (simp add: gen_live_def)
  from Cons.IH [OF this] callback_frame [of A cb st] show ?case by simp
qed simp

section \<open>The whole run\<close>

lemma health_phase:
  "\<exists>k. es_trace (health_poll e st) = es_trace st @ NAttach # replicate k NStatus @ [GHealthStopped]"
  "es_current (health_poll e st) = es_current st" "es_broker (health_poll e st) = es_broker st"
proof -
  show "\<exists>k. es_trace (health_poll e st) = es_trace st @ NAttach # replicate k NStatus @ [GHealthStopped]"
  proof (cases "em_attachHealth e = 0")
    case True
    then show ?thesis by (intro exI [of _ "em_polls e"]) (simp add: health_poll_def)
  next
    case False
    then show ?thesis by (intro exI [of _ 0]) (simp add: health_poll_def)
  qed
qed (simp_all add: health_poll_def Let_def)

text \<open>The calls of a supervised run, with or without a shutdown.\<close>

lemma monitor_supervised:
  assumes "set us \<subseteq> {NUnregister}" "set sh \<subseteq> {NShutdown}"
    and that: "ret = [NRunReturned] \<and> fin = [] \<or> ret = [] \<and> fin = NAttach # sh @ [NRunReturned]"
  shows "\<exists>m. monitor mon0 ([NCreate, NInit, NRegister, NRun] @ ret @ (NAttach # us @ [GDrained]) @
      (NAttach # replicate k NStatus @ [GHealthStopped]) @ fin @ [NTearDown]) = Some m \<and> \<not> mn_running m \<and> mn_torn m"
proof -
  define m where "m r = mon0\<lparr>mn_created := True, mn_init := True, mn_registered := True, mn_running := r\<rparr>" for r
  define r where "r \<longleftrightarrow> ret = []"
  note mdefs = allowed_def advance_def mon0_def
  have 1: "monitor mon0 ([NCreate, NInit, NRegister, NRun] @ ret) = Some (m r)"
    using that by (auto simp: m_def r_def mdefs)
  have 2: "monitor (m r) (NAttach # us @ [GDrained]) = Some ((m r)\<lparr>mn_drained := True\<rparr>)"
    by (rule monitor_stop) (use assms in \<open>simp_all add: m_def mon0_def\<close>)
  let ?m = "(m r)\<lparr>mn_drained := True\<rparr>"
  have "monitor ?m (replicate k NStatus) = Some ?m" by (rule monitor_polls) (simp_all add: m_def mon0_def)
  then have 3: "monitor ?m (NAttach # replicate k NStatus @ [GHealthStopped]) = Some (?m\<lparr>mn_health := True\<rparr>)"
    by (simp add: monitor_append allowed_def advance_def m_def mon0_def)
  have sh: "monitor m' sh = Some m'" if "mn_running m'" "mn_drained m'" "mn_health m'" "\<not> mn_torn m'" for m'
    using assms(2) that(1-4) by (induction sh) (auto simp: allowed_def advance_def)
  have "\<exists>m'. monitor (?m\<lparr>mn_health := True\<rparr>) (fin @ [NTearDown]) = Some m' \<and> \<not> mn_running m' \<and> mn_torn m'"
    using that sh by (auto simp: r_def m_def mdefs monitor_append)
  then show ?thesis
    unfolding append_assoc [symmetric, of "[NCreate, NInit, NRegister, NRun]"] monitor_seq [OF 1] monitor_seq [OF 2] monitor_seq [OF 3] .
qed

lemma isolate_phase:
  assumes live: "gen_live st" and tr: "es_trace st = [NCreate, NInit, NRegister, NRun]"
    and run: "embedded_supervise A e st = (reason, st')"
  shows "es_current st' = None \<and> \<not> b_active (es_broker st') \<and> \<not> es_healthy st' \<and>
    (\<exists>m. monitor mon0 (es_trace st') = Some m \<and> \<not> mn_running m \<and> mn_torn m)"
proof -
  define s0 where "s0 = fold (callback_run A) (em_callbacks e) st"
  have s0: "gen_live s0" "es_trace s0 = es_trace st" using callbacks_live [OF live] by (auto simp: s0_def)
  define exited where "exited \<longleftrightarrow> (\<exists>rc. em_event e = EvRun rc)"
  define s1 where "s1 = close_gate (if exited then emit NRunReturned s0 else s0)"
  have s1: "gen_live s1" using s0 by (auto simp: s1_def gen_live_def)
  obtain err s2 where stop: "stopIngressGeneration A e s1 = (err, s2)" by force
  from gen_stop_phase [OF s1 stop] obtain us where s2: "es_current s2 = None" "\<not> b_active (es_broker s2)"
    "es_trace s2 = es_trace s1 @ NAttach # us @ [GDrained]" and us: "set us \<subseteq> {NUnregister}" by blast
  define s3 where "s3 = health_poll e s2"
  obtain k where s3: "es_trace s3 = es_trace s2 @ NAttach # replicate k NStatus @ [GHealthStopped]"
    using health_phase(1) by (metis s3_def)
  define sh where "sh = (if em_attachShutdown e = 0 then [NShutdown] else [])"
  define fin where "fin = (if exited then [] else NAttach # sh @ [NRunReturned])"
  have st': "es_trace st' = es_trace s3 @ fin @ [NTearDown]" "es_current st' = es_current s3" "es_broker st' = es_broker s3"
      "\<not> es_healthy st'"
    using run stop
    by (cases "em_event e";
      auto simp: embedded_supervise_def s0_def [symmetric] exited_def s1_def s3_def [symmetric] fin_def sh_def Let_def
        callOnAttachedThread_def split: if_splits)+
  define ret where "ret = (if exited then [NRunReturned] else [])"
  have "es_trace st' = [NCreate, NInit, NRegister, NRun] @ ret @ (NAttach # us @ [GDrained]) @
      (NAttach # replicate k NStatus @ [GHealthStopped]) @ fin @ [NTearDown]"
    by (simp add: st' s3 s2(3) s1_def s0 tr ret_def)
  moreover have "ret = [NRunReturned] \<and> fin = [] \<or> ret = [] \<and> fin = NAttach # sh @ [NRunReturned]"
    by (simp add: ret_def fin_def)
  moreover have "set sh \<subseteq> {NShutdown}" by (auto simp: sh_def)
  ultimately have "\<exists>m. monitor mon0 (es_trace st') = Some m \<and> \<not> mn_running m \<and> mn_torn m"
    using monitor_supervised [OF us, of sh ret fin k] by metis
  then show ?thesis using st' s2(1,2) by (simp add: s3_def health_phase(2,3))
qed

text \<open>
  The calls of one run are accepted by the automaton. An isolate that was created is torn down exactly
  once; afterwards no generation of this run is current, the broker is inactive and the runner
  reports unhealthy.
\<close>

lemma embedded_run_protocol:
  assumes "es_trace st = []" "\<not> b_active (es_broker st)" "\<not> es_healthy st"
    and "embedded_run A e st = (reason, st')"
  shows "\<exists>m. monitor mon0 (es_trace st') = Some m \<and> \<not> mn_running m \<and>
      (mn_torn m \<longleftrightarrow> em_prepare e = None \<and> em_create e = 0) \<and>
      es_current st' = es_current st \<and> \<not> b_active (es_broker st') \<and> \<not> es_healthy st'"
proof (cases "em_prepare e")
  case (Some x)
  then show ?thesis using assms by (auto simp: embedded_run_def mon0_def)
next
  case prep: None
  define s0 where "s0 = st\<lparr>es_counter := es_counter st + 1, es_gen := newCallbackGeneration (es_counter st + 1)\<rparr>"
  have s0: "\<not> b_active (es_broker s0)" "es_trace s0 = []" "es_current s0 = es_current st" "\<not> es_healthy s0"
    using assms by (simp_all add: s0_def)
  obtain err s1 where cr: "embedded_create A e s0 = (err, s1)" by force
  note cp = create_phase [OF s0(1,2) cr]
  have run: "(reason, st') = (case err of
      Some x \<Rightarrow> (case em_mainCtx e of Some c \<Rightarrow> (Some (CtxErr c), s1) | None \<Rightarrow> (Some x, s1))
    | None \<Rightarrow> embedded_supervise A e s1)"
    using assms(4) cr prep by (simp add: embedded_run_def s0_def Let_def split: option.splits)
  show ?thesis
  proof (cases err)
    case (Some x)
    then have "st' = s1" using run by (auto split: option.splits)
    then show ?thesis using cp Some prep s0 by simp
  next
    case None
    then have "gen_live s1" "es_trace s1 = [NCreate, NInit, NRegister, NRun]" "es_current st = None" "em_create e = 0"
      using cp s0(3) by simp_all
    then show ?thesis using isolate_phase [of s1 A e reason st'] run None prep by auto
  qed
qed

definition demo_isolate :: "(nat, 'e) embedded_env" where
  "demo_isolate = \<lparr>em_prepare = None, em_create = 0, em_init = 0, em_ctx = (\<lambda>_. None), em_registerRC = 0,
     em_attachUnregister = 0, em_unregisterRC = 0, em_handoffCtx = None, em_mainCtx = None,
     em_callbacks = [CbOpen 0 9, CbOpen 0 9], em_event = EvFatal (GenIngress ErrIngressDuplicate), em_attachHealth = 0, em_polls = 2, em_up = True,
     em_attachShutdown = 0, em_shutdownRC = 0, em_runRC = 0, em_tearDownRC = 0\<rparr>"

definition demo_embedded :: embedded_state where
  "demo_embedded = \<lparr>es_counter = 6, es_current = None, es_gen = newCallbackGeneration 6, es_broker = newIngressBroker 1,
     es_healthy = False, es_trace = []\<rparr>"

text \<open>
  C29: A callback that fails closes its generation. If the broker accepts what a
  callback of a working generation reports, the generation is untouched; a null pointer, a frame
  length outside the bounds or any error of the broker closes the gate, empties and deactivates the
  broker of that generation, and sends exactly one error, that one, to the supervisor.
\<close>

theorem callback_fails_closed:
  assumes "\<not> cg_failed g" "cg_wake g = []" "b_generation b = cg_id g"
    and "(err, b1) = (case cb of
        CbOpen now h \<Rightarrow> (case broker_open now (cg_id g) h b of (e, _, b1) \<Rightarrow> (map_option GenIngress e, b1))
      | CbVerified now mem c f n ms \<Rightarrow> verified_call A now mem c f n ms (cg_id g) b)"
    and "(g', b') = (case cb of CbOpen now h \<Rightarrow> openFn_body now h (g, b)
      | CbVerified now mem c f n ms \<Rightarrow> verifiedFn_body A now mem c f n ms (g, b))"
  shows "case err of
      None \<Rightarrow> g' = g \<and> b' = b1
    | Some e \<Rightarrow> \<not> cg_accepting g' \<and> cg_failed g' \<and> cg_wake g' = [e] \<and> cg_inFlight g' = cg_inFlight g \<and>
        b_generation b' = cg_id g \<and> \<not> b_active b' \<and> b_handles b' = [] \<and> b_correlations b' = [] \<and>
        chan_buf (b_opened b') = [] \<and> chan_buf (b_verified b') = []"
proof -
  have "(g', b') = reported err (g, b1)"
    using assms(4,5) by (cases cb) (auto simp: openFn_body_eq verifiedFn_body_eq split: prod.splits)
  moreover have "b_generation b1 = cg_id g"
    using assms(3,4) by (auto simp: verified_call_def split: callback.splits prod.splits if_splits
        dest: open_generation deliver_generation)
  ultimately show ?thesis using assms(1,2)
    by (auto simp: reported_def failed_with_def broker_failGeneration_def split: option.splits)
qed

theorem callback_fails_closed_witness:
  "case verifiedFn_body abi_v1 0 (\<lambda>_ n. replicate n 1) 4096 8192 0 1000
     (newCallbackGeneration 7, broker_activate 7 (Some 7) (Some 7) (newIngressBroker 1)) of
   (g', b') \<Rightarrow> \<not> cg_accepting g' \<and> cg_wake g' = [GenIngress ErrIngressFrame] \<and> \<not> b_active b'"
proof -
  define b where "b = (broker_activate 7 (Some 7) (Some 7) (newIngressBroker 1) :: gen_broker)"
  define mem where "mem = (\<lambda>(_ :: u64) n. replicate n (1 :: 8 word))"
  obtain g' b' where r: "verifiedFn_body abi_v1 0 mem 4096 8192 0 1000 (newCallbackGeneration 7, b) = (g', b')" by force
  have c: "verified_call abi_v1 0 mem 4096 8192 0 1000 7 b = (Some (GenIngress ErrIngressFrame), b)"
    by (simp add: verified_call_def abi_v1_def)
  let ?g = "newCallbackGeneration 7"
  have "\<not> cg_failed ?g" "cg_wake ?g = []" "b_generation b = cg_id ?g" "cg_id ?g = 7"
    by (simp_all add: newCallbackGeneration_def b_def broker_activate_def)
  with callback_fails_closed [of ?g b "Some (GenIngress ErrIngressFrame)" b abi_v1 "CbVerified 0 mem 4096 8192 0 1000" g' b'] r c
  have "\<not> cg_accepting g' \<and> cg_wake g' = [GenIngress ErrIngressFrame] \<and> \<not> b_active b'" by simp
  then show ?thesis using r by (simp add: b_def mem_def)
qed

section \<open>The drain barrier\<close>

text \<open>
  The native side invokes callbacks on threads of its own, while the runner closes the gate,
  deactivates and waits. A thread is between \<open>enter\<close> and the body (\<open>gy_entered\<close>), or between the body and the deferred
  \<open>Done\<close> (\<open>gy_leaving\<close>); \<open>gy_drained\<close> says that the wait of \<open>closeAndWait\<close> or \<open>stopIngressGeneration\<close> has
  returned. Other goroutines use the broker at any time, and its \<open>fatal\<close> may fail the generation.
\<close>

record gen_system =
  gy_gen :: callbackGeneration
  gy_broker :: gen_broker
  gy_entered :: nat
  gy_leaving :: nat
  gy_drained :: bool

datatype gen_event = GxEnter | GxRefused | GxBody callback | GxAssign | GxLeave | GxClose | GxFail gen_error | GxBroker | GxDrained

inductive gxstep :: "abi \<Rightarrow> gen_system \<Rightarrow> gen_event \<Rightarrow> gen_system \<Rightarrow> bool" for A :: abi where
  gx_enter: "gen_enter (gy_gen x) = (True, g) \<Longrightarrow> gxstep A x GxEnter (x\<lparr>gy_gen := g, gy_entered := gy_entered x + 1\<rparr>)"
| gx_refused: "gen_enter (gy_gen x) = (False, g) \<Longrightarrow> gxstep A x GxRefused x"
| gx_open: "0 < gy_entered x \<Longrightarrow> openFn_body now h (gy_gen x, gy_broker x) = (g, b) \<Longrightarrow>
    gxstep A x (GxBody (CbOpen now h))
      (x\<lparr>gy_gen := g, gy_broker := b, gy_entered := gy_entered x - 1, gy_leaving := gy_leaving x + 1\<rparr>)"
| gx_verified: "0 < gy_entered x \<Longrightarrow> verifiedFn_body A now mem c f n ms (gy_gen x, gy_broker x) = (g, b) \<Longrightarrow>
    gxstep A x (GxBody (CbVerified now mem c f n ms))
      (x\<lparr>gy_gen := g, gy_broker := b, gy_entered := gy_entered x - 1, gy_leaving := gy_leaving x + 1\<rparr>)"
| gx_assign: "0 < gy_entered x \<Longrightarrow>
    gxstep A x GxAssign (x\<lparr>gy_entered := gy_entered x - 1, gy_leaving := gy_leaving x + 1\<rparr>)"
| gx_leave: "0 < gy_leaving x \<Longrightarrow> gxstep A x GxLeave (x\<lparr>gy_gen := gen_done (gy_gen x), gy_leaving := gy_leaving x - 1\<rparr>)"
| gx_close: "gxstep A x GxClose (x\<lparr>gy_gen := closeGate (gy_gen x)\<rparr>)"
| gx_fail: "gen_fail err (gy_gen x, gy_broker x) = (g, b) \<Longrightarrow> gxstep A x (GxFail err) (x\<lparr>gy_gen := g, gy_broker := b\<rparr>)"
| gx_broker: "gxstep A x GxBroker (x\<lparr>gy_broker := b\<rparr>)"
| gx_drained: "closeAndWait (gy_gen x) = Some g \<Longrightarrow> gxstep A x GxDrained (x\<lparr>gy_gen := g, gy_drained := True\<rparr>)"

definition gxinit :: "gen_system \<Rightarrow> bool" where
  "gxinit x \<longleftrightarrow> (\<exists>gid. gy_gen x = newCallbackGeneration gid) \<and> gy_entered x = 0 \<and> gy_leaving x = 0 \<and> \<not> gy_drained x"

definition gx_inv :: "gen_system \<Rightarrow> bool" where
  "gx_inv x \<longleftrightarrow>
     cg_inFlight (gy_gen x) = gy_entered x + gy_leaving x \<and>
     length (cg_wake (gy_gen x)) = (if cg_failed (gy_gen x) then 1 else 0) \<and>
     (cg_failed (gy_gen x) \<longrightarrow> \<not> cg_accepting (gy_gen x)) \<and>
     (gy_drained x \<longrightarrow> \<not> cg_accepting (gy_gen x) \<and> gy_entered x = 0 \<and> gy_leaving x = 0)"

lemma failed_with_inv:
  assumes "gx_inv x"
  shows "gx_inv (x\<lparr>gy_gen := failed_with err (gy_gen x)\<rparr>)"
  using assms by (auto simp: gx_inv_def failed_with_def)

lemma body_inv:
  assumes "gx_inv x" "0 < gy_entered x" "g = gy_gen x \<or> (\<exists>e. g = failed_with e (gy_gen x))"
  shows "gx_inv (x\<lparr>gy_gen := g, gy_broker := b, gy_entered := gy_entered x - 1, gy_leaving := gy_leaving x + 1\<rparr>)"
  using assms by (auto simp: gx_inv_def failed_with_def split: if_splits)

lemma gxinit_inv: "gxinit x \<Longrightarrow> gx_inv x"
  by (auto simp: gxinit_def gx_inv_def newCallbackGeneration_def)

lemma gxstep_inv: "gxstep A x e y \<Longrightarrow> gx_inv x \<Longrightarrow> gx_inv y"
proof (induction rule: gxstep.induct)
  case (gx_open x now h g b)
  then show ?case using body_inv openFn_body_frame by metis
next
  case (gx_verified x now mem c f n ms g b)
  then show ?case using body_inv verifiedFn_body_frame by metis
next
  case (gx_fail err x g b)
  then have g: "g = failed_with err (gy_gen x)" by (simp add: gen_fail_eq)
  show ?case using failed_with_inv [OF gx_fail.prems, of err] unfolding g by (simp add: gx_inv_def)
qed (auto simp: gx_inv_def gen_enter_def gen_done_def closeGate_def closeAndWait_def Let_def split: if_splits)

interpretation gx: invariant_system gxinit "gxstep A" gx_inv for A
  by unfold_locales (auto intro: gxinit_inv gxstep_inv)

inductive_cases gxstep_bodyE: "gxstep A x (GxBody cb) y"
inductive_cases gxstep_enterE: "gxstep A x GxEnter y"
inductive_cases gxstep_assignE: "gxstep A x GxAssign y"

lemma gx_drained_stays: "gxstep A x e y \<Longrightarrow> gy_drained x \<Longrightarrow> gy_drained y"
  by (induction rule: gxstep.induct) auto

lemma gx_after_drain:
  assumes "run (gxstep A) x es y" "gx_inv x" "gy_drained x"
  shows "gy_drained y \<and> (\<forall>e \<in> set es. e \<noteq> GxEnter \<and> e \<noteq> GxAssign \<and> (\<forall>cb. e \<noteq> GxBody cb))"
  using assms
proof (induction rule: run.induct)
  case (run_snoc s es t e u)
  have t: "gx_inv t" "gy_drained t" using gx.run_inv [OF run_snoc.hyps(1)] run_snoc by auto
  then have "e \<noteq> GxEnter \<and> e \<noteq> GxAssign \<and> (\<forall>cb. e \<noteq> GxBody cb)" using run_snoc.hyps(2)
    by (auto simp: gx_inv_def gen_enter_def elim: gxstep_bodyE gxstep_enterE gxstep_assignE)
  then show ?case using run_snoc gx_drained_stays [OF run_snoc.hyps(2) t(2)] by auto
qed simp

text \<open>
  C15: Draining is a barrier. In every interleaving of native callbacks, assignments, failures and
  the runner's own steps on a new generation: the wait returns only when nothing is in flight, and
  after it no callback enters, no callback body runs and no assignment is passed to the native side; the
  supervisor is sent one error if the generation has failed, and none otherwise.
\<close>

theorem callback_drain_barrier:
  assumes "gxinit x" "run (gxstep A) x es y" "gxstep A y GxDrained z" "run (gxstep A) z fs u"
  shows "cg_inFlight (gy_gen z) = 0 \<and> gy_entered z = 0 \<and> gy_leaving z = 0 \<and>
    (\<forall>e \<in> set fs. e \<noteq> GxEnter \<and> e \<noteq> GxAssign \<and> (\<forall>cb. e \<noteq> GxBody cb)) \<and> cg_inFlight (gy_gen u) = 0 \<and>
    length (cg_wake (gy_gen u)) = (if cg_failed (gy_gen u) then 1 else 0)"
proof -
  have y: "gx_inv y" using gx.run_inv [OF assms(2)] gx.inv_init [OF assms(1)] by blast
  have z: "gx_inv z" "gy_drained z" using gxstep_inv [OF assms(3) y] assms(3) by (auto elim: gxstep.cases)
  have u: "gx_inv u" using gx.run_inv [OF assms(4) z(1)] .
  from gx_after_drain [OF assms(4) z] z u show ?thesis by (simp add: gx_inv_def)
qed

theorem callback_drain_barrier_witness:
  "\<exists>x y z u. gxinit x \<and> run (gxstep abi_v1) x [GxEnter, GxClose, GxAssign, GxLeave] y \<and> gxstep abi_v1 y GxDrained z \<and>
     run (gxstep abi_v1) z [GxRefused] u \<and> cg_inFlight (gy_gen u) = 0 \<and> cg_wake (gy_gen u) = []"
proof -
  define g where "g = newCallbackGeneration 7"
  define x where "x = \<lparr>gy_gen = g, gy_broker = newIngressBroker 1, gy_entered = 0, gy_leaving = 0, gy_drained = False\<rparr>"
  define x1 where "x1 = x\<lparr>gy_gen := g\<lparr>cg_inFlight := 1\<rparr>, gy_entered := 1\<rparr>"
  define x2 where "x2 = x1\<lparr>gy_gen := closeGate (gy_gen x1)\<rparr>"
  define x3 where "x3 = x2\<lparr>gy_entered := 0, gy_leaving := 1\<rparr>"
  define y where "y = x3\<lparr>gy_gen := gen_done (gy_gen x3), gy_leaving := 0\<rparr>"
  define z where "z = y\<lparr>gy_drained := True\<rparr>"
  note defs = g_def x_def x1_def x2_def x3_def y_def z_def newCallbackGeneration_def closeGate_def gen_done_def gen_enter_def
    closeAndWait_def
  have i: "gxinit x" by (auto simp: gxinit_def x_def g_def)
  have 1: "gxstep abi_v1 x GxEnter x1" using gx_enter [of x "g\<lparr>cg_inFlight := 1\<rparr>" abi_v1] by (simp add: defs)
  have 2: "gxstep abi_v1 x1 GxClose x2" using gx_close [of abi_v1 x1] by (simp add: x2_def)
  have 3: "gxstep abi_v1 x2 GxAssign x3" using gx_assign [of x2 abi_v1] by (simp add: defs)
  have 4: "gxstep abi_v1 x3 GxLeave y" using gx_leave [of x3 abi_v1] by (simp add: defs)
  have r: "run (gxstep abi_v1) x [GxEnter, GxClose, GxAssign, GxLeave] y"
    by (rule run_cons [where step = "gxstep abi_v1", OF 1], rule run_cons [where step = "gxstep abi_v1", OF 2], rule run_cons [where step = "gxstep abi_v1", OF 3], rule run_one [where step = "gxstep abi_v1", OF 4])
  have d: "gxstep abi_v1 y GxDrained z" using gx_drained [of y "gy_gen y" abi_v1] by (simp add: defs Let_def)
  have f: "run (gxstep abi_v1) z [GxRefused] z"
    by (rule run_one [where step = "gxstep abi_v1"], rule gx_refused [of z "gy_gen z"]) (simp add: defs)
  have "cg_wake (gy_gen z) = []" by (simp add: defs)
  then show ?thesis using i r d f callback_drain_barrier [OF i r d f] by blast
qed

section \<open>The health poller\<close>

lemma pollLoop_from:
  assumes "\<And>i. i \<in> {k..<n} \<Longrightarrow> \<not> before i \<and> status i \<noteq> 1 \<and> \<not> after i" "k \<le> n"
  shows "pollLoop status before after k = pollLoop status before after n"
  using assms(2,1)
proof (induction k rule: inc_induct)
  case (step k)
  then show ?case by (subst pollLoop.simps) auto
qed simp

text \<open>
  The health poller ends, and says the truth: if the context is ever done at one of its checks
  or the status ever reads 1, \<open>pollHealth\<close> returns at the first such moment; it has set the health flag
  exactly when the status read 1 there, and has polled once per iteration it did not leave early.
\<close>

lemma pollHealth_returns:
  assumes "before n \<or> status n = 1 \<or> after n" "\<forall>i < n. \<not> (before i \<or> status i = 1 \<or> after i)"
  shows "pollLoop status before after 0 = Some (\<not> before n \<and> status n = 1, if before n then n else Suc n)"
proof -
  have "pollLoop status before after 0 = pollLoop status before after n" by (rule pollLoop_from) (use assms in auto)
  then show ?thesis using assms(1) by (auto simp: pollLoop.simps [of status before after n])
qed

end
