(* ===== verification/Runners.thy ===== *)
theory Runners
  imports Supervisor_Correct Assets_Correct Config Server Embedded_Correct
begin

text \<open>
  The \<open>run\<close> methods of the two runners as a whole (\<^verbatim>\<open>go/subprocess.go\<close> and \<^verbatim>\<open>go/embedded.go\<close>): they locate
  the native asset, stage a working directory, run Geyser until it ends for good, and remove the directory. The pieces
  are those of \<^verbatim>\<open>Assets\<close>, \<^verbatim>\<open>Config\<close>, \<^verbatim>\<open>Supervisor\<close> and \<^verbatim>\<open>Embedded\<close>.
\<close>

section \<open>The subprocess runner\<close>

text \<open>
  What a run meets: the file system and the environment as the locator sees them, the directory
  \<open>os.MkdirTemp\<close> creates, the YAML library, write faults, and for each attempt the launch and the context.
\<close>

record ('e, 'x, 'c, 'o) run_env =
  re_locate :: "('e, files) locate_env"
  re_mkdirTemp :: "'e + string"
  re_unmarshal :: "string \<Rightarrow> 'e + (string \<times> 'o yaml) list"
  re_marshal :: "(string \<times> 'o yaml) list \<Rightarrow> 'e + bytes"
  re_fault :: "'e write_fault"
  re_launch :: "nat \<Rightarrow> 'x launch_env"
  re_canceled :: "'x launch_error \<Rightarrow> bool"
  re_ctxErr :: "nat \<Rightarrow> 'c option"
  re_stop :: "nat \<Rightarrow> bool"

datatype ('e, 'c) run_outcome =
    LocateFailed "'e locate_error" | WorkdirErr 'e | StageFailed "'e stage_error" | LoopReturned "'c run_result"

definition removeAll :: "string \<Rightarrow> files \<Rightarrow> files" where
  "removeAll dir fs = (\<lambda>p. if p = dir \<or> HasPrefix p (dir @ ''/'') then None else fs p)"

definition go_nil_list :: "'a list option \<Rightarrow> 'a list" where
  "go_nil_list xs = (case xs of None \<Rightarrow> [] | Some xs \<Rightarrow> xs)"

definition loop_of :: "abi \<Rightarrow> ('e, 'x, 'c, 'o) run_env \<Rightarrow> ('l, 'o) Options \<Rightarrow> ('x launch_state, 'x launch_error, 'c) loop_env" where
  "loop_of A e opts =
     \<lparr>lp_once = (\<lambda>i. runOnce A (go_nil_list (op_JVMArgs opts)) (re_launch e i)), lp_canceled = re_canceled e,
      lp_ctxErr = re_ctxErr e, lp_stop = re_stop e\<rparr>"

text \<open>\<open>None\<close> is a run that does not return, or the nil pointer of a missing restart policy.\<close>

definition subprocess_run ::
    "abi \<Rightarrow> ('e, 'x, 'c, 'o) run_env \<Rightarrow> ('l, 'o) Options \<Rightarrow> files \<Rightarrow> 'x launch_state \<Rightarrow>
      (('e, 'c) run_outcome \<times> files \<times> 'x launch_state) option" where
  "subprocess_run A e opts fs st =
     (case locateBinary (re_locate e) opts fs of
        (Inl err, fs) \<Rightarrow> Some (LocateFailed err, fs, st)
      | (Inr binary, fs) \<Rightarrow>
          (case re_mkdirTemp e of
             Inl err \<Rightarrow> Some (WorkdirErr err, fs, st)
           | Inr workdir \<Rightarrow>
               (case stageWorkdir (re_unmarshal e) (re_marshal e) (re_fault e) workdir opts fs of
                  (Some err, fs) \<Rightarrow> Some (StageFailed err, removeAll workdir fs, st)
                | (None, fs) \<Rightarrow>
                    (case op_RestartPolicy opts of
                       None \<Rightarrow> None
                     | Some policy \<Rightarrow>
                         (case runLoop (loop_of A e opts) (rp_MaxRetries policy) 0
                                 (newBackoff (rp_MinBackoff policy) (rp_MaxBackoff policy)) [] st of
                            None \<Rightarrow> None
                          | Some (r, _, _, st) \<Rightarrow> Some (LoopReturned r, removeAll workdir fs, st))))))"

section \<open>The embedded runner\<close>

datatype 'e prepare_error =
    PrepLocate "'e locate_error" | PrepLoad "'e load_error" | PrepWorkdir 'e | PrepStage "'e stage_error" | PrepChdir 'e

record ('e, 'o) prepare_env =
  pe_locate :: "('e, files) locate_env"
  pe_openErr :: "'e option"
  pe_bindErr :: "string \<Rightarrow> 'e option"
  pe_mkdirTemp :: "'e + string"
  pe_unmarshal :: "string \<Rightarrow> 'e + (string \<times> 'o yaml) list"
  pe_marshal :: "(string \<times> 'o yaml) list \<Rightarrow> 'e + bytes"
  pe_fault :: "'e write_fault"
  pe_getwd :: "'e option"
  pe_chdir :: "string \<Rightarrow> 'e option"

text \<open>
  What a run changes besides the isolate: the files, whether the library has been loaded (\<open>once\<close>), and the working
  directory, which is the one of the whole process.
\<close>

record process_world =
  pw_files :: files
  pw_once :: bool
  pw_cwd :: string

definition osChdir :: "('e, 'o) prepare_env \<Rightarrow> string \<Rightarrow> process_world \<Rightarrow> 'e option \<times> process_world" where
  "osChdir e dir w = (case pe_chdir e dir of Some err \<Rightarrow> (Some err, w) | None \<Rightarrow> (None, w\<lparr>pw_cwd := dir\<rparr>))"

text \<open>\<open>os.Getwd\<close>, whose error \<open>run\<close> ignores: the directory is empty then.\<close>

definition osGetwd :: "('e, 'o) prepare_env \<Rightarrow> process_world \<Rightarrow> string" where
  "osGetwd e w = (if pe_getwd e = None then pw_cwd w else '''')"

text \<open>
  \<open>run\<close> up to the isolate: what is deferred (the directory to remove and the one to go back to), the error, and the
  world.
\<close>

definition embedded_prepare ::
    "('e, 'o) prepare_env \<Rightarrow> ('l, 'o) Options \<Rightarrow> process_world \<Rightarrow>
      (string option \<times> string option) \<times> 'e prepare_error option \<times> process_world" where
  "embedded_prepare e opts w =
     (case locateLibrary (pe_locate e) opts (pw_files w) of
        (Inl err, fs) \<Rightarrow> ((None, None), Some (PrepLocate err), w\<lparr>pw_files := fs\<rparr>)
      | (Inr libpath, fs) \<Rightarrow>
          (case embedded_load (pe_openErr e) (pe_bindErr e) (pw_once w) of
             (Some err, once) \<Rightarrow> ((None, None), Some (PrepLoad err), w\<lparr>pw_files := fs, pw_once := once\<rparr>)
           | (None, once) \<Rightarrow>
               (let w = w\<lparr>pw_files := fs, pw_once := once\<rparr> in
                case pe_mkdirTemp e of
                  Inl err \<Rightarrow> ((None, None), Some (PrepWorkdir err), w)
                | Inr workdir \<Rightarrow>
                    (case stageWorkdir (pe_unmarshal e) (pe_marshal e) (pe_fault e) workdir opts fs of
                       (Some err, fs) \<Rightarrow> ((Some workdir, None), Some (PrepStage err), w\<lparr>pw_files := fs\<rparr>)
                     | (None, fs) \<Rightarrow>
                         (let prev = osGetwd e w in
                          case osChdir e workdir (w\<lparr>pw_files := fs\<rparr>) of
                            (Some err, w) \<Rightarrow> ((Some workdir, None), Some (PrepChdir err), w)
                          | (None, w) \<Rightarrow> ((Some workdir, Some prev), None, w))))))"

text \<open>The deferred calls, the last one first.\<close>

definition embedded_deferred :: "('e, 'o) prepare_env \<Rightarrow> string option \<times> string option \<Rightarrow> process_world \<Rightarrow> process_world" where
  "embedded_deferred e = (\<lambda>(workdir, prev) w.
     let w = (case prev of None \<Rightarrow> w | Some dir \<Rightarrow> snd (osChdir e dir w))
     in case workdir of None \<Rightarrow> w | Some dir \<Rightarrow> w\<lparr>pw_files := removeAll dir (pw_files w)\<rparr>)"

text \<open>The whole of \<open>run\<close>: preparation, isolate, deferred calls.\<close>

definition embedded_runner_run ::
    "abi \<Rightarrow> ('e, 'o) prepare_env \<Rightarrow> ('c, 'e prepare_error) embedded_env \<Rightarrow> ('l, 'o) Options \<Rightarrow> process_world \<Rightarrow> embedded_state \<Rightarrow>
      ('c, 'e prepare_error) embedded_error option \<times> process_world \<times> embedded_state" where
  "embedded_runner_run A p e opts w st =
     (case embedded_prepare p opts w of
        (deferred, err, w) \<Rightarrow>
          (case embedded_run A (e\<lparr>em_prepare := err\<rparr>) st of
             (reason, st) \<Rightarrow> (reason, embedded_deferred p deferred w, st)))"

section \<open>Nothing is left behind\<close>

lemma removeAll_none: "p = dir \<or> HasPrefix p (dir @ ''/'') \<Longrightarrow> removeAll dir fs p = None"
  by (simp add: removeAll_def)

text \<open>The launches of a run in sequence: each returns, and the next one starts from a clean state.\<close>

definition launches_ok :: "abi \<Rightarrow> ('e, 'x, 'c, 'o) run_env \<Rightarrow> bool" where
  "launches_ok A e \<longleftrightarrow> (\<forall>i. drains A (re_launch e i))"

primrec launch_states :: "abi \<Rightarrow> ('e, 'x, 'c, 'o) run_env \<Rightarrow> ('l, 'o) Options \<Rightarrow> 'x launch_state \<Rightarrow> nat \<Rightarrow> 'x launch_state" where
  "launch_states A e opts st 0 = st"
| "launch_states A e opts st (Suc i) = snd (the (lp_once (loop_of A e opts) i (launch_states A e opts st i)))"

lemma launches_returning:
  assumes "abi_ok A" "launches_ok A e" "launch_clean st"
  shows "launch_clean (launch_states A e opts st i) \<and>
    (\<exists>errs. launches (loop_of A e opts) errs (launch_states A e opts st))"
proof -
  let ?p = "loop_of A e opts" and ?ts = "launch_states A e opts st"
  have one: "\<exists>err t. lp_once ?p i s = Some (err, t) \<and> launch_clean t" if "launch_clean s" for i s
    using runOnce_clean [OF assms(1), of s "re_launch e i" "go_nil_list (op_JVMArgs opts)"] assms(2) that
    by (auto simp: loop_of_def launches_ok_def launch_clean_def)
  have clean: "launch_clean (?ts i)" for i
  proof (induction i)
    case (Suc i)
    from one [OF this, of i] show ?case by auto
  qed (simp add: assms(3))
  have "\<exists>err. lp_once ?p i (?ts i) = Some (err, ?ts (Suc i))" for i using one [OF clean [of i], of i] by auto
  then obtain errs where "\<forall>i. lp_once ?p i (?ts i) = Some (errs i, ?ts (Suc i))" by metis
  then show ?thesis using clean by (auto simp: launches_def)
qed

lemma loop_returns_clean:
  assumes "abi_ok A" "launches_ok A e" "launch_clean st" "0 < maxRetries \<or> (\<exists>k. re_stop e k)"
  shows "\<exists>r k d st'. runLoop (loop_of A e opts) maxRetries 0 b [] st = Some (r, k, d, st') \<and> launch_clean st'"
proof -
  let ?p = "loop_of A e opts" and ?ts = "launch_states A e opts st"
  obtain errs where l: "launches ?p errs ?ts" using launches_returning [OF assms(1-3)] by blast
  have clean: "launch_clean (?ts i)" for i using launches_returning [OF assms(1-3)] by blast
  show ?thesis
  proof (cases "\<exists>k. attempt_ends ?p errs k \<and> (0 < maxRetries \<longrightarrow> int k < maxRetries)")
    case True
    define ends where "ends k \<longleftrightarrow> attempt_ends ?p errs k \<and> (0 < maxRetries \<longrightarrow> int k < maxRetries)" for k
    define k where "k = (LEAST k. ends k)"
    have "\<exists>k. ends k" using True by (simp add: ends_def)
    then have k: "ends k" unfolding k_def by (rule LeastI_ex)
    have "\<not> attempt_ends ?p errs j" if "j < k" for j
      using not_less_Least [of j ends] that k by (auto simp: k_def ends_def)
    then have "runLoop ?p maxRetries 0 b [] (?ts 0) = Some (CtxResult (lp_ctxErr ?p k), Suc k, delays k b, ?ts (Suc k))"
      using k by (intro runLoop_ends [OF l]) (auto simp: ends_def)
    then show ?thesis using clean [of "Suc k"] by (simp del: launch_states.simps(2))
  next
    case False
    then have m: "0 < maxRetries" using assms(4) by (auto simp: attempt_ends_def loop_of_def)
    define n where "n = nat maxRetries"
    have n: "maxRetries = int n" "0 < n" using m by (simp_all add: n_def)
    have "\<not> attempt_ends ?p errs j" if "j < n" for j using False that n by auto
    then have "runLoop ?p maxRetries 0 b [] st = Some (MaxRetriesExceeded (int n), n, delays n b, ?ts n)"
      using runLoop_gives_up [OF l, of n b] n by simp
    then show ?thesis using clean [of n] by blast
  qed
qed


definition demo_run :: "(unit, unit, unit, unit) run_env" where
  "demo_run = \<lparr>re_locate = \<lparr>lc_goos = ''linux'', lc_getenv = (\<lambda>_. ''''), lc_stat = (\<lambda>_. Inl ()),
       lc_embeddedBinary = (\<lambda>s. (Inr ('''', False), s)), lc_embeddedLibrary = (\<lambda>s. (Inr ('''', False), s)),
       lc_lookPath = (\<lambda>_. Inr ''/usr/bin/geyserlite''), lc_download = (\<lambda>_ s. (Inl (), s))\<rparr>,
     re_mkdirTemp = Inr ''/tmp/geyserlite-1'', re_unmarshal = (\<lambda>_. Inr []), re_marshal = (\<lambda>_. Inr [1]), re_fault = (\<lambda>_. None),
     re_launch = (\<lambda>_. demo_env True), re_canceled = (\<lambda>_. False), re_ctxErr = (\<lambda>_. Some ()), re_stop = (\<lambda>i. i = 3)\<rparr>"


text \<open>The deferred calls undo what the preparation did, wherever it stopped.\<close>

lemma prepared_files:
  assumes "pe_mkdirTemp p = Inr workdir"
    and "\<And>q. q = workdir \<or> HasPrefix q (workdir @ ''/'') \<Longrightarrow> snd (locateLibrary (pe_locate p) opts (pw_files w)) q = None"
    and "embedded_prepare p opts w = (deferred, err, w1)" "q = workdir \<or> HasPrefix q (workdir @ ''/'')"
  shows "pw_files (embedded_deferred p deferred w1) q = None"
proof -
  obtain loc fs where l: "locateLibrary (pe_locate p) opts (pw_files w) = (loc, fs)" by force
  have "pw_files (embedded_deferred p (Some workdir, prev) v) q = None" for prev v
    by (simp add: embedded_deferred_def Let_def removeAll_none [OF assms(4)])
  moreover have "pw_files (embedded_deferred p (None, None) (w\<lparr>pw_files := fs\<rparr>)) q = None"
    "pw_files (embedded_deferred p (None, None) (w\<lparr>pw_files := fs, pw_once := b\<rparr>)) q = None" for b
    using assms(2) [OF assms(4)] l by (simp_all add: embedded_deferred_def)
  ultimately show ?thesis using assms(1,3) l
    by (auto simp: embedded_prepare_def Let_def split: sum.splits prod.splits option.splits)
qed

lemma prepared_cwd:
  assumes "embedded_prepare p opts w = (deferred, err, w1)" "pe_getwd p = None" "pe_chdir p (pw_cwd w) = None"
  shows "pw_cwd (embedded_deferred p deferred w1) = pw_cwd w"
  using assms
  by (auto simp: embedded_prepare_def embedded_deferred_def osChdir_def osGetwd_def Let_def
      split: sum.splits prod.splits option.splits)


definition demo_prepare :: "(unit, unit) prepare_env" where
  "demo_prepare = \<lparr>pe_locate = (re_locate demo_run)\<lparr>lc_stat := (\<lambda>_. Inr \<lparr>st_dir = False, st_mode = 420\<rparr>)\<rparr>,
     pe_openErr = None, pe_bindErr = (\<lambda>_. None), pe_mkdirTemp = Inr ''/tmp/geyserlite-1'', pe_unmarshal = (\<lambda>_. Inr []),
     pe_marshal = (\<lambda>_. Inr [1]), pe_fault = (\<lambda>_. None), pe_getwd = None, pe_chdir = (\<lambda>_. None)\<rparr>"

definition demo_world :: process_world where
  "demo_world = \<lparr>pw_files = Map.empty, pw_once = False, pw_cwd = ''/srv''\<rparr>"

definition demo_embedded_opts :: "(unit, unit) Options" where
  "demo_embedded_opts = demo_server_opts\<lparr>op_Listen := ''0.0.0.0:19132''\<rparr>"

lemma demo_prepared: "fst (snd (embedded_prepare demo_prepare demo_embedded_opts demo_world)) = None"
  by (simp add: embedded_prepare_def locateLibrary_def systemLibDirs_def fileAt_def embedded_load_def exports_def stageWorkdir_def
      writeFloodgateKey_def renderConfig_def buildConfigMap_def writeFile_def osChdir_def demo_prepare_def demo_run_def
      demo_embedded_opts_def demo_server_opts_def demo_world_def Let_def)

lemma demo_located: "snd (locateLibrary (pe_locate demo_prepare) demo_embedded_opts (pw_files demo_world)) q = None"
  by (auto simp: locateLibrary_def locateRemote_def demo_prepare_def demo_run_def demo_world_def split: sum.split option.split)


end
