(* ===== verification/Platform.thy ===== *)
theory Platform
  imports Assets_Correct Supervisor_Correct Embedded
begin

text \<open>
  What depends on the target of the build: the files behind build constraints
  (\<^verbatim>\<open>go/subprocess_unix.go\<close>, \<^verbatim>\<open>go/subprocess_other.go\<close>, \<^verbatim>\<open>go/library_*.go\<close>, \<^verbatim>\<open>go/embed_*.go\<close>) and the
  helpers of \<^verbatim>\<open>go/embedded_helpers.go\<close>. A build constraint is a condition on the operating system, the
  architecture and the tag \<open>geyserlite_embed\<close>; exactly one of the variants of a function is compiled.

  With these the environments that the locators and the launcher take as arguments are put together from the
  code they stand for: \<open>host_locate\<close> connects the locators with the embedded blobs and the downloader,
  \<open>platform_launch\<close> connects \<open>runOnce\<close> with the socket pair.
\<close>

section \<open>Build constraints\<close>

text \<open>The operating systems that satisfy the constraint \<open>unix\<close>.\<close>

definition unix_goos :: "string \<Rightarrow> bool" where
  "unix_goos goos \<longleftrightarrow> goos \<in> {''aix'', ''android'', ''darwin'', ''dragonfly'', ''freebsd'', ''hurd'', ''illumos'', ''ios'',
     ''linux'', ''netbsd'', ''openbsd'', ''solaris''}"

section \<open>The socket pair\<close>

definition ingressSubprocessSupported :: "string \<Rightarrow> bool" where
  "ingressSubprocessSupported goos = unix_goos goos"

text \<open>\<open>Some True\<close> is \<open>SysProcAttr{Setpgid: true}\<close>, \<open>None\<close> is nil.\<close>

definition sysProcAttrNewGroup :: "string \<Rightarrow> bool option" where
  "sysProcAttrNewGroup goos = (if unix_goos goos then Some True else None)"

text \<open>The open descriptors of the process with the two flags the code sets.\<close>

record fd_flags =
  fd_cloexec :: bool
  fd_nonblock :: bool

type_synonym fd_table = "nat \<rightharpoonup> fd_flags"

record 'e pair_env =
  sp_socketpair :: "'e + nat \<times> nat"
  sp_setNonblock :: "'e option"

datatype 'e pair_error = PairCreate 'e | PairConfigure 'e | PairABI

definition closeOnExec :: "nat \<Rightarrow> fd_table \<Rightarrow> fd_table" where
  "closeOnExec n tbl = tbl(n := map_option (\<lambda>f. f\<lparr>fd_cloexec := True\<rparr>) (tbl n))"

definition setNonblock :: "nat \<Rightarrow> fd_table \<Rightarrow> fd_table" where
  "setNonblock n tbl = tbl(n := map_option (\<lambda>f. f\<lparr>fd_nonblock := True\<rparr>) (tbl n))"

definition newIngressSocketpair ::
    "string \<Rightarrow> 'e pair_env \<Rightarrow> fd_table \<Rightarrow> ('e pair_error + nat \<times> nat) \<times> fd_table" where
  "newIngressSocketpair goos e tbl =
     (if \<not> unix_goos goos then (Inl PairABI, tbl)
      else case sp_socketpair e of
        Inl err \<Rightarrow> (Inl (PairCreate err), tbl)
      | Inr (parent, child) \<Rightarrow>
          (let tbl = tbl(parent \<mapsto> \<lparr>fd_cloexec = False, fd_nonblock = False\<rparr>, child \<mapsto> \<lparr>fd_cloexec = False, fd_nonblock = False\<rparr>);
               tbl = closeOnExec child (closeOnExec parent tbl)
           in case sp_setNonblock e of
                Some err \<Rightarrow> (Inl (PairConfigure err), tbl(parent := None, child := None))
              | None \<Rightarrow> (Inr (parent, child), setNonblock parent tbl)))"

text \<open>\<open>runOnce\<close> on a platform: whether it makes a pair, and what making it returns.\<close>

definition platform_launch :: "string \<Rightarrow> 'e pair_env \<Rightarrow> fd_table \<Rightarrow> 'e pair_error launch_env \<Rightarrow> 'e pair_error launch_env" where
  "platform_launch goos pair tbl e =
     e\<lparr>le_supported := ingressSubprocessSupported goos,
       le_socketpair := (case fst (newIngressSocketpair goos pair tbl) of Inl err \<Rightarrow> Some err | Inr _ \<Rightarrow> None)\<rparr>"

section \<open>Loading a library\<close>

datatype 'e open_error = DlError 'e | Unsupported string

text \<open>\<open>RTLD_NOW\<close> and \<open>RTLD_GLOBAL\<close> of purego on the target are arguments, as are both system functions.\<close>

definition openLibrary ::
    "string \<Rightarrow> (string \<Rightarrow> nat \<Rightarrow> 'e + u64) \<Rightarrow> nat \<Rightarrow> nat \<Rightarrow> (string \<Rightarrow> 'e + u64) \<Rightarrow> string \<Rightarrow> 'e open_error + u64" where
  "openLibrary goos dlopen rtldNow rtldGlobal loadLibrary path =
     (if goos \<in> {''darwin'', ''freebsd'', ''linux'', ''netbsd''} then map_sum DlError id (dlopen path (rtldNow OR rtldGlobal))
      else if goos = ''windows'' then map_sum DlError id (loadLibrary path)
      else Inl (Unsupported goos))"

text \<open>The first byte of an empty slice does not exist: a panic.\<close>

definition ptrOf :: "(bytes \<Rightarrow> u64) \<Rightarrow> bytes \<Rightarrow> u64 option" where
  "ptrOf addr b = (case b of [] \<Rightarrow> None | _ # _ \<Rightarrow> Some (addr b))"

definition pollSleep :: duration where
  "pollSleep = 250 * millisecond"

section \<open>The embedded blobs\<close>

text \<open>The four \<open>go:embed\<close> variables; their contents are outputs of the release build.\<close>

record blobs =
  embeddedBinaryLinuxAMD64 :: bytes
  embeddedLibraryLinuxAMD64 :: bytes
  embeddedBinaryLinuxARM64 :: bytes
  embeddedLibraryLinuxARM64 :: bytes

record build =
  bd_goos :: string
  bd_goarch :: string
  bd_embed :: bool
  bd_blobs :: blobs

definition extractEmbeddedBinary :: "build \<Rightarrow> 'e ex_env \<Rightarrow> files \<Rightarrow> ('e extract_error + string option) \<times> files" where
  "extractEmbeddedBinary t e fs =
     (if bd_embed t \<and> bd_goos t = ''linux'' \<and> bd_goarch t = ''amd64''
      then extractEmbeddedAsset e (embeddedBinaryLinuxAMD64 (bd_blobs t)) ''geyserlite'' True fs
      else if bd_embed t \<and> bd_goos t = ''linux'' \<and> bd_goarch t = ''arm64''
      then extractEmbeddedAsset e (embeddedBinaryLinuxARM64 (bd_blobs t)) ''geyserlite'' True fs
      else (Inr None, fs))"

definition extractEmbeddedLibrary :: "build \<Rightarrow> 'e ex_env \<Rightarrow> files \<Rightarrow> ('e extract_error + string option) \<times> files" where
  "extractEmbeddedLibrary t e fs =
     (if bd_embed t \<and> bd_goos t = ''linux'' \<and> bd_goarch t = ''amd64''
      then extractEmbeddedAsset e (embeddedLibraryLinuxAMD64 (bd_blobs t)) ''libgeyserlite.so'' False fs
      else if bd_embed t \<and> bd_goos t = ''linux'' \<and> bd_goarch t = ''arm64''
      then extractEmbeddedAsset e (embeddedLibraryLinuxARM64 (bd_blobs t)) ''libgeyserlite.so'' False fs
      else (Inr None, fs))"

section \<open>The locators on a host\<close>

datatype 'e host_error = HostSys 'e | HostExtract "'e extract_error" | HostDownload "'e download_error"

record 'e host =
  ho_getenv :: env
  ho_stat :: "string \<Rightarrow> 'e + stat_info"
  ho_lookPath :: "string \<Rightarrow> 'e + string"
  ho_extract :: "'e ex_env"
  ho_download :: "'e dl_env"

definition host_dl :: "build \<Rightarrow> 'e host \<Rightarrow> 'e dl_env" where
  "host_dl t h = (ho_download h)\<lparr>dl_goos := bd_goos t, dl_goarch := bd_goarch t\<rparr>"

definition from_extract ::
    "('e extract_error + string option) \<times> files \<Rightarrow> ('e host_error + (string \<times> bool)) \<times> files" where
  "from_extract = (\<lambda>(r, fs).
     (case r of Inl err \<Rightarrow> Inl (HostExtract err) | Inr None \<Rightarrow> Inr ('''', False) | Inr (Some p) \<Rightarrow> Inr (p, True), fs))"

definition host_locate :: "build \<Rightarrow> 'e host \<Rightarrow> ('l, 'o) Options \<Rightarrow> ('e host_error, files) locate_env" where
  "host_locate t h opts =
     \<lparr>lc_goos = bd_goos t, lc_getenv = ho_getenv h, lc_stat = (\<lambda>p. map_sum HostSys id (ho_stat h p)),
      lc_embeddedBinary = (\<lambda>fs. from_extract (extractEmbeddedBinary t (ho_extract h) fs)),
      lc_embeddedLibrary = (\<lambda>fs. from_extract (extractEmbeddedLibrary t (ho_extract h) fs)),
      lc_lookPath = (\<lambda>p. map_sum HostSys id (ho_lookPath h p)),
      lc_download = (\<lambda>kind fs. map_prod (map_sum HostDownload id) id (downloadAsset (host_dl t h) opts kind fs))\<rparr>"

section \<open>Descriptors\<close>

lemma newIngressSocketpair_exact:
  assumes "newIngressSocketpair goos e tbl = (r, tbl')"
    and "\<And>p c. sp_socketpair e = Inr (p, c) \<Longrightarrow> p \<noteq> c \<and> tbl p = None \<and> tbl c = None"
  shows "case r of
      Inl _ \<Rightarrow> tbl' = tbl
    | Inr (p, c) \<Rightarrow> unix_goos goos \<and> sp_socketpair e = Inr (p, c) \<and>
        tbl' = tbl(p \<mapsto> \<lparr>fd_cloexec = True, fd_nonblock = True\<rparr>, c \<mapsto> \<lparr>fd_cloexec = True, fd_nonblock = False\<rparr>)"
  using assms
  by (auto simp: newIngressSocketpair_def closeOnExec_def setNonblock_def Let_def fun_eq_iff
      split: if_splits sum.splits option.splits prod.splits) metis

lemma cString_pointer: "ptrOf addr (cString s) \<noteq> None"
  by (cases "cString s") (simp_all add: ptrOf_def cString_def)

section \<open>What the locators hand out\<close>

text \<open>
  A blob is handed out as it is in the build, or found in the cache directory that its hash names as a file of its
  length. A download is handed out with the hash that the release lists.
\<close>

definition blob_at :: "bytes \<Rightarrow> string \<Rightarrow> files \<Rightarrow> files \<Rightarrow> bool" where
  "blob_at blob p fs fs' \<longleftrightarrow> blob \<noteq> [] \<and>
     (\<exists>f. fs' p = Some f \<and> (f_data f = blob \<or> fs' = fs \<and> length (f_data f) = length blob))"

definition release_at :: "'e dl_env \<Rightarrow> ('l, 'o) Options \<Rightarrow> assetKind \<Rightarrow> string \<Rightarrow> files \<Rightarrow> bool" where
  "release_at e opts kind p fs \<longleftrightarrow>
     (\<exists>asset sha f. assetFor kind (dl_goos e) (dl_goarch e) = Inr asset \<and>
        fetchExpectedSha e (if op_Mirror opts = '''' then DefaultDownloadBase else op_Mirror opts)
          (if op_Version opts = '''' then DefaultVersion else op_Version opts) asset = Inr sha \<and>
        fs p = Some f \<and> hexSha (f_data f) = sha)"

lemma extract_exact:
  assumes "extractEmbeddedAsset e blob name x fs = (r, fs')"
  shows "(r = Inr None \<longrightarrow> blob = [] \<and> fs' = fs) \<and> (\<forall>p. r = Inr (Some p) \<longrightarrow> blob_at blob p fs fs')"
  using assms
  by (auto simp: extractEmbeddedAsset_def blob_at_def writeFile_def Let_def split: if_splits sum.splits option.splits prod.splits)

text \<open>The blob of a kind that the build carries; empty when it carries none.\<close>

definition build_blob :: "build \<Rightarrow> assetKind \<Rightarrow> bytes" where
  "build_blob t kind =
     (if \<not> bd_embed t \<or> bd_goos t \<noteq> ''linux'' then []
      else if bd_goarch t = ''amd64''
      then (case kind of assetKindBinary \<Rightarrow> embeddedBinaryLinuxAMD64 (bd_blobs t) | assetKindLibrary \<Rightarrow> embeddedLibraryLinuxAMD64 (bd_blobs t))
      else if bd_goarch t = ''arm64''
      then (case kind of assetKindBinary \<Rightarrow> embeddedBinaryLinuxARM64 (bd_blobs t) | assetKindLibrary \<Rightarrow> embeddedLibraryLinuxARM64 (bd_blobs t))
      else [])"

lemma extracted:
  "from_extract (extractEmbeddedBinary t e fs) = (Inr (p, ok), fs') \<Longrightarrow>
     (if ok then blob_at (build_blob t assetKindBinary) p fs fs' else build_blob t assetKindBinary = [] \<and> fs' = fs)"
  "from_extract (extractEmbeddedLibrary t e fs) = (Inr (p, ok), fs') \<Longrightarrow>
     (if ok then blob_at (build_blob t assetKindLibrary) p fs fs' else build_blob t assetKindLibrary = [] \<and> fs' = fs)"
  by (auto simp: from_extract_def extractEmbeddedBinary_def extractEmbeddedLibrary_def build_blob_def
      dest!: extract_exact split: prod.splits sum.splits option.splits if_splits)

text \<open>Temporary names end in \<open>.tmp\<close> and are new, and other processes leave this one's temporary file alone.\<close>

definition temp_ok :: "'e host \<Rightarrow> files \<Rightarrow> bool" where
  "temp_ok h fs \<longleftrightarrow> (\<exists>t. dl_createTemp (ho_download h) = Inr t \<and> HasSuffix t ''.tmp'' \<and> fs t = None \<and>
     (\<forall>fs. dl_others (ho_download h) fs t = fs t))"

lemma host_download:
  assumes "temp_ok h fs"
    and "map_prod (map_sum HostDownload id) id (downloadAsset (host_dl b h) opts kind fs) = (Inr p, fs')"
  shows "release_at (host_dl b h) opts kind p fs'"
proof -
  obtain r fs1 where d: "downloadAsset (host_dl b h) opts kind fs = (r, fs1)" by force
  with assms(2) have r: "r = Inr p" "fs1 = fs'" by (cases r; simp)+
  obtain t where t: "dl_createTemp (host_dl b h) = Inr t" "HasSuffix t ''.tmp''" "fs t = None" "\<And>fs. dl_others (host_dl b h) fs t = fs t"
    using assms(1) by (auto simp: temp_ok_def host_dl_def)
  from download_checked [OF d t(1,2,3)] t(4) r(1) show ?thesis by (simp add: release_at_def hexSha_def r(2))
qed

lemma host_locate_sel [simp]:
  "lc_goos (host_locate t h opts) = bd_goos t" "lc_getenv (host_locate t h opts) = ho_getenv h"
  "lc_embeddedBinary (host_locate t h opts) fs = from_extract (extractEmbeddedBinary t (ho_extract h) fs)"
  "lc_embeddedLibrary (host_locate t h opts) fs = from_extract (extractEmbeddedLibrary t (ho_extract h) fs)"
  "lc_lookPath (host_locate t h opts) p = map_sum HostSys id (ho_lookPath h p)"
  "lc_download (host_locate t h opts) kind fs = map_prod (map_sum HostDownload id) id (downloadAsset (host_dl t h) opts kind fs)"
  by (simp_all add: host_locate_def)

lemma blob_at_nonempty: "blob_at blob p fs fs' \<Longrightarrow> blob \<noteq> []"
  by (simp add: blob_at_def)

lemma located_binary:
  assumes "temp_ok h fs"
    and "locateBinary (host_locate b h opts) opts fs = (Inr p, fs')" "op_BinaryPath opts = ''''" "ho_getenv h ''GEYSERLITE_BINARY'' = ''''"
  shows "if build_blob b assetKindBinary \<noteq> [] then blob_at (build_blob b assetKindBinary) p fs fs'
    else ho_lookPath h ''geyserlite'' = Inr p \<and> fs' = fs \<or> \<not> op_Offline opts \<and> release_at (host_dl b h) opts assetKindBinary p fs'"
proof -
  obtain r fs1 where e: "from_extract (extractEmbeddedBinary b (ho_extract h) fs) = (r, fs1)" by force
  then obtain q ok where r: "r = Inr (q, ok)" using assms(2-) by (cases r) (auto simp: locateBinary_def)
  note x = extracted(1) [OF e [unfolded r]]
  show ?thesis
  proof (cases ok)
    case True
    then have "p = q" "fs' = fs1" using assms(2-) e r by (auto simp: locateBinary_def)
    then show ?thesis using x True blob_at_nonempty by auto
  next
    case False
    then have x: "build_blob b assetKindBinary = []" "fs1 = fs" using x by auto
    show ?thesis
      using assms(2-) e r False x host_download [OF assms(1), of b opts assetKindBinary p fs']
      by (cases "ho_lookPath h ''geyserlite''") (auto simp: locateBinary_def locateRemote_def split: if_splits sum.splits prod.splits)
  qed
qed

lemma located_library:
  assumes "temp_ok h fs"
    and "locateLibrary (host_locate b h opts) opts fs = (Inr p, fs')" "op_LibraryPath opts = ''''" "ho_getenv h ''GEYSERLITE_LIBRARY'' = ''''"
  shows "if build_blob b assetKindLibrary \<noteq> [] then blob_at (build_blob b assetKindLibrary) p fs fs'
    else searchDirs (host_locate b h opts) (systemLibDirs (ho_getenv h)) = Some p \<and> fs' = fs \<or>
      \<not> op_Offline opts \<and> release_at (host_dl b h) opts assetKindLibrary p fs'"
proof -
  obtain r fs1 where e: "from_extract (extractEmbeddedLibrary b (ho_extract h) fs) = (r, fs1)" by force
  then obtain q ok where r: "r = Inr (q, ok)" using assms(2-) by (cases r) (auto simp: locateLibrary_def)
  note x = extracted(2) [OF e [unfolded r]]
  show ?thesis
  proof (cases ok)
    case True
    then have "p = q" "fs' = fs1" using assms(2-) e r by (auto simp: locateLibrary_def)
    then show ?thesis using x True blob_at_nonempty by auto
  next
    case False
    then have x: "build_blob b assetKindLibrary = []" "fs1 = fs" using x by auto
    show ?thesis
      using assms(2-) e r False x host_download [OF assms(1), of b opts assetKindLibrary p fs']
      by (auto simp: locateLibrary_def locateRemote_def split: if_splits sum.splits prod.splits option.splits)
  qed
qed


definition demo_build :: build where
  "demo_build = \<lparr>bd_goos = ''linux'', bd_goarch = ''amd64'', bd_embed = False,
     bd_blobs = \<lparr>embeddedBinaryLinuxAMD64 = [], embeddedLibraryLinuxAMD64 = [], embeddedBinaryLinuxARM64 = [], embeddedLibraryLinuxARM64 = []\<rparr>\<rparr>"

definition demo_host :: "unit host" where
  "demo_host = \<lparr>ho_getenv = (\<lambda>_. ''''), ho_stat = (\<lambda>_. Inl ()), ho_lookPath = (\<lambda>_. Inl ()),
     ho_extract = \<lparr>ex_cacheDir = Inr ''/cache'', ex_statErr = None, ex_mkdirErr = None, ex_fault = (\<lambda>_. None), ex_renameErr = None\<rparr>,
     ho_download = demo_dl [2, 3]\<rparr>"

lemma demo_host_dl: "host_dl demo_build demo_host = demo_dl [2, 3]"
  by (simp add: host_dl_def demo_build_def demo_host_def demo_dl_def)


section \<open>Launching on a platform\<close>

lemma pair_error_origin:
  assumes "runOnce A args e st = Some (Some (SocketpairErr x), st')"
  shows "le_socketpair e = Some x"
proof -
  have i: "err = SocketpairErr x \<Longrightarrow> le_socketpair e = Some x" if "runOnce_ingress A e s = Some (Inl err, t)" for err s t
    using that by (auto simp: runOnce_ingress_def Let_def split: if_splits option.splits sum.splits)
  have s: "fst (runOnce_start args e s) \<noteq> Some (SocketpairErr x)" for s
    by (simp add: runOnce_start_def Let_def split: option.split)
  have n: "fst (runOnce_session A e bootstrap s) \<noteq> Some (SocketpairErr x)" for bootstrap s
    by (simp add: runOnce_session_def Let_def split: option.split prod.split)
  have l: "launch_result err \<noteq> Some (SocketpairErr x)" for err :: "'a sys_error session_error option"
    by (simp add: launch_result_def split: option.split session_error.split sys_error.split)
  have v: "runOnce_supervise A e s \<noteq> Some (Some (SocketpairErr x), t)" for s t
    using l by (auto simp: runOnce_supervise_def Let_def split: option.splits prod.splits)
  show ?thesis using assms i
    by (auto simp: runOnce_def Let_def v split: option.splits sum.splits prod.splits)
      (use s n in \<open>metis fst_conv\<close>)+
qed

text \<open>
  Verified ingress exists where the platform has sequenced packet sockets, and a pair of them never leaks. On a
  Unix system a pair that could not be made or configured leaves the descriptor table as it was and
  ends the launch before a child is started; a pair that was made has both ends closed on \<open>exec\<close>, and
  only the parent's end, which its read loop polls, is non-blocking. On any other system a launch
  makes no session, uses no generation and leaves the broker alone, whatever happens to the child.
\<close>

theorem platform_ingress:
  assumes "newIngressSocketpair goos pair tbl = (r, tbl')"
    and "\<And>p c. sp_socketpair pair = Inr (p, c) \<Longrightarrow> p \<noteq> c \<and> tbl p = None \<and> tbl c = None"
    and "runOnce A args (platform_launch goos pair tbl e) st = Some (err, st')"
  shows "if unix_goos goos
    then (case r of
        Inl x \<Rightarrow> tbl' = tbl \<and> err = Some (SocketpairErr x) \<and> ls_proc st' = NotStarted \<and> ls_counter st' = ls_counter st
      | Inr (p, c) \<Rightarrow> (\<forall>x. err \<noteq> Some (SocketpairErr x)) \<and>
          tbl' = tbl(p \<mapsto> \<lparr>fd_cloexec = True, fd_nonblock = True\<rparr>, c \<mapsto> \<lparr>fd_cloexec = True, fd_nonblock = False\<rparr>))
    else tbl' = tbl \<and> ls_session st' = None \<and> ls_broker st' = ls_broker st \<and> ls_counter st' = ls_counter st"
proof -
  have f: "le_supported (platform_launch goos pair tbl e) = unix_goos goos"
    "le_socketpair (platform_launch goos pair tbl e) = (case r of Inl x \<Rightarrow> Some x | Inr _ \<Rightarrow> None)"
    using assms(1) by (simp_all add: platform_launch_def ingressSubprocessSupported_def)
  note pair = newIngressSocketpair_exact [OF assms(1,2)]
  show ?thesis
  proof (cases "unix_goos goos")
    case True
    show ?thesis
    proof (cases r)
      case (Inl x)
      then show ?thesis using True pair assms(3) f by (auto simp: runOnce_def runOnce_ingress_def Let_def)
    next
      case (Inr pc)
      then show ?thesis using True pair f pair_error_origin [of A args "platform_launch goos pair tbl e" st] assms(3)
        by (auto split: prod.splits)
    qed
  next
    case False
    then have "tbl' = tbl" using assms(1) by (simp add: newIngressSocketpair_def)
    then show ?thesis using False assms(3) f(1)
      by (auto simp: runOnce_def runOnce_ingress_def runOnce_start_def runOnce_session_def runOnce_supervise_def closeIngressPair_def
          runOnce_pipes_def cmd_wait_def Let_def
          split: option.splits prod.splits)
  qed
qed

definition demo_pair :: "unit pair_env" where
  "demo_pair = \<lparr>sp_socketpair = Inr (5, 6), sp_setNonblock = Some ()\<rparr>"

theorem platform_ingress_witness:
  "\<exists>err st'. runOnce abi_v1 DefaultJVMArgs (platform_launch ''linux'' demo_pair Map.empty (demo_env True)) demo_launch = Some (err, st') \<and>
     err = Some (SocketpairErr (PairConfigure ())) \<and> ls_proc st' = NotStarted"
proof -
  have r: "newIngressSocketpair ''linux'' demo_pair Map.empty = (Inl (PairConfigure ()), Map.empty)"
    by (simp add: newIngressSocketpair_def unix_goos_def demo_pair_def closeOnExec_def Let_def fun_eq_iff)
  obtain err st' where l: "runOnce abi_v1 DefaultJVMArgs (platform_launch ''linux'' demo_pair Map.empty (demo_env True)) demo_launch = Some (err, st')"
    by (simp add: runOnce_def runOnce_ingress_def platform_launch_def r ingressSubprocessSupported_def unix_goos_def Let_def)
  have "unix_goos ''linux''" by (simp add: unix_goos_def)
  with platform_ingress [OF r _ l] l show ?thesis by (simp add: demo_pair_def)
qed

end
