(* ===== verification/Gate_Adapter.thy ===== *)
theory Gate_Adapter
  imports Server
begin

text \<open>
  The Gate adapter (\<^verbatim>\<open>go/integration/gate\<close>): the YAML-friendly configuration, its conversion
  into \<open>Options\<close>, and the wrapper whose nil value stands for a disabled subsystem. Errors of the
  wrapped server are of an arbitrary type \<open>'x\<close>; \<open>clean\<close> says which of them \<open>errors.Is\<close> recognises as
  \<open>context.Canceled\<close> or \<open>context.DeadlineExceeded\<close>.
\<close>

record 'o Config =
  cf_Enabled :: bool
  cf_Listen :: string
  cf_Upstream :: string
  cf_AuthType :: string
  cf_FloodgateKey :: string
  cf_MOTD :: MOTD
  cf_Mode :: string
  cf_LibraryPath :: string
  cf_Mirror :: string
  cf_Offline :: bool
  cf_ConfigOverrides :: "(string \<times> 'o yaml) list"

datatype gate_error = NotHex | UnknownAuthType string | UnknownMode string | ServerErr sentinel

text \<open>An empty string is no key: the nil slice.\<close>

definition decodeFloodgateKey :: "string \<Rightarrow> gate_error + bytes" where
  "decodeFloodgateKey s =
     (let s = TrimSpace s in
      if s = '''' then Inr []
      else (case hexDecode (TrimPrefix s ''0x'') of None \<Rightarrow> Inl NotHex | Some b \<Rightarrow> Inr b))"

definition baseOptions :: "'o Config \<Rightarrow> 'l option \<Rightarrow> ('l, 'o) Options" where
  "baseOptions c logger =
     \<lparr>op_Listen = cf_Listen c, op_Upstream = cf_Upstream c, op_AuthType = Floodgate, op_FloodgateKey = [],
      op_MOTD = \<lparr>motd_Line1 = motd_Line1 (cf_MOTD c), motd_Line2 = motd_Line2 (cf_MOTD c)\<rparr>, op_Mode = ModeEmbedded,
      op_LibraryPath = cf_LibraryPath c, op_BinaryPath = '''', op_JVMArgs = None, op_Logger = logger,
      op_RestartPolicy = None, op_ShutdownTimeout = 0, op_Version = '''', op_Mirror = cf_Mirror c,
      op_Offline = cf_Offline c, op_ConfigOverrides = cf_ConfigOverrides c\<rparr>"

text \<open>The two switches of \<open>toOptions\<close>.\<close>

definition authOptions :: "'o Config \<Rightarrow> ('l, 'o) Options \<Rightarrow> gate_error + ('l, 'o) Options" where
  "authOptions c opts =
     (let auth = ToLower (cf_AuthType c) in
      if auth = '''' \<or> auth = ''floodgate'' then
        (case decodeFloodgateKey (cf_FloodgateKey c) of
           Inl err \<Rightarrow> Inl err
         | Inr key \<Rightarrow> Inr (opts\<lparr>op_AuthType := Floodgate, op_FloodgateKey := key\<rparr>))
      else if auth = ''online'' then Inr (opts\<lparr>op_AuthType := Online\<rparr>)
      else if auth = ''offline'' then Inr (opts\<lparr>op_AuthType := Offline\<rparr>)
      else Inl (UnknownAuthType (cf_AuthType c)))"

definition modeOptions :: "'o Config \<Rightarrow> ('l, 'o) Options \<Rightarrow> gate_error + ('l, 'o) Options" where
  "modeOptions c opts =
     (let mode = ToLower (cf_Mode c) in
      if mode = '''' \<or> mode = ''embedded'' then Inr (opts\<lparr>op_Mode := ModeEmbedded\<rparr>)
      else if mode = ''subprocess'' then Inr (opts\<lparr>op_Mode := ModeSubprocess\<rparr>)
      else Inl (UnknownMode (cf_Mode c)))"

definition toOptions :: "'o Config \<Rightarrow> 'l option \<Rightarrow> gate_error + ('l, 'o) Options" where
  "toOptions c logger =
     (case authOptions c (baseOptions c logger) of
        Inl err \<Rightarrow> Inl err
      | Inr opts \<Rightarrow> modeOptions c opts)"

text \<open>\<open>New\<close>: nil for a disabled configuration.\<close>

definition gate_New :: "'l \<Rightarrow> 'o Config \<Rightarrow> 'l option \<Rightarrow> gate_error + ('l, 'o, 'x) Server option" where
  "gate_New slog_Default cfg logger =
     (if \<not> cf_Enabled cfg then Inr None
      else
        (let logger = (case logger of None \<Rightarrow> slog_Default | Some l \<Rightarrow> l) in
         case toOptions cfg (Some logger) of
           Inl err \<Rightarrow> Inl err
         | Inr opts \<Rightarrow>
             (case server_New slog_Default opts of
                Inl err \<Rightarrow> Inl (ServerErr err)
              | Inr srv \<Rightarrow> Inr (Some srv))))"

text \<open>The wrapper's methods over what the server's methods return.\<close>

definition Bedrock_Start :: "('x \<Rightarrow> bool) \<Rightarrow> 's option \<Rightarrow> ('s \<Rightarrow> 'x option) \<Rightarrow> 'x option" where
  "Bedrock_Start clean b start =
     (case b of
        None \<Rightarrow> None
      | Some server \<Rightarrow>
          (case start server of None \<Rightarrow> None | Some err \<Rightarrow> if clean err then None else Some err))"

definition Bedrock_Stop :: "'s option \<Rightarrow> ('s \<Rightarrow> 'x option) \<Rightarrow> 'x option" where
  "Bedrock_Stop b stop = (case b of None \<Rightarrow> None | Some server \<Rightarrow> stop server)"

definition Bedrock_Healthy :: "'s option \<Rightarrow> ('s \<Rightarrow> bool) \<Rightarrow> bool" where
  "Bedrock_Healthy b healthy = (case b of None \<Rightarrow> False | Some server \<Rightarrow> healthy server)"

section \<open>Properties\<close>

lemma hex_not_0x: "\<not> HasPrefix (hexEncode b) ''0x''"
proof
  assume "HasPrefix (hexEncode b) ''0x''"
  then have "CHR ''x'' \<in> set (hexEncode b)" by (cases "hexEncode b"; cases "tl (hexEncode b)") (auto simp: HasPrefix_def)
  then show False using hexEncode_range [of "CHR ''x''" b] by simp
qed

lemma decodeFloodgateKey_hex:
  assumes "key \<noteq> []"
  shows "decodeFloodgateKey (hexEncode key) = Inr key" "decodeFloodgateKey (''0x'' @ hexEncode key) = Inr key"
proof -
  have n: "hexEncode key \<noteq> []" using assms length_hexEncode [of key] by (auto simp del: length_hexEncode)
  have g: "\<forall>c\<in>set (hexEncode key). graphic c" using hexEncode_graphic by blast
  have t: "TrimSpace (hexEncode key) = hexEncode key" "TrimSpace (''0x'' @ hexEncode key) = ''0x'' @ hexEncode key"
    using g by (auto intro!: TrimSpace_graphic simp: graphic_def)
  show "decodeFloodgateKey (hexEncode key) = Inr key" "decodeFloodgateKey (''0x'' @ hexEncode key) = Inr key"
    using n hex_not_0x [of key] unfolding decodeFloodgateKey_def t
    by (simp_all add: TrimPrefix_def Let_def) (simp add: HasPrefix_def)
qed

lemma AuthType_String_lower: "ToLower (AuthType_String a) = AuthType_String a"
  by (cases a) (simp_all add: lower_char_def)

lemma authOptions_keeps:
  assumes "authOptions c opts = Inr opts'"
  shows "op_Upstream opts' = op_Upstream opts \<and> op_ConfigOverrides opts' = op_ConfigOverrides opts \<and>
    ToLower (cf_AuthType c) \<in> {AuthType_String (op_AuthType opts'), ''''}"
  using assms by (auto simp: authOptions_def Let_def split: if_splits sum.splits)

lemma modeOptions_keeps:
  assumes "modeOptions c opts = Inr opts'"
  shows "op_Upstream opts' = op_Upstream opts \<and> op_ConfigOverrides opts' = op_ConfigOverrides opts \<and>
    op_AuthType opts' = op_AuthType opts \<and> op_FloodgateKey opts' = op_FloodgateKey opts"
  using assms by (auto simp: modeOptions_def Let_def split: if_splits)

lemma authOptions_accepts:
  assumes "a \<in> {Floodgate, Online, Offline}" "cf_AuthType c = AuthType_String a" "decodeFloodgateKey (cf_FloodgateKey c) = Inr key"
  shows "\<exists>opts'. authOptions c opts = Inr opts' \<and> op_AuthType opts' = a \<and> op_Upstream opts' = op_Upstream opts \<and>
    (a = Floodgate \<longrightarrow> op_FloodgateKey opts' = key)"
  using assms AuthType_String_lower [of a] by (auto simp: authOptions_def Let_def)

lemma modeOptions_accepts:
  assumes "cf_Mode c \<in> {'''', ''embedded'', ''subprocess''}"
  shows "\<exists>opts'. modeOptions c opts = Inr opts'"
proof -
  have "ToLower (cf_Mode c) \<in> {'''', ''embedded'', ''subprocess''}"
    using assms by (elim insertE) (simp_all add: lower_char_def)
  then show ?thesis by (auto simp: modeOptions_def Let_def)
qed

text \<open>
  The adapter configures what it is asked for, or nothing. Whenever \<open>New\<close> yields a server,
  its options are valid and are those of the configuration, the authentication type is the one whose
  name was given in any letter case (Floodgate when empty) and a Floodgate server has a key of
  exactly 16 bytes; conversely an enabled configuration with an upstream address, the name of a
  declared authentication type, and for Floodgate a key of 16 bytes in hex with or without \<open>0x\<close>, yields a
  server that has that type and that key. A disabled configuration yields no server and no error.
\<close>

theorem gate_new_exact:
  "(\<not> cf_Enabled cfg \<longrightarrow> gate_New lg cfg logger = Inr None) \<and>
   (\<forall>srv. gate_New lg cfg logger = Inr (Some srv) \<longrightarrow>
      cf_Enabled cfg \<and> options_ok (sv_opts srv) \<and> op_Upstream (sv_opts srv) = cf_Upstream cfg \<and>
      op_ConfigOverrides (sv_opts srv) = cf_ConfigOverrides cfg \<and>
      ToLower (cf_AuthType cfg) \<in> {AuthType_String (op_AuthType (sv_opts srv)), ''''} \<and>
      (op_AuthType (sv_opts srv) = Floodgate \<longrightarrow> length (op_FloodgateKey (sv_opts srv)) = 16)) \<and>
   (\<forall>a key. cf_Enabled cfg \<and> cf_Upstream cfg \<noteq> '''' \<and> cf_Mode cfg \<in> {'''', ''embedded'', ''subprocess''} \<and>
      a \<in> {Floodgate, Online, Offline} \<and> cf_AuthType cfg = AuthType_String a \<and> length key = 16 \<and>
      cf_FloodgateKey cfg \<in> {hexEncode key, ''0x'' @ hexEncode key} \<longrightarrow>
      (\<exists>srv. gate_New lg cfg logger = Inr (Some srv) \<and> op_AuthType (sv_opts srv) = a \<and>
         (a = Floodgate \<longrightarrow> op_FloodgateKey (sv_opts srv) = key)))"
proof (intro conjI allI impI; (elim conjE)?)
  assume "\<not> cf_Enabled cfg"
  then show "gate_New lg cfg logger = Inr None" by (simp add: gate_New_def)
next
  fix srv assume "gate_New lg cfg logger = Inr (Some srv)"
  then obtain opts lg' where e: "cf_Enabled cfg" and o: "toOptions cfg (Some lg') = Inr opts" and n: "server_New lg opts = Inr srv"
    by (auto simp: gate_New_def Let_def split: if_splits sum.splits)
  have sv: "sv_opts srv = default_opts lg opts" "options_ok (sv_opts srv)"
    using n server_New_fresh [OF n] by (auto simp: server_New_def validate_eq split: if_splits)
  obtain x where x: "authOptions cfg (baseOptions cfg (Some lg')) = Inr x" "modeOptions cfg x = Inr opts"
    using o by (auto simp: toOptions_def split: sum.splits)
  note o1 = authOptions_keeps [OF x(1)] and o2 = modeOptions_keeps [OF x(2)]
  have d: "op_Upstream opts = cf_Upstream cfg" "op_ConfigOverrides opts = cf_ConfigOverrides cfg"
    "ToLower (cf_AuthType cfg) \<in> {AuthType_String (op_AuthType opts), ''''}"
    using o1 o2 by (simp_all add: baseOptions_def)
  show "cf_Enabled cfg" "options_ok (sv_opts srv)" by (fact e sv(2))+
  show "op_Upstream (sv_opts srv) = cf_Upstream cfg" "op_ConfigOverrides (sv_opts srv) = cf_ConfigOverrides cfg"
    "ToLower (cf_AuthType cfg) \<in> {AuthType_String (op_AuthType (sv_opts srv)), ''''}"
    using d by (auto simp: sv(1) default_opts_def)
  show "op_AuthType (sv_opts srv) = Floodgate \<Longrightarrow> length (op_FloodgateKey (sv_opts srv)) = 16"
    using sv(2) by (simp add: options_ok_def)
next
  fix a key
  assume c: "cf_Enabled cfg" "cf_Upstream cfg \<noteq> ''''" "cf_Mode cfg \<in> {'''', ''embedded'', ''subprocess''}"
    and a: "a \<in> {Floodgate, Online, Offline}" "cf_AuthType cfg = AuthType_String a"
    and k: "length key = 16" "cf_FloodgateKey cfg \<in> {hexEncode key, ''0x'' @ hexEncode key}"
  have "key \<noteq> []" using k(1) by auto
  then have key: "decodeFloodgateKey (cf_FloodgateKey cfg) = Inr key" using k(2) decodeFloodgateKey_hex by auto
  have ex: "\<exists>opts. toOptions cfg (Some l) = Inr opts \<and> op_AuthType opts = a \<and> op_Upstream opts \<noteq> '''' \<and>
      (a = Floodgate \<longrightarrow> op_FloodgateKey opts = key)" for l
  proof -
    obtain o1 where o1: "authOptions cfg (baseOptions cfg (Some l)) = Inr o1" "op_AuthType o1 = a"
      "op_Upstream o1 = op_Upstream (baseOptions cfg (Some l))" "a = Floodgate \<longrightarrow> op_FloodgateKey o1 = key"
      using authOptions_accepts [OF a key] by blast
    obtain o2 where o2: "modeOptions cfg o1 = Inr o2" using modeOptions_accepts [OF c(3)] by blast
    have "op_Upstream o2 = cf_Upstream cfg" using o1(3) modeOptions_keeps [OF o2] by (simp add: baseOptions_def)
    then show ?thesis using o1 o2 modeOptions_keeps [OF o2] c(2) by (simp add: toOptions_def)
  qed
  obtain opts where o: "toOptions cfg (Some (case logger of None \<Rightarrow> lg | Some l \<Rightarrow> l)) = Inr opts"
    "op_AuthType opts = a" "op_Upstream opts \<noteq> ''''" "a = Floodgate \<longrightarrow> op_FloodgateKey opts = key"
    using ex [of "case logger of None \<Rightarrow> lg | Some l \<Rightarrow> l"] by (elim exE conjE)
  have "\<not> (op_AuthType opts = Floodgate \<and> length (op_FloodgateKey opts) \<noteq> 16)" using o(2,4) k(1) by auto
  then show "\<exists>srv. gate_New lg cfg logger = Inr (Some srv) \<and> op_AuthType (sv_opts srv) = a \<and>
      (a = Floodgate \<longrightarrow> op_FloodgateKey (sv_opts srv) = key)"
    using c(1) o by (simp add: gate_New_def server_New_def validate_eq Let_def) (simp add: default_opts_def)
qed

definition demo_gate :: "unit Config" where
  "demo_gate = \<lparr>cf_Enabled = True, cf_Listen = '''', cf_Upstream = ''127.0.0.1:25567'', cf_AuthType = ''floodgate'',
     cf_FloodgateKey = ''0x'' @ hexEncode (replicate 16 (0xAB :: u8)), cf_MOTD = \<lparr>motd_Line1 = '''', motd_Line2 = ''''\<rparr>,
     cf_Mode = ''subprocess'', cf_LibraryPath = '''', cf_Mirror = '''', cf_Offline = False, cf_ConfigOverrides = []\<rparr>"

theorem gate_new_exact_witness:
  "\<exists>srv :: (unit, unit, unit) Server. gate_New () demo_gate None = Inr (Some srv) \<and> op_FloodgateKey (sv_opts srv) = replicate 16 0xAB"
  using gate_new_exact [of demo_gate "()" None, THEN conjunct2, THEN conjunct2, rule_format, of Floodgate "replicate 16 0xAB"]
  by (auto simp: demo_gate_def)

text \<open>
  A clean shutdown is an error for \<open>Stop\<close> but not for \<open>Start\<close>: the wrapper maps a cancellation to
  nil in one of them only.
\<close>

lemma stop_keeps_cancellation:
  "clean err \<Longrightarrow> Bedrock_Start clean (Some s) (\<lambda>_. Some err) = None"
  "Bedrock_Stop (Some s) (\<lambda>_. Some err) = Some err"
  by (simp_all add: Bedrock_Start_def Bedrock_Stop_def)

end
