(* ===== verification/Synthetic.thy ===== *)
theory Synthetic
  imports Go_Strings
begin

text \<open>
  The RakNet probe of \<^verbatim>\<open>go/internal/synthetic/bedrock.go\<close>: the Unconnected Ping it sends, the
  parser of the Unconnected Pong, and the loop that probes until a server answers. A slice out of
  range is the result \<open>None\<close>, the run-time panic; the length field of the pong is a \<open>uint16\<close> and its
  arithmetic wraps around. The network is an argument. \<open>RTTMillis\<close>, a floating point number, is kept
  as the number of microseconds that \<open>Probe\<close> divides by 1000.
\<close>

section \<open>Packets\<close>

definition idUnconnectedPing :: u8 where "idUnconnectedPing = 0x01"
definition idUnconnectedPong :: u8 where "idUnconnectedPong = 0x1c"

definition rakNetMagic :: bytes where
  "rakNetMagic =
    [0x00, 0xff, 0xff, 0x00, 0xfe, 0xfe, 0xfe, 0xfe,
     0xfd, 0xfd, 0xfd, 0xfd, 0x12, 0x34, 0x56, 0x78]"

record probe_MOTD =
  mo_Edition :: string
  mo_Line1 :: string
  mo_ProtocolVer :: int
  mo_GameVersion :: string
  mo_Players :: int
  mo_MaxPlayers :: int
  mo_ServerGUID :: string
  mo_Line2 :: string
  mo_GameMode :: string
  mo_GameModeNum :: int
  mo_PortV4 :: int
  mo_PortV6 :: int
  mo_RawDescriptor :: string

definition buildPing :: "time \<Rightarrow> bytes option" where
  "buildPing t = do {
     pkt \<leftarrow> go_set (replicate 33 0) 0 idUnconnectedPing;
     pkt \<leftarrow> put_u64 pkt 1 (unix_milli t);
     pkt \<leftarrow> go_copy_at 9 rakNetMagic pkt;
     put_u64 pkt 25 1
   }"

text \<open>The loop of \<open>equalBytes\<close> from index \<open>i\<close> on.\<close>

function equalLoop :: "nat \<Rightarrow> bytes \<Rightarrow> bytes \<Rightarrow> bool" where
  "equalLoop i a b =
     (if i < length a then (if a ! i \<noteq> b ! i then False else equalLoop (Suc i) a b) else True)"
  by pat_completeness auto
termination by (relation "measure (\<lambda>(i, a, b). length a - i)") auto

declare equalLoop.simps [simp del]

definition equalBytes :: "bytes \<Rightarrow> bytes \<Rightarrow> bool" where
  "equalBytes a b \<longleftrightarrow> (if length a \<noteq> length b then False else equalLoop 0 a b)"

fun be16_val :: "bytes \<Rightarrow> u16 option" where
  "be16_val (b0 # b1 # _) = Some (push_bit 8 (ucast b0) OR ucast b1)"
| "be16_val _ = None"

datatype pong_error = PongTooShort nat | WrongPongId u8 | BadMagic | DescriptorTruncated

definition part :: "string list \<Rightarrow> nat \<Rightarrow> string" where
  "part ps i = (if length ps > i then ps ! i else '''')"

definition part_int :: "string list \<Rightarrow> nat \<Rightarrow> int" where
  "part_int ps i = (if length ps > i then fst (Atoi (ps ! i)) else 0)"

definition motdOf :: "u64 \<Rightarrow> string \<Rightarrow> probe_MOTD" where
  "motdOf serverGUID desc =
     (let parts = SplitByte CHR '';'' desc in
      \<lparr>mo_Edition = part parts 0, mo_Line1 = part parts 1, mo_ProtocolVer = part_int parts 2, mo_GameVersion = part parts 3,
       mo_Players = part_int parts 4, mo_MaxPlayers = part_int parts 5, mo_ServerGUID = hexEncode (be64_bytes serverGUID),
       mo_Line2 = part parts 7, mo_GameMode = part parts 8, mo_GameModeNum = part_int parts 9, mo_PortV4 = part_int parts 10,
       mo_PortV6 = part_int parts 11, mo_RawDescriptor = desc\<rparr>)"

definition parsePong :: "bytes \<Rightarrow> (pong_error + probe_MOTD) option" where
  "parsePong data =
     (if length data < 35 then Some (Inl (PongTooShort (length data)))
      else do {
        id \<leftarrow> go_index data 0;
        if id \<noteq> idUnconnectedPong then Some (Inl (WrongPongId id))
        else do {
          guid \<leftarrow> go_slice data 9 17;
          serverGUID \<leftarrow> be64_val guid;
          gotMagic \<leftarrow> go_slice data 17 33;
          if \<not> equalBytes gotMagic rakNetMagic then Some (Inl BadMagic)
          else do {
            lenBytes \<leftarrow> go_slice data 33 35;
            strLen \<leftarrow> be16_val lenBytes;
            if unat (35 + strLen) > length data then Some (Inl DescriptorTruncated)
            else do {
              desc \<leftarrow> go_slice data 35 (unat (35 + strLen));
              Some (Inr (motdOf serverGUID (string_of_bytes desc)))
            }
          }
        }
      })"

section \<open>Probing\<close>

text \<open>
  One probe: when it starts, the errors of dialling, of the write of the ping and of the read, or the
  datagram received (cut at the buffer of 2048 bytes) and the time that took. The deadline is the
  context's, or three seconds from now.
\<close>

datatype 'e probe_error = DialErr 'e | WritePing 'e | ReadPong 'e | PongErr pong_error

record 'e probe_net =
  pn_now :: time
  pn_dial :: "time \<Rightarrow> 'e option"
  pn_write :: "bytes \<Rightarrow> 'e option"
  pn_read :: "'e + bytes"
  pn_rtt :: duration

definition probe_deadline :: "time option \<Rightarrow> time \<Rightarrow> time" where
  "probe_deadline ctxDeadline now = (case ctxDeadline of Some d \<Rightarrow> d | None \<Rightarrow> now + 3 * second)"

text \<open>\<open>Duration.Microseconds\<close>, which truncates towards zero.\<close>

definition microseconds :: "duration \<Rightarrow> int" where
  "microseconds d = (if d < 0 then - ((- d) div 1000) else d div 1000)"

definition Probe :: "time option \<Rightarrow> 'e probe_net \<Rightarrow> ('e probe_error + probe_MOTD \<times> int) option" where
  "Probe ctxDeadline n =
     (case pn_dial n (probe_deadline ctxDeadline (pn_now n)) of
        Some err \<Rightarrow> Some (Inl (DialErr err))
      | None \<Rightarrow>
          (case buildPing (pn_now n) of
             None \<Rightarrow> None
           | Some ping \<Rightarrow>
               (case pn_write n ping of
                  Some err \<Rightarrow> Some (Inl (WritePing err))
                | None \<Rightarrow>
                    (case pn_read n of
                       Inl err \<Rightarrow> Some (Inl (ReadPong err))
                     | Inr datagram \<Rightarrow>
                         (case parsePong (take 2048 datagram) of
                            None \<Rightarrow> None
                          | Some (Inl err) \<Rightarrow> Some (Inl (PongErr err))
                          | Some (Inr motd) \<Rightarrow> Some (Inr (motd, microseconds (pn_rtt n))))))))"

text \<open>
  \<open>Wait\<close>: probe \<open>i\<close> meets the network \<open>net i\<close> and gets a deadline of two seconds from its start, or the
  context's if that is earlier; \<open>expired i\<close> says that the context is done in the
  pause after it. The result is \<open>None\<close> when a probe panics or the loop runs for ever.
\<close>

definition within :: "time option \<Rightarrow> time \<Rightarrow> time option" where
  "within ctxDeadline t = Some (case ctxDeadline of None \<Rightarrow> t | Some d \<Rightarrow> min d t)"

partial_function (option) waitLoop ::
    "time option \<Rightarrow> (nat \<Rightarrow> 'e probe_net) \<Rightarrow> (nat \<Rightarrow> bool) \<Rightarrow> nat \<Rightarrow> (unit + probe_MOTD \<times> int) option" where
  "waitLoop ctxDeadline net expired i =
     (case Probe (within ctxDeadline (pn_now (net i) + 2 * second)) (net i) of
        None \<Rightarrow> None
      | Some (Inr motd) \<Rightarrow> Some (Inr motd)
      | Some (Inl _) \<Rightarrow> if expired i then Some (Inl ()) else waitLoop ctxDeadline net expired (Suc i))"

definition pollEvery_default :: "duration \<Rightarrow> duration" where
  "pollEvery_default pollEvery = (if pollEvery \<le> 0 then 250 * millisecond else pollEvery)"

section \<open>Properties\<close>

lemma equalLoop_iff: "i \<le> length a \<Longrightarrow> length a = length b \<Longrightarrow> equalLoop i a b \<longleftrightarrow> drop i a = drop i b"
proof (induction i a b rule: equalLoop.induct)
  case (1 i a b)
  show ?case
  proof (cases "i < length a")
    case True
    then have "drop i a = a ! i # drop (Suc i) a" "drop i b = b ! i # drop (Suc i) b"
      using 1(3) by (simp_all add: Cons_nth_drop_Suc)
    then show ?thesis using True 1 by (subst equalLoop.simps) simp
  next
    case False
    then show ?thesis using 1 by (subst equalLoop.simps) simp
  qed
qed

lemma equalBytes_iff: "equalBytes a b \<longleftrightarrow> a = b"
  using equalLoop_iff [of 0 a b] by (auto simp: equalBytes_def)

lemma be16_Some: "2 \<le> length xs \<Longrightarrow> \<exists>v. be16_val xs = Some v"
  by (cases xs rule: be16_val.cases) auto

lemma wrap16: "unat (35 + (n :: u16)) = (35 + unat n) mod 65536"
  by (simp add: unat_word_ariths)

lemma parsePong_body:
  assumes "35 \<le> length data" "data ! 0 = idUnconnectedPong" "take 16 (drop 17 data) = rakNetMagic"
    and "be16_val (take 2 (drop 33 data)) = Some strLen" "be64_val (take 8 (drop 9 data)) = Some guid"
  shows "parsePong data =
    (if unat (35 + strLen) > length data then Some (Inl DescriptorTruncated)
     else if 35 \<le> unat (35 + strLen)
     then Some (Inr (motdOf guid (string_of_bytes (take (unat (35 + strLen) - 35) (drop 35 data)))))
     else None)"
proof -
  have "data \<noteq> []" using assms(1) by auto
  then show ?thesis using assms by (simp add: parsePong_def go_index_def go_slice_def equalBytes_iff)
qed

lemma parsePong_rejects:
  assumes "\<not> (35 \<le> length data \<and> data ! 0 = idUnconnectedPong \<and> take 16 (drop 17 data) = rakNetMagic)"
  shows "\<exists>err. parsePong data = Some (Inl err)"
proof (cases "35 \<le> length data \<and> data ! 0 = idUnconnectedPong")
  case True
  then have "\<exists>g. be64_val (take 8 (drop 9 data)) = Some g"
    using be64_val_None_iff [of "take 8 (drop 9 data)"] by (cases "be64_val (take 8 (drop 9 data))") auto
  then show ?thesis using True assms by (auto simp: parsePong_def go_index_def go_slice_def equalBytes_iff)
qed (use assms in \<open>auto simp: parsePong_def go_index_def\<close>)

text \<open>
  C38: The one way the pong parser crashes. On every datagram \<open>parsePong\<close> returns an error
  or a MOTD, except when the header is that of a pong and the length field is 65501 or more: then
  \<open>35 + strLen\<close> wraps around in \<open>uint16\<close>, the truncation check passes and the slice expression
  panics. So a server under test can crash the probe with a datagram of 35 bytes.
\<close>

theorem parsePong_panic_exact:
  "parsePong data = None \<longleftrightarrow>
     35 \<le> length data \<and> data ! 0 = idUnconnectedPong \<and> take 16 (drop 17 data) = rakNetMagic \<and>
     (\<exists>strLen. be16_val (take 2 (drop 33 data)) = Some strLen \<and> 65501 \<le> unat strLen)"
proof (cases "35 \<le> length data \<and> data ! 0 = idUnconnectedPong \<and> take 16 (drop 17 data) = rakNetMagic")
  case True
  have "2 \<le> length (take 2 (drop 33 data))" using True by simp linarith
  then obtain n where n: "be16_val (take 2 (drop 33 data)) = Some n" using be16_Some by blast
  obtain g where g: "be64_val (take 8 (drop 9 data)) = Some g"
    using be64_val_None_iff [of "take 8 (drop 9 data)"] True by (cases "be64_val (take 8 (drop 9 data))") auto
  have "unat n < 65536" using unsigned_less [of n, where 'a = nat] by simp
  then have "unat (35 + n) < 35 \<longleftrightarrow> 65501 \<le> unat n" unfolding wrap16 by (auto simp: mod_if)
  then show ?thesis using True n parsePong_body [OF _ _ _ n g] by auto
next
  case False
  then show ?thesis using parsePong_rejects [OF False] by auto
qed

definition pong :: "bytes \<Rightarrow> u64 \<Rightarrow> string \<Rightarrow> bytes" where
  "pong stamp guid desc =
     idUnconnectedPong # stamp @ be64_bytes guid @ rakNetMagic @
     [ucast (drop_bit 8 (of_nat (length desc) :: u16)), ucast (of_nat (length desc) :: u16)] @ bytes_of_string desc"

lemma be16_round_trip: "be16_val [ucast (drop_bit 8 (v :: u16)), ucast v] = Some v"
  by (auto simp: bit_simps intro!: bit_word_eqI)

text \<open>
  The descriptor of a pong is read back. For a pong that carries the fields of a MOTD
  separated by semicolons (no field contains one) in fewer than 65501 bytes, \<open>parsePong\<close> succeeds
  and the result has the fields at their positions: edition, first line, protocol version, game
  version, player counts, second line, game mode and ports, with the GUID taken from the binary
  header in hex.
\<close>

theorem parsePong_roundtrip:
  assumes "length stamp = 8" "length fs = 12" "\<forall>f\<in>set fs. CHR '';'' \<notin> set f"
    and "length (JoinByte CHR '';'' fs) < 65501"
  shows "parsePong (pong stamp guid (JoinByte CHR '';'' fs)) = Some (Inr
    \<lparr>mo_Edition = fs ! 0, mo_Line1 = fs ! 1, mo_ProtocolVer = fst (Atoi (fs ! 2)), mo_GameVersion = fs ! 3,
     mo_Players = fst (Atoi (fs ! 4)), mo_MaxPlayers = fst (Atoi (fs ! 5)), mo_ServerGUID = hexEncode (be64_bytes guid),
     mo_Line2 = fs ! 7, mo_GameMode = fs ! 8, mo_GameModeNum = fst (Atoi (fs ! 9)),
     mo_PortV4 = fst (Atoi (fs ! 10)), mo_PortV6 = fst (Atoi (fs ! 11)), mo_RawDescriptor = JoinByte CHR '';'' fs\<rparr>)"
proof -
  define desc where "desc = JoinByte CHR '';'' fs"
  define v where "v = (of_nat (length desc) :: u16)"
  have v: "unat v = length desc" using assms(4) by (simp add: v_def desc_def unat_of_nat)
  have w: "unat (35 + v) = 35 + length desc" unfolding wrap16 v using assms(4) by (simp add: desc_def)
  have l: "length (bytes_of_string desc) = length desc" by (simp add: bytes_of_string_def)
  have m: "length rakNetMagic = 16" by (simp add: rakNetMagic_def)
  have p: "pong stamp guid desc = idUnconnectedPong # stamp @ be64_bytes guid @ rakNetMagic @ [ucast (drop_bit 8 v), ucast v] @ bytes_of_string desc"
    by (simp add: pong_def v_def)
  have h: "length (pong stamp guid desc) = 35 + length desc" "pong stamp guid desc ! 0 = idUnconnectedPong"
    "take 16 (drop 17 (pong stamp guid desc)) = rakNetMagic" "be16_val (take 2 (drop 33 (pong stamp guid desc))) = Some v"
    "be64_val (take 8 (drop 9 (pong stamp guid desc))) = Some guid" "drop 35 (pong stamp guid desc) = bytes_of_string desc"
    using be64_round_trip [of guid "[]"] by (simp_all add: p assms(1) l m be16_round_trip del: be16_val.simps)
  have "parsePong (pong stamp guid desc) = Some (Inr (motdOf guid desc))"
    using parsePong_body [OF _ h(2-5)] h(1,6) by (simp add: w l)
  moreover have "SplitByte CHR '';'' desc = fs"
    unfolding desc_def using assms(2,3) by (intro Split_Join) auto
  moreover have "fs \<noteq> []" using assms(2) by auto
  ultimately show ?thesis by (simp add: motdOf_def desc_def [symmetric] part_def part_int_def assms(2))
qed

theorem parsePong_roundtrip_witness:
  "\<exists>m. parsePong (pong (replicate 8 0) 5 ''MCPE;geyserlite;766;1.21.50;3;100;5;cross-play;Survival;1;19132;19133'') = Some (Inr m) \<and>
     mo_Line1 m = ''geyserlite'' \<and> mo_Line2 m = ''cross-play''"
  using parsePong_roundtrip [of "replicate 8 0"
      "[''MCPE'', ''geyserlite'', ''766'', ''1.21.50'', ''3'', ''100'', ''5'', ''cross-play'', ''Survival'', ''1'', ''19132'', ''19133'']" 5]
  by simp

section \<open>Waiting for a server\<close>

lemma buildPing_shape:
  "buildPing t = Some (idUnconnectedPing # be64_bytes (unix_milli t) @ rakNetMagic @ be64_bytes 1)"
proof -
  have m: "length rakNetMagic = 16" by (simp add: rakNetMagic_def)
  have r: "replicate 33 (0 :: u8) = 0 # replicate 8 0 @ replicate 16 0 @ replicate 8 0" by (simp add: numeral_eq_Suc)
  show ?thesis by (simp add: buildPing_def go_simps put_u64_def m overwrite_def r)
qed

text \<open>Attempt \<open>i\<close> of \<open>Wait\<close>.\<close>

abbreviation attempt :: "time option \<Rightarrow> (nat \<Rightarrow> 'e probe_net) \<Rightarrow> nat \<Rightarrow> ('e probe_error + probe_MOTD \<times> int) option" where
  "attempt d net i \<equiv> Probe (within d (pn_now (net i) + 2 * second)) (net i)"

definition waits_until :: "time option \<Rightarrow> (nat \<Rightarrow> 'e probe_net) \<Rightarrow> (nat \<Rightarrow> bool) \<Rightarrow> nat \<Rightarrow> nat \<Rightarrow> bool" where
  "waits_until d net expired k i \<longleftrightarrow> k \<le> i \<and> (\<forall>j. k \<le> j \<and> j < i \<longrightarrow> (\<exists>err. attempt d net j = Some (Inl err)) \<and> \<not> expired j)"

lemma waits_step:
  "waits_until d net expired (Suc k) i \<Longrightarrow> attempt d net k = Some (Inl err) \<Longrightarrow> \<not> expired k \<Longrightarrow> waits_until d net expired k i"
  unfolding waits_until_def by (metis Suc_leD Suc_leI le_neq_implies_less)

lemma waitLoop_reaches: "waits_until d net expired k i \<Longrightarrow> waitLoop d net expired k = waitLoop d net expired i"
proof (induction "i - k" arbitrary: k)
  case 0
  then show ?case by (simp add: waits_until_def)
next
  case (Suc n)
  then have k: "k < i" "waits_until d net expired (Suc k) i" by (auto simp: waits_until_def)
  obtain err where e: "attempt d net k = Some (Inl err)" "\<not> expired k" using Suc.prems k(1) by (auto simp: waits_until_def)
  have "waitLoop d net expired k = waitLoop d net expired (Suc k)" using e by (subst waitLoop.simps) simp
  then show ?case using Suc.hyps k by simp
qed

lemma waitLoop_ends:
  assumes "waitLoop d net expired k = Some r"
  shows "\<exists>i. waits_until d net expired k i \<and>
    (case r of Inr m \<Rightarrow> attempt d net i = Some (Inr m) | Inl _ \<Rightarrow> (\<exists>err. attempt d net i = Some (Inl err)) \<and> expired i)"
proof (rule waitLoop.raw_induct [OF _ assms, where P = "\<lambda>d net expired k r. \<exists>i. waits_until d net expired k i \<and>
    (case r of Inr m \<Rightarrow> attempt d net i = Some (Inr m) | Inl _ \<Rightarrow> (\<exists>err. attempt d net i = Some (Inl err)) \<and> expired i)"], goal_cases)
  case (1 f d net expired k r)
  note IH = 1(1) and eq = 1(2)
  show ?case
  proof (cases "\<exists>err. attempt d net k = Some (Inl err) \<and> \<not> expired k")
    case True
    then obtain err where e: "attempt d net k = Some (Inl err)" "\<not> expired k" by blast
    then have "f d net expired (Suc k) = Some r" using eq by simp
    from IH [OF this] show ?thesis using waits_step [of d net expired k _ err] e by blast
  next
    case False
    then show ?thesis using eq
      by (intro exI [of _ k]) (auto simp: waits_until_def split: option.splits sum.splits if_splits)
  qed
qed

lemma waitLoop_exact:
  "waitLoop d net expired 0 = Some r \<longleftrightarrow> (\<exists>i. waits_until d net expired 0 i \<and>
    (case r of Inr m \<Rightarrow> attempt d net i = Some (Inr m) | Inl _ \<Rightarrow> (\<exists>err. attempt d net i = Some (Inl err)) \<and> expired i))"
proof
  assume "\<exists>i. waits_until d net expired 0 i \<and>
    (case r of Inr m \<Rightarrow> attempt d net i = Some (Inr m) | Inl _ \<Rightarrow> (\<exists>err. attempt d net i = Some (Inl err)) \<and> expired i)"
  then obtain i where i: "waits_until d net expired 0 i"
    and r: "case r of Inr m \<Rightarrow> attempt d net i = Some (Inr m) | Inl _ \<Rightarrow> (\<exists>err. attempt d net i = Some (Inl err)) \<and> expired i" by blast
  have "waitLoop d net expired i = Some r" using r by (subst waitLoop.simps) (auto split: sum.splits simp: unit_eq)
  then show "waitLoop d net expired 0 = Some r" using waitLoop_reaches [OF i] by simp
qed (rule waitLoop_ends)

end
