(* ===== verification/Commands.thy ===== *)
theory Commands
  imports Server Synthetic Supervisor
begin

text \<open>
  The programs around the library: \<^verbatim>\<open>go/cmd/bedrock-probe\<close>, \<^verbatim>\<open>go/cmd/integration-test\<close> and the five
  examples under \<^verbatim>\<open>go/examples\<close>. A program is a function from its parsed flags and its environment to what it
  prints and its exit status. The environment says what the network, the clock and the library answer, and how values
  that are not modelled (error texts, floating point numbers, JSON) are printed. \<open>None\<close> is a run that crashes or
  does not end.
\<close>

datatype printed = Stdout string | Stderr string

definition show_int :: "int \<Rightarrow> string" where
  "show_int n = (if n < 0 then CHR ''-'' # show_nat (nat (- n)) else show_nat (nat n))"

definition println :: "string list \<Rightarrow> string" where
  "println parts = concat parts @ [CHR 0x0A]"

section \<open>bedrock-probe\<close>

text \<open>The flags after \<open>flag.Parse\<close>, and the arguments that follow them.\<close>

record probe_flags =
  bp_addr :: string
  bp_wait :: duration
  bp_json :: bool
  bp_quiet :: bool
  bp_args :: "string list"

record 'e probe_world =
  bw_now :: time
  bw_net :: "string \<Rightarrow> nat \<Rightarrow> 'e probe_net"
  bw_expired :: "duration \<Rightarrow> nat \<Rightarrow> bool"
  bw_probeErr :: "'e probe_error \<Rightarrow> string"
  bw_waitErr :: string
  bw_toJSON :: "probe_MOTD \<times> int \<Rightarrow> string"
  bw_fixed2 :: "int \<Rightarrow> string"

definition maxDuration :: "duration \<Rightarrow> duration \<Rightarrow> duration" where
  "maxDuration a b = (if a > b then a else b)"

definition probe_addr :: "probe_flags \<Rightarrow> string" where
  "probe_addr f = (if bp_addr f = '''' \<and> length (bp_args f) > 0 then bp_args f ! 0 else bp_addr f)"

definition probe_timeout :: "probe_flags \<Rightarrow> duration" where
  "probe_timeout f = maxDuration (3 * second) (int64_wrap (bp_wait f + second))"

text \<open>The call of \<open>Wait\<close> or \<open>Probe\<close>, with the text of the error.\<close>

definition probe_call :: "probe_flags \<Rightarrow> 'e probe_world \<Rightarrow> (string + probe_MOTD \<times> int) option" where
  "probe_call f w =
     (let addr = probe_addr f; deadline = Some (bw_now w + probe_timeout f) in
      if bp_wait f > 0
      then map_option (map_sum (\<lambda>_. bw_waitErr w) id) (waitLoop deadline (bw_net w addr) (bw_expired w (probe_timeout f)) 0)
      else map_option (map_sum (bw_probeErr w) id) (Probe deadline (bw_net w addr 0)))"

definition probe_report :: "'e probe_world \<Rightarrow> string \<Rightarrow> probe_MOTD \<times> int \<Rightarrow> printed list" where
  "probe_report w addr = (\<lambda>(motd, rtt).
     [Stdout (println [''addr        '', addr]),
      Stdout (println [''edition     '', mo_Edition motd]),
      Stdout (println [''motd        '', mo_Line1 motd]),
      Stdout (println [''sub         '', mo_Line2 motd]),
      Stdout (println [''version     '', mo_GameVersion motd, '' (protocol '', show_int (mo_ProtocolVer motd), '')'']),
      Stdout (println [''players     '', show_int (mo_Players motd), '' / '', show_int (mo_MaxPlayers motd)]),
      Stdout (println [''rtt         '', bw_fixed2 w rtt, '' ms''])])"

definition probe_main :: "probe_flags \<Rightarrow> 'e probe_world \<Rightarrow> (int \<times> printed list) option" where
  "probe_main f w =
     (if probe_addr f = '''' then Some (2, [Stderr (println [''bedrock-probe: missing -addr''])])
      else
        (case probe_call f w of
           None \<Rightarrow> None
         | Some (Inl err) \<Rightarrow> Some (1, [Stderr (println [''bedrock-probe: '', err])])
         | Some (Inr motd) \<Rightarrow>
             if bp_quiet f then Some (0, [])
             else if bp_json f then Some (0, [Stdout (bw_toJSON w motd)])
             else Some (0, probe_report w (probe_addr f) motd)))"

section \<open>integration-test\<close>

record test_flags =
  it_listen :: string
  it_upstream :: string
  it_timeout :: duration
  it_mode :: string

text \<open>
  What the test meets: the resolution of the address, the clock at each turn of the loop, what binding the address
  returns there (the text of the error), and whether the server has returned within the pause, with which error.
\<close>

record test_world =
  iw_now :: time
  iw_resolve :: "string \<Rightarrow> string option"
  iw_clock :: "nat \<Rightarrow> time"
  iw_bind :: "nat \<Rightarrow> string option"
  iw_exited :: "nat \<Rightarrow> string option"

text \<open>\<open>strings.Contains\<close>.\<close>

fun Contains :: "string \<Rightarrow> string \<Rightarrow> bool" where
  "Contains [] sub \<longleftrightarrow> sub = []"
| "Contains (c # s) sub \<longleftrightarrow> HasPrefix (c # s) sub \<or> Contains s sub"

definition isUDPBound :: "string option \<Rightarrow> bool" where
  "isUDPBound err =
     (case err of
        None \<Rightarrow> False
      | Some e \<Rightarrow> (let msg = ToLower e in Contains msg ''address already in use'' \<or> Contains msg ''addrinuse''))"

definition fail :: "string list \<Rightarrow> int \<times> printed list" where
  "fail msg = (1, [Stderr (println (''integration-test: '' # msg))])"

partial_function (option) bindLoop ::
    "test_flags \<Rightarrow> test_world \<Rightarrow> (duration \<Rightarrow> string) \<Rightarrow> time \<Rightarrow> nat \<Rightarrow> (int \<times> printed list) option" where
  "bindLoop f w showDuration deadline i =
     (if iw_clock w i < deadline
      then
        (if isUDPBound (iw_bind w i) then Some (0, [Stderr (println [''OK: '', it_listen f, '' is bound''])])
         else case iw_exited w i of
           Some err \<Rightarrow> Some (fail [''server exited before bind: '', err])
         | None \<Rightarrow> bindLoop f w showDuration deadline (Suc i))
      else Some (fail [''timed out waiting for '', it_listen f, '' to bind after '', showDuration (it_timeout f)]))"

definition test_options :: "'l \<Rightarrow> test_flags \<Rightarrow> Mode \<Rightarrow> ('l, 'o) Options" where
  "test_options logger f mode =
     \<lparr>op_Listen = it_listen f, op_Upstream = it_upstream f, op_AuthType = Offline, op_FloodgateKey = [],
      op_MOTD = \<lparr>motd_Line1 = '''', motd_Line2 = ''''\<rparr>, op_Mode = mode, op_LibraryPath = '''', op_BinaryPath = '''',
      op_JVMArgs = None, op_Logger = Some logger, op_RestartPolicy = None, op_ShutdownTimeout = 0, op_Version = '''',
      op_Mirror = '''', op_Offline = False, op_ConfigOverrides = []\<rparr>"

definition test_main ::
    "'l \<Rightarrow> 'l \<Rightarrow> (sentinel \<Rightarrow> string) \<Rightarrow> (duration \<Rightarrow> string) \<Rightarrow> (string \<Rightarrow> string) \<Rightarrow> test_flags \<Rightarrow> test_world \<Rightarrow>
      (int \<times> printed list) option" where
  "test_main slog_Default logger showErr showDuration quote f w =
     (let launch = (\<lambda>runMode.
        case server_New slog_Default (test_options logger f runMode :: (_, unit) Options) of
          Inl err \<Rightarrow> Some (fail [''New: '', showErr err])
        | Inr (_ :: (_, _, unit) Server) \<Rightarrow>
            (case iw_resolve w (it_listen f) of
               Some err \<Rightarrow> Some (fail [''resolve: '', err])
             | None \<Rightarrow> bindLoop f w showDuration (iw_now w + it_timeout f) 0))
      in if it_mode f = ''embedded'' then launch ModeEmbedded
         else if it_mode f = ''subprocess'' then launch ModeSubprocess
         else Some (fail [''unknown -mode '', quote (it_mode f), '' (want embedded|subprocess)'']))"

section \<open>encoding/base64\<close>

text \<open>
  \<open>StdEncoding.DecodeString\<close>: line breaks are skipped, quanta of four characters, padding only in the last one, whose
  unused bits are ignored.
\<close>

definition b64_val :: "char \<Rightarrow> nat option" where
  "b64_val c =
     (let n = of_char c in
      if 65 \<le> n \<and> n \<le> 90 then Some (n - 65)
      else if 97 \<le> n \<and> n \<le> 122 then Some (n - 71)
      else if 48 \<le> n \<and> n \<le> 57 then Some (n + 4)
      else if c = CHR ''+'' then Some 62
      else if c = CHR ''/'' then Some 63
      else None)"

fun base64Quanta :: "string \<Rightarrow> bytes option" where
  "base64Quanta [] = Some []"
| "base64Quanta (a # b # c # d # rest) =
     (case (b64_val a, b64_val b) of
        (Some x, Some y) \<Rightarrow>
          if c = CHR ''='' then (if d = CHR ''='' \<and> rest = [] then Some [of_nat (4 * x + y div 16)] else None)
          else (case b64_val c of
            None \<Rightarrow> None
          | Some z \<Rightarrow>
              if d = CHR ''='' then (if rest = [] then Some [of_nat (4 * x + y div 16), of_nat (16 * (y mod 16) + z div 4)] else None)
              else (case b64_val d of
                None \<Rightarrow> None
              | Some v \<Rightarrow> map_option (\<lambda>bs. [of_nat (4 * x + y div 16), of_nat (16 * (y mod 16) + z div 4), of_nat (64 * (z mod 4) + v)] @ bs)
                  (base64Quanta rest)))
      | _ \<Rightarrow> None)"
| "base64Quanta _ = None"

definition base64Decode :: "string \<Rightarrow> bytes option" where
  "base64Decode s = base64Quanta (filter (\<lambda>c. c \<noteq> CHR 0x0A \<and> c \<noteq> CHR 0x0D) s)"

section \<open>The examples\<close>

text \<open>The composite literals of the examples: fields that are not named are zero.\<close>

definition zero_options :: "('l, 'o) Options" where
  "zero_options =
     \<lparr>op_Listen = '''', op_Upstream = '''', op_AuthType = Floodgate, op_FloodgateKey = [],
      op_MOTD = \<lparr>motd_Line1 = '''', motd_Line2 = ''''\<rparr>, op_Mode = ModeEmbedded, op_LibraryPath = '''', op_BinaryPath = '''',
      op_JVMArgs = None, op_Logger = None, op_RestartPolicy = None, op_ShutdownTimeout = 0, op_Version = '''',
      op_Mirror = '''', op_Offline = False, op_ConfigOverrides = []\<rparr>"

text \<open>Why an example stops before it runs the server.\<close>

datatype 'e example_error = KeyFileUnset | KeyUnset | ReadKey 'e | KeyLength nat | DecodeKey | NewFailed sentinel

definition basic_options :: "'l \<Rightarrow> ('l, 'o) Options" where
  "basic_options logger = zero_options\<lparr>op_Listen := '':19132'', op_Upstream := ''127.0.0.1:25565'', op_AuthType := Offline, op_Logger := Some logger\<rparr>"

definition custom_jvmArgs :: "string list" where
  "custom_jvmArgs =
    [''-Xmx256m'',
     ''-XX:MaxHeapFree=16m'',
     ''-XX:+CollectYoungGenerationSeparately'',
     ''-Dio.netty.maxDirectMemory=64m'',
     ''-XX:MaxDirectMemorySize=64m'',
     ''-Dio.netty.allocator.type=pooled'',
     ''-Dio.netty.allocator.numHeapArenas=4'',
     ''-Dio.netty.allocator.numDirectArenas=4'',
     ''-Dio.netty.eventLoopThreads=8'',
     ''-Dlog4j2.disableJmx=true'']"

text \<open>The error of the key generator is dropped: the key is nil then.\<close>

definition generated_key :: "(nat \<Rightarrow> 'e + bytes) \<Rightarrow> bytes" where
  "generated_key rand = (case GenerateFloodgateKey rand of Inl _ \<Rightarrow> [] | Inr key \<Rightarrow> key)"

definition custom_options :: "(nat \<Rightarrow> 'e + bytes) \<Rightarrow> 'l \<Rightarrow> ('l, 'o) Options" where
  "custom_options rand logger = zero_options
     \<lparr>op_Upstream := ''127.0.0.1:25567'', op_AuthType := Floodgate, op_FloodgateKey := generated_key rand,
      op_JVMArgs := Some custom_jvmArgs,
      op_RestartPolicy := Some \<lparr>rp_MinBackoff = 500 * millisecond, rp_MaxBackoff = 30 * second, rp_MaxRetries = 0\<rparr>,
      op_ShutdownTimeout := 60 * second, op_Logger := Some logger, op_Mode := ModeSubprocess\<rparr>"

definition floodgate_options :: "env \<Rightarrow> (string \<Rightarrow> 'e + bytes) \<Rightarrow> 'l \<Rightarrow> 'e example_error + ('l, 'o) Options" where
  "floodgate_options getenv readFile logger =
     (let keyPath = getenv ''FLOODGATE_KEY_FILE'' in
      if keyPath = '''' then Inl KeyFileUnset
      else case readFile keyPath of
        Inl err \<Rightarrow> Inl (ReadKey err)
      | Inr key \<Rightarrow>
          if length key \<noteq> 16 then Inl (KeyLength (length key))
          else Inr (zero_options
            \<lparr>op_Listen := '':19132'', op_Upstream := ''gate.internal:25567'', op_AuthType := Floodgate, op_FloodgateKey := key,
             op_MOTD := \<lparr>motd_Line1 = ''minekube'', motd_Line2 = ''cross-play''\<rparr>, op_Logger := Some logger\<rparr>))"

text \<open>A slice of strings is no map and no scalar: \<open>strings\<close> embeds it into the values of an override.\<close>

definition fly_overrides :: "(string list \<Rightarrow> 'o) \<Rightarrow> env \<Rightarrow> (string \<times> 'o yaml) list" where
  "fly_overrides strings getenv =
     (let advertised = getenv ''GEYSERLITE_ADVERTISE_ADDRESS'' in
      if advertised \<noteq> ''''
      then [(''bedrock'', YMap
              [(''transport'', YStr ''both''), (''webrtc-port'', YInt 19133),
               (''signaling'', YMap
                  [(''mode'', YStr ''builtin''), (''advertise-addresses'', YOther (strings [advertised])),
                   (''stun-discovery'', YBool False)])])]
      else [])"

definition fly_options :: "(string list \<Rightarrow> 'o) \<Rightarrow> env \<Rightarrow> 'l \<Rightarrow> 'e example_error + ('l, 'o) Options" where
  "fly_options strings getenv logger =
     (let listen = FlyGlobalServices getenv @ '':19132'';
          keyB64 = getenv ''FLOODGATE_KEY_BASE64''
      in if keyB64 = '''' then Inl KeyUnset
         else case base64Decode keyB64 of
           None \<Rightarrow> Inl DecodeKey
         | Some key \<Rightarrow> Inr (zero_options
             \<lparr>op_Listen := listen, op_Upstream := ''127.0.0.1:25567'', op_AuthType := Floodgate, op_FloodgateKey := key,
              op_ConfigOverrides := fly_overrides strings getenv, op_Logger := Some logger\<rparr>))"

definition healthcheck_options :: "(nat \<Rightarrow> 'e + bytes) \<Rightarrow> 'l \<Rightarrow> ('l, 'o) Options" where
  "healthcheck_options rand logger = zero_options
     \<lparr>op_Upstream := ''127.0.0.1:25567'', op_AuthType := Floodgate, op_FloodgateKey := generated_key rand, op_Logger := Some logger\<rparr>"

text \<open>\<open>New\<close> and \<open>Start\<close>, as every example but the last calls them; \<open>log.Fatal\<close> exits with status 1.\<close>

definition example_New :: "'l \<Rightarrow> 'e example_error + ('l, 'o) Options \<Rightarrow> 'e example_error + ('l, 'o, 'x) Server" where
  "example_New slog_Default opts =
     (case opts of
        Inl err \<Rightarrow> Inl err
      | Inr opts \<Rightarrow> (case server_New slog_Default opts of Inl err \<Rightarrow> Inl (NewFailed err) | Inr srv \<Rightarrow> Inr srv))"

definition example_main :: "'l \<Rightarrow> 'e example_error + ('l, 'o) Options \<Rightarrow> (('l, 'o, 'x) Server \<Rightarrow> 'x option) \<Rightarrow> int" where
  "example_main slog_Default opts start =
     (case example_New slog_Default opts of
        Inl _ \<Rightarrow> 1
      | Inr srv \<Rightarrow> (case start srv of Some _ \<Rightarrow> 1 | None \<Rightarrow> 0))"

text \<open>The two handlers of the health check: status and body.\<close>

definition healthz :: "bool \<Rightarrow> ('l, 'o, 'x) Server \<Rightarrow> nat \<times> string" where
  "healthz runner_healthy srv =
     (if \<not> Healthy runner_healthy srv then (503, println [''geyser not ready'']) else (200, println [''ok'']))"

definition readyz :: "bool \<Rightarrow> ('l, 'o, 'x) Server \<Rightarrow> nat \<times> string" where
  "readyz runner_healthy srv =
     (if \<not> Healthy runner_healthy srv then (503, println [''not ready'']) else (200, ''''))"

text \<open>
  The goroutine of the HTTP server, which returns when \<open>ListenAndServe\<close> does (\<open>None\<close> is
  \<open>http.ErrServerClosed\<close> or nil), and \<open>main\<close>: the select receives the signal or the result of
  \<open>Start\<close>, the HTTP server is shut down, its error is dropped and main returns. The last component
  of the result says whether the result of \<open>Start\<close> has been received by then.
\<close>

datatype 'x healthcheck_event = ShutdownSignal | GeyserDone "'x option"

definition healthcheck_serve :: "string option \<Rightarrow> printed list" where
  "healthcheck_serve err = (case err of None \<Rightarrow> [] | Some e \<Rightarrow> [Stderr (println [''healthcheck http: '', e])])"

definition healthcheck_main ::
    "'l \<Rightarrow> (nat \<Rightarrow> 'e + bytes) \<Rightarrow> 'l \<Rightarrow> ('x option \<Rightarrow> string) \<Rightarrow> (sentinel \<Rightarrow> string) \<Rightarrow>
      (('l, 'o, 'x) Server \<Rightarrow> 'x healthcheck_event) \<Rightarrow> int \<times> printed list \<times> bool" where
  "healthcheck_main slog_Default rand logger showErr showNew select =
     (case server_New slog_Default (healthcheck_options rand logger) of
        Inl err \<Rightarrow> (1, [Stderr (println [showNew err])], False)
      | Inr srv \<Rightarrow>
          (case select srv of
             ShutdownSignal \<Rightarrow> (0, [Stderr (println [''shutdown signal received''])], False)
           | GeyserDone err \<Rightarrow> (0, [Stderr (println [''geyser exited: '', showErr err])], True)))"

section \<open>The exit status of bedrock-probe\<close>

lemma waitLoop_returns:
  assumes "\<And>i. attempt d net i \<noteq> None" "\<exists>i. expired i"
  shows "waitLoop d net expired 0 \<noteq> None"
proof -
  define ends where "ends i \<longleftrightarrow> expired i \<or> (\<exists>m. attempt d net i = Some (Inr m))" for i
  define k where "k = (LEAST i. ends i)"
  have "\<exists>i. ends i" using assms(2) by (auto simp: ends_def)
  then have k: "ends k" unfolding k_def by (rule LeastI_ex)
  have "(\<exists>err. attempt d net j = Some (Inl err)) \<and> \<not> expired j" if "j < k" for j
  proof -
    have "\<not> ends j" using that not_less_Least by (simp add: k_def)
    moreover obtain r where "attempt d net j = Some r" using assms(1) [of j] by auto
    ultimately show ?thesis by (cases r) (auto simp: ends_def)
  qed
  then have "waits_until d net expired 0 k" by (simp add: waits_until_def)
  then have "waitLoop d net expired 0 = waitLoop d net expired k" by (rule waitLoop_reaches)
  moreover have "waitLoop d net expired k \<noteq> None"
    using k assms(1) [of k] by (subst waitLoop.simps) (auto simp: ends_def split: sum.split)
  ultimately show ?thesis by simp
qed

text \<open>A server answers the command: the only probe, or with \<open>-wait\<close> one of the attempts before the context ends.\<close>

definition answers :: "probe_flags \<Rightarrow> 'e probe_world \<Rightarrow> bool" where
  "answers f w \<longleftrightarrow>
     (let d = Some (bw_now w + probe_timeout f); net = bw_net w (probe_addr f) in
      if bp_wait f > 0
      then (\<exists>i m. waits_until d net (bw_expired w (probe_timeout f)) 0 i \<and> attempt d net i = Some (Inr m))
      else (\<exists>m. Probe d (net 0) = Some (Inr m)))"

text \<open>No probe crashes, and with \<open>-wait\<close> the context ends some day.\<close>

definition probes_return :: "probe_flags \<Rightarrow> 'e probe_world \<Rightarrow> bool" where
  "probes_return f w \<longleftrightarrow>
     (\<forall>d i. Probe d (bw_net w (probe_addr f) i) \<noteq> None) \<and> (bp_wait f > 0 \<longrightarrow> (\<exists>i. bw_expired w (probe_timeout f) i))"

lemma probe_call_answers:
  assumes "probe_call f w = Some r"
  shows "answers f w \<longleftrightarrow> (\<exists>m. r = Inr m)"
proof -
  define d where "d = Some (bw_now w + probe_timeout f)"
  define net where "net = bw_net w (probe_addr f)"
  define ex where "ex = bw_expired w (probe_timeout f)"
  show ?thesis
  proof (cases "bp_wait f > 0")
    case True
    then obtain q where q: "waitLoop d net ex 0 = Some q" "r = map_sum (\<lambda>_. bw_waitErr w) id q"
      using assms by (auto simp: probe_call_def d_def net_def ex_def Let_def)
    have "answers f w \<longleftrightarrow> (\<exists>m. waitLoop d net ex 0 = Some (Inr m))"
      unfolding answers_def Let_def d_def [symmetric] net_def [symmetric] ex_def [symmetric] waitLoop_exact using True by auto
    then show ?thesis using q by (cases q) auto
  next
    case False
    then obtain q where "Probe d (net 0) = Some q" "r = map_sum (bw_probeErr w) id q"
      using assms by (auto simp: probe_call_def d_def net_def Let_def)
    then show ?thesis using False by (cases q) (auto simp: answers_def d_def net_def Let_def)
  qed
qed

lemma probe_call_returns: "probes_return f w \<Longrightarrow> probe_call f w \<noteq> None"
  using waitLoop_returns [of "Some (bw_now w + probe_timeout f)" "bw_net w (probe_addr f)" "bw_expired w (probe_timeout f)"]
  by (auto simp: probe_call_def probes_return_def Let_def)

text \<open>
  The exit status of the probe command says whether a server answered. If no probe crashes and, with \<open>-wait\<close>, the
  context ends, the command ends: with status 0 exactly when an address is given and the probe, or
  with \<open>-wait\<close> the first successful attempt before the context ends, got a pong that parses; with
  status 2 exactly when no address is given; with status 1 otherwise. It prints to standard output
  only on success, nothing at all with \<open>-quiet\<close>, and one line to standard error on failure.
\<close>

theorem probe_exit_exact:
  assumes "probes_return f w"
  shows "\<exists>code out. probe_main f w = Some (code, out) \<and>
    code = (if probe_addr f = '''' then 2 else if answers f w then 0 else 1) \<and>
    (if code = 0 then (\<forall>x\<in>set out. \<exists>s. x = Stdout s) \<and> (out = [] \<longleftrightarrow> bp_quiet f) else (\<exists>s. out = [Stderr s]))"
proof (cases "probe_addr f = ''''")
  case True
  then show ?thesis by (simp add: probe_main_def)
next
  case False
  obtain r where r: "probe_call f w = Some r" using probe_call_returns [OF assms] by auto
  note a = probe_call_answers [OF r]
  show ?thesis
  proof (cases r)
    case (Inl err)
    then show ?thesis using False r a by (simp add: probe_main_def)
  next
    case (Inr m)
    have "\<forall>x\<in>set (probe_report w (probe_addr f) m). \<exists>s. x = Stdout s" "probe_report w (probe_addr f) m \<noteq> []"
      by (auto simp: probe_report_def split: prod.split)
    then show ?thesis using Inr False r a by (auto simp: probe_main_def)
  qed
qed

definition demo_net :: "unit probe_net" where
  "demo_net = \<lparr>pn_now = 0, pn_dial = (\<lambda>_. None), pn_write = (\<lambda>_. None),
     pn_read = Inl (), pn_rtt = 0\<rparr>"

definition demo_probe :: probe_flags where
  "demo_probe = \<lparr>bp_addr = '''', bp_wait = 2 * second, bp_json = False, bp_quiet = True, bp_args = [''127.0.0.1:19132'']\<rparr>"

definition demo_probe_world :: "unit probe_world" where
  "demo_probe_world = \<lparr>bw_now = 0, bw_net = (\<lambda>_ _. demo_net), bw_expired = (\<lambda>_ i. 2 \<le> i), bw_probeErr = (\<lambda>_. ''''),
     bw_waitErr = ''synthetic: wait timed out'', bw_toJSON = (\<lambda>_. ''''), bw_fixed2 = (\<lambda>_. '''')\<rparr>"

theorem probe_exit_exact_witness:
  "\<exists>code out. probe_main demo_probe demo_probe_world = Some (code, out) \<and> code = 1 \<and> (\<exists>s. out = [Stderr s])"
proof -
  have p: "Probe d demo_net = Some (Inl (ReadPong ()))" for d by (simp add: Probe_def demo_net_def buildPing_shape)
  have r: "probes_return demo_probe demo_probe_world"
    unfolding probes_return_def by (auto simp: demo_probe_world_def p)
  have a: "\<not> answers demo_probe demo_probe_world" "probe_addr demo_probe \<noteq> ''''"
    by (simp_all add: answers_def demo_probe_world_def p demo_probe_def probe_addr_def Let_def)
  from probe_exit_exact [OF r] a show ?thesis by auto
qed

section \<open>The exit status of integration-test\<close>

text \<open>
  The loop returns when the clock reaches the deadline, or before. It reports success exactly when the address is
  found taken at some turn before the deadline, with the server still running at all turns before.
\<close>

lemma bindLoop_step:
  assumes "iw_clock w i < deadline" "\<not> isUDPBound (iw_bind w i)" "iw_exited w i = None"
  shows "bindLoop f w sd deadline i = bindLoop f w sd deadline (Suc i)"
  using assms by (subst bindLoop.simps) simp

lemma bindLoop_exact:
  assumes "\<exists>i. deadline \<le> iw_clock w i"
  defines "go j \<equiv> iw_clock w j < deadline \<and> \<not> isUDPBound (iw_bind w j) \<and> iw_exited w j = None"
  shows "\<exists>k. (\<forall>j<k. go j) \<and> \<not> go k \<and> bindLoop f w sd deadline 0 = Some
    (if deadline \<le> iw_clock w k then fail [''timed out waiting for '', it_listen f, '' to bind after '', sd (it_timeout f)]
     else if isUDPBound (iw_bind w k) then (0, [Stderr (println [''OK: '', it_listen f, '' is bound''])])
     else fail [''server exited before bind: '', the (iw_exited w k)])"
proof -
  define k where "k = (LEAST j. \<not> go j)"
  have "\<exists>j. \<not> go j" using assms(1) by (auto simp: go_def not_less)
  then have k: "\<not> go k" unfolding k_def by (rule LeastI_ex)
  have j: "go j" if "j < k" for j using that not_less_Least by (auto simp: k_def)
  have "bindLoop f w sd deadline 0 = bindLoop f w sd deadline j" if "j \<le> k" for j
    using that
  proof (induction j)
    case (Suc j)
    then have "go j" using j by simp
    then show ?case using Suc bindLoop_step [of w j deadline f sd] by (simp add: go_def)
  qed simp
  then have "bindLoop f w sd deadline 0 = bindLoop f w sd deadline k" by simp
  moreover have "bindLoop f w sd deadline k = Some
      (if deadline \<le> iw_clock w k then fail [''timed out waiting for '', it_listen f, '' to bind after '', sd (it_timeout f)]
       else if isUDPBound (iw_bind w k) then (0, [Stderr (println [''OK: '', it_listen f, '' is bound''])])
       else fail [''server exited before bind: '', the (iw_exited w k)])"
    using k by (subst bindLoop.simps) (auto simp: go_def)
  ultimately show ?thesis using k j by auto
qed

lemma integration_exit_exact:
  assumes "\<exists>i. iw_now w + it_timeout f \<le> iw_clock w i"
  defines "go j \<equiv> iw_clock w j < iw_now w + it_timeout f \<and> \<not> isUDPBound (iw_bind w j) \<and> iw_exited w j = None"
  shows "\<exists>code out. test_main lg logger showErr sd quote f w = Some (code, out) \<and> code \<in> {0, 1} \<and>
    (code = 0 \<longleftrightarrow> it_mode f \<in> {''embedded'', ''subprocess''} \<and> it_upstream f \<noteq> '''' \<and> iw_resolve w (it_listen f) = None \<and>
      (\<exists>k. (\<forall>j<k. go j) \<and> iw_clock w k < iw_now w + it_timeout f \<and> isUDPBound (iw_bind w k)))"
proof -
  obtain k where k: "\<forall>j<k. go j" "\<not> go k" and r: "bindLoop f w sd (iw_now w + it_timeout f) 0 = Some
    (if iw_now w + it_timeout f \<le> iw_clock w k then fail [''timed out waiting for '', it_listen f, '' to bind after '', sd (it_timeout f)]
     else if isUDPBound (iw_bind w k) then (0, [Stderr (println [''OK: '', it_listen f, '' is bound''])])
     else fail [''server exited before bind: '', the (iw_exited w k)])"
    using bindLoop_exact [OF assms(1), of f sd] unfolding go_def by blast
  have u: "k' = k" if "\<forall>j<k'. go j" "\<not> go k'" for k' using that k by (metis linorder_neqE_nat)
  have b: "(\<exists>k. (\<forall>j<k. go j) \<and> iw_clock w k < iw_now w + it_timeout f \<and> isUDPBound (iw_bind w k)) \<longleftrightarrow>
      iw_clock w k < iw_now w + it_timeout f \<and> isUDPBound (iw_bind w k)"
    using u k unfolding go_def by blast
  have v: "server_New lg (test_options logger f m :: (_, unit) Options) = (Inl ErrUpstreamRequired :: _ + (_, _, unit) Server)" if "it_upstream f = ''''" for m
    using that by (simp add: server_New_def validate_eq test_options_def)
  have s: "\<exists>s :: (_, _, unit) Server. server_New lg (test_options logger f m :: (_, unit) Options) = Inr s" if "it_upstream f \<noteq> ''''" for m
    using that by (simp add: server_New_def validate_eq test_options_def)
  show ?thesis
  proof (cases "it_mode f \<in> {''embedded'', ''subprocess''} \<and> it_upstream f \<noteq> '''' \<and> iw_resolve w (it_listen f) = None")
    case True
    then have "test_main lg logger showErr sd quote f w = bindLoop f w sd (iw_now w + it_timeout f) 0"
      using s [of ModeEmbedded] s [of ModeSubprocess] by (auto simp: test_main_def Let_def)
    then show ?thesis using True r b by (auto simp: fail_def)
  next
    case False
    then have "\<exists>msg. test_main lg logger showErr sd quote f w = Some (fail msg)"
      using s [of ModeEmbedded] s [of ModeSubprocess] v
      by (cases "it_upstream f = ''''") (auto simp: test_main_def Let_def split: option.split)
    then show ?thesis using False by (auto simp: fail_def)
  qed
qed

section \<open>Keys in base64\<close>

text \<open>What \<^verbatim>\<open>base64 < key.bin\<close> prints, up to line breaks.\<close>

definition b64_char :: "nat \<Rightarrow> char" where
  "b64_char n =
     (if n < 26 then char_of (n + 65) else if n < 52 then char_of (n + 71) else if n < 62 then char_of (n - 4)
      else if n = 62 then CHR ''+'' else CHR ''/'')"

fun base64Encode :: "bytes \<Rightarrow> string" where
  "base64Encode [] = []"
| "base64Encode [a] = [b64_char (unat a div 4), b64_char (16 * (unat a mod 4)), CHR ''='', CHR ''='']"
| "base64Encode [a, b] =
     [b64_char (unat a div 4), b64_char (16 * (unat a mod 4) + unat b div 16), b64_char (4 * (unat b mod 16)), CHR ''='']"
| "base64Encode (a # b # c # rest) =
     [b64_char (unat a div 4), b64_char (16 * (unat a mod 4) + unat b div 16), b64_char (4 * (unat b mod 16) + unat c div 64),
      b64_char (unat c mod 64)] @ base64Encode rest"

lemma b64_val_char: "n < 64 \<Longrightarrow> b64_val (b64_char n) = Some n"
  by (auto simp: b64_char_def b64_val_def Let_def)

lemma b64_char_range: "b64_char n \<noteq> CHR ''=''" "b64_char n \<noteq> CHR 0x0A" "b64_char n \<noteq> CHR 0x0D"
proof -
  have "b64_val (b64_char n) \<noteq> None"
    by (cases "n < 64") (simp_all add: b64_val_char, simp add: b64_char_def b64_val_def)
  moreover have "b64_val CHR ''='' = None" "b64_val CHR 0x0A = None" "b64_val CHR 0x0D = None" by (simp_all add: b64_val_def)
  ultimately show "b64_char n \<noteq> CHR ''=''" "b64_char n \<noteq> CHR 0x0A" "b64_char n \<noteq> CHR 0x0D" by metis+
qed

lemma b64_join:
  fixes a b c :: u8
  shows "4 * (unat a div 4) + (16 * (unat a mod 4) + unat b div 16) div 16 = unat a"
    "16 * ((16 * (unat a mod 4) + unat b div 16) mod 16) + (4 * (unat b mod 16) + unat c div 64) div 4 = unat b"
    "16 * ((16 * (unat a mod 4) + unat b div 16) mod 16) + (4 * (unat b mod 16)) div 4 = unat b"
    "64 * ((4 * (unat b mod 16) + unat c div 64) mod 4) + unat c mod 64 = unat c"
proof -
  have b: "unat b div 16 < 16" "unat c div 64 < 4" using unat_u8_lt [of b] unat_u8_lt [of c] by linarith+
  then show "4 * (unat a div 4) + (16 * (unat a mod 4) + unat b div 16) div 16 = unat a"
    "16 * ((16 * (unat a mod 4) + unat b div 16) mod 16) + (4 * (unat b mod 16) + unat c div 64) div 4 = unat b"
    "16 * ((16 * (unat a mod 4) + unat b div 16) mod 16) + (4 * (unat b mod 16)) div 4 = unat b"
    "64 * ((4 * (unat b mod 16) + unat c div 64) mod 4) + unat c mod 64 = unat c"
    by simp_all
qed

lemma b64_bytes:
  fixes a b c :: u8
  shows "unat a div 4 < 64" "16 * (unat a mod 4) + unat b div 16 < 64" "16 * (unat a mod 4) < 64"
    "4 * (unat b mod 16) + unat c div 64 < 64" "4 * (unat b mod 16) < 64" "unat c mod 64 < 64"
  using unat_u8_lt [of a] unat_u8_lt [of b] unat_u8_lt [of c] by linarith+

lemma base64Quanta_Encode: "base64Quanta (base64Encode bs) = Some bs"
proof (induction bs rule: base64Encode.induct)
  case (2 a)
  have "4 * (unat a div 4) + 16 * (unat a mod 4) div 16 = unat a" by simp
  then show ?case by (simp add: b64_val_char b64_bytes b64_char_range)
next
  case (3 a b)
  then show ?case using b64_join(1,3) [of a b] by (simp add: b64_val_char b64_bytes b64_char_range)
next
  case (4 a b c rest)
  then show ?case using b64_join(1) [of a b] b64_join(2) [of a b c] b64_join(4) [of b c] by (simp add: b64_val_char b64_bytes b64_char_range)
qed simp

lemma base64Encode_no_break: "c \<in> set (base64Encode bs) \<Longrightarrow> c \<noteq> CHR 0x0A \<and> c \<noteq> CHR 0x0D"
  by (induction bs rule: base64Encode.induct) (auto simp: b64_char_range dest: sym)

text \<open>Line breaks anywhere do not matter.\<close>

definition unbroken :: "string \<Rightarrow> string" where
  "unbroken s = filter (\<lambda>c. c \<noteq> CHR 0x0A \<and> c \<noteq> CHR 0x0D) s"

lemma base64Decode_Encode: "unbroken s = base64Encode bs \<Longrightarrow> base64Decode s = Some bs"
  by (simp add: base64Decode_def unbroken_def base64Quanta_Encode)

section \<open>The examples start\<close>

lemma example_New_Inl: "example_New lg (Inl err) = Inl err"
  by (simp add: example_New_def)

lemma example_New_Inr:
  "example_New lg (Inr opts) = Inr srv \<longleftrightarrow> op_Upstream opts \<noteq> '''' \<and>
     (op_AuthType opts = Floodgate \<longrightarrow> length (op_FloodgateKey opts) = 16) \<and> server_New lg opts = Inr srv"
  by (auto simp: example_New_def server_New_def validate_eq split: sum.splits if_splits)

lemma server_New_valid:
  assumes "op_Upstream opts \<noteq> ''''" "op_AuthType opts = Floodgate \<longrightarrow> length (op_FloodgateKey opts) = 16"
  shows "\<exists>srv. server_New lg opts = Inr srv \<and> sv_opts srv = default_opts lg opts \<and>
    sv_runner srv = (if op_Mode opts = ModeSubprocess then SubprocessRunner else EmbeddedRunner)"
  using assms by (simp add: server_New_def validate_eq default_opts_def split: Mode.split)

lemma server_New_starts:
  "(\<exists>srv. server_New lg opts = Inr srv) \<longleftrightarrow>
     op_Upstream opts \<noteq> '''' \<and> (op_AuthType opts = Floodgate \<longrightarrow> length (op_FloodgateKey opts) = 16)"
  using server_New_valid [of opts lg] by (auto simp: server_New_def validate_eq split: if_splits)

lemma example_starts:
  "(\<exists>srv. example_New lg (Inr opts) = Inr srv) \<longleftrightarrow>
     op_Upstream opts \<noteq> '''' \<and> (op_AuthType opts = Floodgate \<longrightarrow> length (op_FloodgateKey opts) = 16)"
  using server_New_valid [of opts lg] by (auto simp: example_New_Inr)

lemmas example_defs = basic_options_def custom_options_def healthcheck_options_def zero_options_def generated_key_def GenerateFloodgateKey_def

lemma floodgate_starts:
  "(\<exists>srv. example_New lg (floodgate_options getenv readFile logger) = Inr srv) \<longleftrightarrow>
     getenv ''FLOODGATE_KEY_FILE'' \<noteq> '''' \<and> (\<exists>key. readFile (getenv ''FLOODGATE_KEY_FILE'') = Inr key \<and> length key = 16)"
  by (cases "getenv ''FLOODGATE_KEY_FILE'' = ''''"; cases "readFile (getenv ''FLOODGATE_KEY_FILE'')")
    (simp_all add: floodgate_options_def example_New_Inl example_starts zero_options_def)

lemma fly_starts:
  assumes "length key = 16" "unbroken (getenv ''FLOODGATE_KEY_BASE64'') = base64Encode key"
  shows "\<exists>srv. example_New lg (fly_options strings getenv logger) = Inr srv \<and> op_FloodgateKey (sv_opts srv) = key \<and>
    op_Listen (sv_opts srv) = (if getenv ''FLY_APP_NAME'' = '''' then ''0.0.0.0:19132'' else ''fly-global-services:19132'')"
proof -
  have d: "base64Decode (getenv ''FLOODGATE_KEY_BASE64'') = Some key" by (rule base64Decode_Encode [OF assms(2)])
  then have "getenv ''FLOODGATE_KEY_BASE64'' \<noteq> ''''" using assms(1) by (auto simp: base64Decode_def)
  then have o: "fly_options strings getenv logger = Inr (zero_options
      \<lparr>op_Listen := FlyGlobalServices getenv @ '':19132'', op_Upstream := ''127.0.0.1:25567'', op_AuthType := Floodgate, op_FloodgateKey := key,
       op_ConfigOverrides := fly_overrides strings getenv, op_Logger := Some logger\<rparr>)" (is "_ = Inr ?o")
    using d by (simp add: fly_options_def Let_def)
  show ?thesis unfolding o using server_New_valid [of ?o lg] assms(1)
    by (auto simp: example_New_Inr default_opts_def FlyGlobalServices_def)
qed

lemma fly_only:
  assumes "example_New lg (fly_options strings getenv logger) = Inr srv"
  shows "\<exists>key. base64Decode (getenv ''FLOODGATE_KEY_BASE64'') = Some key \<and> length key = 16 \<and> op_FloodgateKey (sv_opts srv) = key"
  using assms
  by (auto simp: fly_options_def example_New_def server_New_def validate_eq default_opts_def Let_def split: if_splits option.splits)

text \<open>
  Once it has a server the health check always exits with status 0, also when Geyser failed, and
  after a signal it has not received the result of \<open>Start\<close>.
\<close>

lemma healthcheck_exit:
  "fst (healthcheck_main lg rand logger showErr showNew select) = 0 \<longleftrightarrow> (\<exists>key. rand 16 = Inr key \<and> length key = 16)"
  "snd (snd (healthcheck_main lg rand logger showErr showNew (\<lambda>_. ShutdownSignal))) = False"
proof -
  have "(\<exists>srv. server_New lg (healthcheck_options rand logger) = Inr srv) \<longleftrightarrow> (\<exists>key. rand 16 = Inr key \<and> length key = 16)"
    unfolding server_New_starts by (auto simp: example_defs split: sum.splits)
  then show "fst (healthcheck_main lg rand logger showErr showNew select) = 0 \<longleftrightarrow> (\<exists>key. rand 16 = Inr key \<and> length key = 16)"
    by (auto simp: healthcheck_main_def split: sum.split healthcheck_event.split)
  show "snd (snd (healthcheck_main lg rand logger showErr showNew (\<lambda>_. ShutdownSignal))) = False"
    by (simp add: healthcheck_main_def split: sum.split)
qed

text \<open>
  The examples pass \<open>New\<close> exactly when they have a usable Floodgate key. The basic example always does, and runs the
  embedded runner. The two that make up a key do when the random source delivers 16 bytes, one that reads it from a
  file when the variable names a readable file of 16 bytes. On Fly.io every key of 16 bytes is accepted from its base64
  form, with line breaks anywhere, the server then has exactly this key and listens on the address of
  Fly's edge if there is one; and no other secret is accepted.
\<close>

theorem examples_start:
  "(\<exists>srv :: ('l, 'o, 'x) Server. example_New lg (Inr (basic_options logger) :: 'e example_error + _) = Inr srv \<and> sv_runner srv = EmbeddedRunner) \<and>
   ((\<exists>srv :: ('l, 'o, 'x) Server. example_New lg (Inr (custom_options rand logger) :: 'e example_error + _) = Inr srv) \<longleftrightarrow>
      (\<exists>key. rand 16 = Inr key \<and> length key = 16)) \<and>
   ((\<exists>srv :: ('l, 'o, 'x) Server. example_New lg (Inr (healthcheck_options rand logger) :: 'e example_error + _) = Inr srv) \<longleftrightarrow>
      (\<exists>key. rand 16 = Inr key \<and> length key = 16)) \<and>
   ((\<exists>srv :: ('l, 'o, 'x) Server. example_New lg (floodgate_options getenv readFile logger :: 'e example_error + _) = Inr srv) \<longleftrightarrow>
      getenv ''FLOODGATE_KEY_FILE'' \<noteq> '''' \<and> (\<exists>key. readFile (getenv ''FLOODGATE_KEY_FILE'') = Inr key \<and> length key = 16)) \<and>
   (\<forall>key. length key = 16 \<and> unbroken (getenv ''FLOODGATE_KEY_BASE64'') = base64Encode key \<longrightarrow>
      (\<exists>srv :: ('l, 'o, 'x) Server. example_New lg (fly_options strings getenv logger :: 'e example_error + _) = Inr srv \<and>
         op_FloodgateKey (sv_opts srv) = key \<and>
         op_Listen (sv_opts srv) = (if getenv ''FLY_APP_NAME'' = '''' then ''0.0.0.0:19132'' else ''fly-global-services:19132''))) \<and>
   (\<forall>srv :: ('l, 'o, 'x) Server. example_New lg (fly_options strings getenv logger :: 'e example_error + _) = Inr srv \<longrightarrow>
      (\<exists>key. base64Decode (getenv ''FLOODGATE_KEY_BASE64'') = Some key \<and> length key = 16 \<and> op_FloodgateKey (sv_opts srv) = key))"
  unfolding example_starts floodgate_starts
  using server_New_valid [of "basic_options logger" lg] fly_starts [of _ getenv lg strings logger] fly_only [of lg strings getenv logger]
  by (intro conjI) (auto simp: example_New_Inr example_defs split: sum.splits)

theorem examples_start_witness:
  "\<exists>srv :: (unit, string list, unit) Server.
     example_New () (fly_options id (\<lambda>v. if v = ''FLOODGATE_KEY_BASE64'' then base64Encode (replicate 16 7) @ [CHR 0x0A] else '''') () :: unit example_error + _) = Inr srv \<and>
     op_FloodgateKey (sv_opts srv) = replicate 16 7"
proof -
  let ?getenv = "\<lambda>v. if v = ''FLOODGATE_KEY_BASE64'' then base64Encode (replicate 16 7) @ [CHR 0x0A] else ''''"
  have "unbroken (?getenv ''FLOODGATE_KEY_BASE64'') = base64Encode (replicate 16 7)"
    using base64Encode_no_break by (force simp: unbroken_def intro!: filter_True)
  then show ?thesis
    using examples_start [of "()" "()" "\<lambda>_. Inl ()" ?getenv "\<lambda>_. Inl ()" id, THEN conjunct2, THEN conjunct2, THEN conjunct2,
        THEN conjunct2, THEN conjunct1, rule_format, of "replicate 16 7"] by auto
qed

end
