(* ===== verification/Peer_Frame.thy ===== *)
theory Peer_Frame
  imports Ingress_Frame
begin

text \<open>
  The producer of verified ingress frames in the native peer,
  \<^verbatim>\<open>GeyserLiteVerifiedIngressProducer.java\<close>: which sessions it remembers as
  authenticated and the protobuf message it writes for them. The frame it produces is the
  input of the Go parsers of theory \<open>Ingress_Frame\<close>, so the theorem of this theory joins the
  two ends. A Java \<open>long\<close> is a \<open>u64\<close> compared through \<open>sint\<close>, an \<open>int\<close> a \<open>u32\<close>, a
  \<open>String\<close> the list of its UTF-16 code units and a \<open>null\<close> reference is \<open>None\<close>.
\<close>

unbundle bit_operations_syntax

section \<open>Java strings\<close>

type_synonym jstring = "u16 list"

definition jstring_of :: "string \<Rightarrow> jstring" where
  "jstring_of s = map of_char s"

text \<open>
  \<open>String.getBytes(StandardCharsets.UTF_8)\<close>: a surrogate pair is one code point of four
  bytes, a surrogate without its partner is replaced by a question mark.
\<close>

definition utf8_cont :: "u32 \<Rightarrow> u8" where
  "utf8_cont x = ucast (0x80 OR (x AND 0x3f))"

definition high_surrogate :: "u16 \<Rightarrow> bool" where
  "high_surrogate c \<longleftrightarrow> 0xd800 \<le> c \<and> c < 0xdc00"

definition low_surrogate :: "u16 \<Rightarrow> bool" where
  "low_surrogate c \<longleftrightarrow> 0xdc00 \<le> c \<and> c < 0xe000"

definition utf8_pair :: "u16 \<Rightarrow> u16 \<Rightarrow> bytes" where
  "utf8_pair c d =
     (let x = 0x10000 + push_bit 10 (ucast c - 0xd800) + (ucast d - 0xdc00) in
      [ucast (0xf0 OR drop_bit 18 x), utf8_cont (drop_bit 12 x), utf8_cont (drop_bit 6 x), utf8_cont x])"

definition utf8_unit :: "u16 \<Rightarrow> bytes" where
  "utf8_unit c =
     (let x = ucast c in
      if c < 0x80 then [ucast c]
      else if c < 0x800 then [ucast (0xc0 OR drop_bit 6 x), utf8_cont x]
      else if high_surrogate c \<or> low_surrogate c then [0x3f]
      else [ucast (0xe0 OR drop_bit 12 x), utf8_cont (drop_bit 6 x), utf8_cont x])"

fun getBytes :: "jstring \<Rightarrow> bytes" where
  "getBytes [] = []"
| "getBytes [c] = utf8_unit c"
| "getBytes (c # d # cs) =
     (if high_surrogate c \<and> low_surrogate d then utf8_pair c d @ getBytes cs
      else utf8_unit c @ getBytes (d # cs))"

lemma getBytes_eq_Nil [simp]: "getBytes s = [] \<longleftrightarrow> s = []"
  by (cases s rule: getBytes.cases) (auto simp: utf8_unit_def utf8_pair_def Let_def)

section \<open>Writing the message\<close>

lemma take_bit_7: "(v :: u64) AND 0x7f = take_bit 7 v"
  by (simp add: take_bit_eq_mask mask_eq_exp_minus_1)

lemma high_bits: "(v :: u64) AND NOT 0x7f = 0 \<longleftrightarrow> unat v < 128"
proof
  assume "v AND NOT 0x7f = 0"
  then have "v = v AND 0x7f" by (metis bit.conj_disj_distrib bit.disj_cancel_right and.right_neutral or.right_neutral)
  then have "unat v = unat (take_bit 7 v)" by (simp add: take_bit_7)
  then show "unat v < 128" by (simp add: take_bit_eq_mod unat_mod_distrib)
next
  assume "unat v < 128"
  then have "take_bit 7 (unat v) = unat v" by (intro take_bit_nat_eq_self) simp
  then have "unat (take_bit 7 v) = unat v" by (simp add: unsigned_take_bit_eq)
  then have "v AND 0x7f = v" by (simp add: take_bit_7 word_unat_eq_iff)
  then show "v AND NOT 0x7f = 0" by (metis and.assoc and.right_neutral bit.conj_cancel_right and_zero_eq)
qed

lemma unat_shift7: "unat (drop_bit 7 (v :: u64)) = unat v div 128"
  by (simp add: drop_bit_eq_div unat_div_distrib)

text \<open>The bytes already in the output come first: \<open>writeVarint output value\<close> appends to it.\<close>

function writeVarint :: "bytes \<Rightarrow> u64 \<Rightarrow> bytes" where
  "writeVarint out v =
     (if v AND NOT 0x7f \<noteq> 0
      then writeVarint (out @ [ucast ((v AND 0x7f) OR 0x80)]) (drop_bit 7 v)
      else out @ [ucast v])"
  by pat_completeness auto
termination
  by (relation "measure (\<lambda>(out, v). unat v)") (auto simp: high_bits [simplified] unat_shift7)

declare writeVarint.simps [simp del]

definition writeVarintField :: "bytes \<Rightarrow> u32 \<Rightarrow> u64 \<Rightarrow> bytes" where
  "writeVarintField out field v = writeVarint (writeVarint out (push_bit 3 (scast field))) v"

definition writeBytesField :: "bytes \<Rightarrow> u32 \<Rightarrow> bytes \<Rightarrow> bytes" where
  "writeBytesField out field v =
     writeVarint (writeVarint out (push_bit 3 (scast field) OR 2)) (of_nat (length v)) @ v"

definition writeStringField :: "bytes \<Rightarrow> u32 \<Rightarrow> jstring option \<Rightarrow> bytes" where
  "writeStringField out field v =
     (case v of None \<Rightarrow> out | Some s \<Rightarrow> if s = [] then out else writeBytesField out field (getBytes s))"

definition isZero :: "bytes \<Rightarrow> bool" where
  "isZero bs \<longleftrightarrow> list_all (\<lambda>b. b = 0) bs"

section \<open>Authenticated sessions\<close>

record Principal =
  p_xuid :: jstring
  p_displayName :: "jstring option"
  p_protocolVersion :: u32
  p_verificationMethod :: jstring
  p_verifiedAtUnixMs :: u64

definition isDigit :: "u16 \<Rightarrow> bool" where
  "isDigit c \<longleftrightarrow> 0x30 \<le> c \<and> c \<le> 0x39"

text \<open>The regular expression \<open>[1-9][0-9]{0,18}\<close>, matched against the whole string.\<close>

fun isCanonicalXuid :: "jstring option \<Rightarrow> bool" where
  "isCanonicalXuid (Some (c # cs)) = (isDigit c \<and> c \<noteq> 0x30 \<and> length cs \<le> 18 \<and> list_all isDigit cs)"
| "isCanonicalXuid _ = False"

definition isVerificationMethod :: "jstring option \<Rightarrow> bool" where
  "isVerificationMethod m \<longleftrightarrow>
     m = Some (jstring_of ''minecraft_legacy_chain+client_jwt+ecdh_v1'') \<or>
     m = Some (jstring_of ''minecraft_full_jwks+client_jwt+ecdh_v1'')"

text \<open>
  What the accessors of a \<open>GeyserSession\<close> return; \<open>None\<close> at the outer level is a
  \<open>RuntimeException\<close>. Sessions are compared by identity, a \<open>nat\<close>.
\<close>

type_synonym connection = nat

record GeyserSession =
  session_xuid :: "jstring option option"
  session_protocolVersion :: "u32 option"
  session_bedrockUsername :: "jstring option option"

type_synonym producer = "connection \<rightharpoonup> Principal"

definition authenticated ::
  "producer \<Rightarrow> connection \<Rightarrow> GeyserSession \<Rightarrow> jstring option \<Rightarrow> bool \<Rightarrow> u64 \<Rightarrow> producer" where
  "authenticated P c session verificationMethod isSigned now =
     (if \<not> isSigned then P
      else case (session_xuid session, session_protocolVersion session) of
        (Some xuid, Some protocolVersion) \<Rightarrow>
          (if \<not> isCanonicalXuid xuid \<or> sint protocolVersion \<le> 0 \<or> \<not> isVerificationMethod verificationMethod
           then P
           else case session_bedrockUsername session of
             None \<Rightarrow> P
           | Some name \<Rightarrow> P(c \<mapsto> \<lparr>p_xuid = the xuid, p_displayName = name,
               p_protocolVersion = protocolVersion, p_verificationMethod = the verificationMethod,
               p_verifiedAtUnixMs = now\<rparr>))
      | _ \<Rightarrow> P)"

definition forget :: "producer \<Rightarrow> connection \<Rightarrow> producer" where
  "forget P c = P(c := None)"

definition SOURCE_PROTOCOL :: jstring where
  "SOURCE_PROTOCOL = jstring_of ''bedrock''"

definition produce :: "producer \<Rightarrow> connection \<Rightarrow> bytes option \<Rightarrow> u64 \<Rightarrow> u64 \<Rightarrow> bytes option" where
  "produce P c correlation expiresUnixMs now =
     (case correlation of
        None \<Rightarrow> None
      | Some correlation \<Rightarrow>
        if length correlation \<noteq> 16 \<or> isZero correlation then None
        else if sint expiresUnixMs \<le> sint now \<or> sint (expiresUnixMs - now) > 5000 then None
        else case P c of
          None \<Rightarrow> None
        | Some pr \<Rightarrow>
          (let frame = writeVarintField [] 1 1;
               frame = writeBytesField frame 2 correlation;
               frame = writeStringField frame 3 (Some (p_xuid pr));
               frame = writeStringField frame 4 (p_displayName pr);
               frame = writeStringField frame 5 (Some SOURCE_PROTOCOL);
               frame = writeVarintField frame 6 (scast (p_protocolVersion pr));
               frame = writeStringField frame 7 (Some (p_verificationMethod pr));
               frame = writeVarintField frame 8 (p_verifiedAtUnixMs pr)
           in if length frame \<le> 4096 then Some frame else None))"

section \<open>The written varints are the varints of the Go reader\<close>

lemma unat_cont_byte:
  "unat (ucast (((v :: u64) AND 0x7f) OR 0x80) :: u8) = unat v mod 128 + 128"
proof -
  have low: "unat (v AND 0x7f) = unat v mod 128"
    by (simp add: take_bit_7 take_bit_eq_mod unat_mod_distrib)
  have "unat ((v AND 0x7f) OR push_bit 7 1) = unat v mod 128 + 128"
    using unat_or_push [of "v AND 0x7f" 7 1] low by simp
  then have "unat ((v AND 0x7f) OR 0x80) = unat v mod 128 + 128" by simp
  then show ?thesis
    by (simp add: unsigned_ucast_eq take_bit_nat_eq_self)
qed

lemma writeVarint_group:
  assumes "unat v < 128 ^ Suc k"
  shows "\<exists>g. writeVarint out v = out @ g \<and> varint_group g \<and> base128 g = unat v \<and> length g \<le> Suc k"
  using assms
proof (induction out v arbitrary: k rule: writeVarint.induct)
  case (1 out v)
  show ?case
  proof (cases "unat v < 128")
    case True
    then have "writeVarint out v = out @ [ucast v]"
      by (subst writeVarint.simps) (simp only: high_bits True simp_thms if_False)
    moreover have "unat (ucast v :: u8) = unat v"
      using True by (simp add: unsigned_ucast_eq take_bit_nat_eq_self)
    ultimately show ?thesis
      using True by (intro exI [of _ "[ucast v]"]) (simp add: word_less_nat_alt)
  next
    case False
    let ?b = "ucast ((v AND 0x7f) OR 0x80) :: u8"
    have hi: "v AND NOT 0x7f \<noteq> 0" using False by (simp only: high_bits simp_thms)
    obtain j where k: "k = Suc j" using False 1(2) by (cases k) auto
    have "unat (drop_bit 7 v) < 128 ^ Suc j"
      using 1(2) by (simp add: unat_shift7 k less_mult_imp_div_less mult.commute)
    from 1(1) [OF hi this] obtain g where g: "writeVarint (out @ [?b]) (drop_bit 7 v) = (out @ [?b]) @ g"
      "varint_group g" "base128 g = unat v div 128" "length g \<le> Suc j"
      by (auto simp: unat_shift7)
    have "writeVarint out v = out @ ?b # g"
      using g(1) by (subst writeVarint.simps) (simp only: hi simp_thms if_True append_assoc append_Cons append_Nil)
    moreover have "varint_group (?b # g)" "base128 (?b # g) = unat v"
      using g(2,3) by (auto simp: varint_group_Cons word_le_nat_alt unat_cont_byte)
    ultimately show ?thesis using g(4) k by (intro exI [of _ "?b # g"]) simp
  qed
qed

lemma writeVarint_varint_of: "\<exists>g. writeVarint out v = out @ g \<and> varint_of g v"
proof -
  have "unat v < 128 ^ Suc 9" using unsigned_less [of v] by (rule order_less_le_trans) simp
  from writeVarint_group [OF this] obtain g where
    g: "writeVarint out v = out @ g" "varint_group g" "base128 g = unat v" "length g \<le> 10" by auto
  then have "varint_of g v" using unsigned_less [of v] by (simp add: varint_of_def)
  then show ?thesis using g(1) by blast
qed

section \<open>The message as a list of fields\<close>

lemma frame_fields_append:
  "frame_fields a fs \<Longrightarrow> frame_fields b gs \<Longrightarrow> frame_fields (a @ b) (fs @ gs)"
  by (induction rule: frame_fields.induct) (auto intro: frame_fields.intros)

lemma tag_bits:
  fixes x :: u64
  assumes "x < 2 ^ 61"
  shows "push_bit 3 x AND 7 = 0" "drop_bit 3 (push_bit 3 x) = x"
    "(push_bit 3 x OR 2) AND 7 = 2" "drop_bit 3 (push_bit 3 x OR 2) = x"
proof -
  have seven: "(7 :: u64) = mask 3" by (simp add: mask_eq_exp_minus_1)
  have "take_bit 61 x = x" using assms by (simp add: word_unat_eq_iff unsigned_take_bit_eq take_bit_nat_eq_self_iff word_less_nat_alt)
  then have top: "n < 61" if "bit x n" for n
    using that bit_take_bit_iff [of 61 x n] by simp
  show "push_bit 3 x AND 7 = 0" "drop_bit 3 (push_bit 3 x) = x"
    "(push_bit 3 x OR 2) AND 7 = 2" "drop_bit 3 (push_bit 3 x OR 2) = x"
    unfolding seven using top
    by (auto intro!: bit_word_eqI simp: bit_simps bit_2_iff)
qed

lemma varint_field_fields:
  assumes "frame_fields out fs" "(scast field :: u64) < 2 ^ 61"
  shows "frame_fields (writeVarintField out field v) (fs @ [(scast field, PB_Varint v)])"
proof -
  let ?tag = "push_bit 3 (scast field) :: u64"
  obtain t where t: "writeVarint out ?tag = out @ t" "varint_of t ?tag"
    using writeVarint_varint_of by blast
  obtain g where g: "writeVarint (out @ t) v = (out @ t) @ g" "varint_of g v"
    using writeVarint_varint_of by blast
  have "frame_fields (t @ g @ []) [(drop_bit 3 ?tag, PB_Varint v)]"
    using t(2) g(2) tag_bits(1) [OF assms(2)] by (intro frame_varint frame_end)
  then show ?thesis
    using frame_fields_append [OF assms(1)] t(1) g(1) tag_bits(2) [OF assms(2)]
    by (simp add: writeVarintField_def)
qed

lemma bytes_field_fields:
  assumes "frame_fields out fs" "(scast field :: u64) < 2 ^ 61" "length v < 2 ^ 64"
  shows "frame_fields (writeBytesField out field v) (fs @ [(scast field, PB_Bytes v)])"
proof -
  let ?tag = "push_bit 3 (scast field) OR 2 :: u64"
  obtain t where t: "writeVarint out ?tag = out @ t" "varint_of t ?tag"
    using writeVarint_varint_of by blast
  obtain g where g: "writeVarint (out @ t) (of_nat (length v)) = (out @ t) @ g" "varint_of g (of_nat (length v))"
    using writeVarint_varint_of by blast
  have "unat (of_nat (length v) :: u64) = length v"
    using assms(3) by (simp add: unat_of_nat take_bit_nat_eq_self)
  from frame_bytes [OF t(2) tag_bits(3) [OF assms(2)] g(2) this [symmetric] frame_end]
  have "frame_fields (t @ g @ v @ []) [(drop_bit 3 ?tag, PB_Bytes v)]" .
  then show ?thesis
    using frame_fields_append [OF assms(1)] t(1) g(1) tag_bits(4) [OF assms(2)]
    by (simp add: writeBytesField_def)
qed

lemma length_writeVarint: "length out \<le> length (writeVarint out v)"
  using writeVarint_varint_of [of out v] by auto

lemma length_writeField:
  "length out \<le> length (writeVarintField out field x)"
  "length out + length v \<le> length (writeBytesField out field v)"
  "length out \<le> length (writeStringField out field w)"
  "s \<noteq> [] \<Longrightarrow> length (getBytes s) \<le> length (writeStringField out field (Some s))"
proof -
  show B: "length out + length v \<le> length (writeBytesField out field v)" for v
    unfolding writeBytesField_def length_append
    by (intro add_right_mono order_trans [OF length_writeVarint length_writeVarint])
  show "length out \<le> length (writeVarintField out field x)"
    unfolding writeVarintField_def by (intro order_trans [OF length_writeVarint length_writeVarint])
  show "length out \<le> length (writeStringField out field w)"
    using B by (auto simp: writeStringField_def split: option.splits intro: order_trans [OF le_add1])
  show "s \<noteq> [] \<Longrightarrow> length (getBytes s) \<le> length (writeStringField out field (Some s))"
    using B [of "getBytes s"] by (simp add: writeStringField_def)
qed

text \<open>The fields \<open>produce\<close> writes for a correlation and a principal, in order.\<close>

definition principal_fields :: "bytes \<Rightarrow> Principal \<Rightarrow> (u64 \<times> pb_payload) list" where
  "principal_fields correlation pr =
     [(1, PB_Varint 1), (2, PB_Bytes correlation), (3, PB_Bytes (getBytes (p_xuid pr)))] @
     (case p_displayName pr of
        None \<Rightarrow> [] | Some name \<Rightarrow> if name = [] then [] else [(4, PB_Bytes (getBytes name))]) @
     [(5, PB_Bytes (getBytes SOURCE_PROTOCOL)), (6, PB_Varint (scast (p_protocolVersion pr))),
      (7, PB_Bytes (getBytes (p_verificationMethod pr))), (8, PB_Varint (p_verifiedAtUnixMs pr))]"

lemma string_field_fields:
  assumes "frame_fields out fs" "(scast field :: u64) < 2 ^ 61"
    "length (writeStringField out field v) < 2 ^ 64"
  shows "frame_fields (writeStringField out field v)
    (fs @ (case v of None \<Rightarrow> [] | Some s \<Rightarrow> if s = [] then [] else [(scast field, PB_Bytes (getBytes s))]))"
proof (cases "v = None \<or> v = Some []")
  case False
  then obtain s where v: "v = Some s" "s \<noteq> []" by auto
  then have "length (getBytes s) < 2 ^ 64"
    using order_le_less_trans [OF length_writeField(4) [of s out field] assms(3) [unfolded v(1)]] by blast
  then show ?thesis using bytes_field_fields [OF assms(1,2)] v by (simp add: writeStringField_def)
qed (use assms(1) in \<open>auto simp: writeStringField_def\<close>)

lemma extract_principal_fields:
  assumes "length k = 16" "\<not> isZero k"
  shows "rest_ok abi_v1 (zero_correlation abi_v1) False False (principal_fields k pr) k"
proof -
  have "k \<noteq> replicate 16 0" using assms(2) by (auto simp: isZero_def list_all_iff)
  then show ?thesis
    using assms(1)
    by (auto simp: rest_ok_def principal_fields_def known_field_def zero_correlation_def split: option.splits)
qed

section \<open>Which sessions are remembered\<close>

datatype producer_event =
    Authenticated connection GeyserSession "jstring option" bool u64
  | Forget connection

fun producer_step :: "producer_event \<Rightarrow> producer \<Rightarrow> producer" where
  "producer_step (Authenticated c session m s now) P = authenticated P c session m s now"
| "producer_step (Forget c) P = forget P c"

definition producer_ok :: "producer \<Rightarrow> bool" where
  "producer_ok P \<longleftrightarrow> (\<forall>c pr. P c = Some pr \<longrightarrow> isCanonicalXuid (Some (p_xuid pr)) \<and>
     0 < sint (p_protocolVersion pr) \<and> isVerificationMethod (Some (p_verificationMethod pr)))"

lemma isCanonicalXuid_nonempty: "isCanonicalXuid (Some s) \<Longrightarrow> s \<noteq> []"
  by auto

lemma isVerificationMethod_nonempty: "isVerificationMethod (Some s) \<Longrightarrow> s \<noteq> []"
  by (auto simp: isVerificationMethod_def jstring_of_def)

lemma isCanonicalXuid_Some: "isCanonicalXuid x \<Longrightarrow> isCanonicalXuid (Some (the x))"
  by (cases x) auto

lemma isVerificationMethod_Some: "isVerificationMethod m \<Longrightarrow> isVerificationMethod (Some (the m))"
  by (auto simp: isVerificationMethod_def)

lemma authenticated_ok: "producer_ok P \<Longrightarrow> producer_ok (authenticated P c session m s now)"
  by (auto simp: authenticated_def producer_ok_def not_le isCanonicalXuid_Some isVerificationMethod_Some
      split: option.splits)

lemma forget_ok: "producer_ok P \<Longrightarrow> producer_ok (forget P c)"
  by (auto simp: forget_def producer_ok_def)

lemma producer_run_ok: "producer_ok P \<Longrightarrow> producer_ok (fold producer_step es P)"
proof (induction es arbitrary: P)
  case (Cons e es)
  then show ?case by (cases e) (auto simp: authenticated_ok forget_ok)
qed simp

lemma producer_ok_empty: "producer_ok Map.empty"
  by (simp add: producer_ok_def)

lemma produce_correct:
  assumes ok: "producer_ok P" and f: "produce P c corr e now = Some f"
  obtains k pr where "corr = Some k" "P c = Some pr" "length k = 16" "\<not> isZero k"
    "frame_fields f (principal_fields k pr)" "length f \<le> 4096"
    "extractIngressCorrelation abi_v1 f = Inr k"
proof -
  from f obtain k pr where k: "corr = Some k" "P c = Some pr" "length k = 16" "\<not> isZero k"
    by (auto simp: produce_def split: option.splits if_splits)
  define f1 where "f1 = writeVarintField [] 1 1"
  define f2 where "f2 = writeBytesField f1 2 k"
  define f3 where "f3 = writeStringField f2 3 (Some (p_xuid pr))"
  define f4 where "f4 = writeStringField f3 4 (p_displayName pr)"
  define f5 where "f5 = writeStringField f4 5 (Some SOURCE_PROTOCOL)"
  define f6 where "f6 = writeVarintField f5 6 (scast (p_protocolVersion pr))"
  define f7 where "f7 = writeStringField f6 7 (Some (p_verificationMethod pr))"
  define f8 where "f8 = writeVarintField f7 8 (p_verifiedAtUnixMs pr)"
  note defs = f1_def f2_def f3_def f4_def f5_def f6_def f7_def f8_def
  have f: "f = f8" "length f8 \<le> 4096"
    using f k by (auto simp: produce_def Let_def defs split: if_splits)
  have len: "length f3 \<le> length f4" "length f4 \<le> length f5" "length f5 \<le> length f6"
    "length f6 \<le> length f7" "length f7 \<le> length f8"
    unfolding defs by (rule length_writeField)+
  have ne: "p_xuid pr \<noteq> []" "p_verificationMethod pr \<noteq> []" "SOURCE_PROTOCOL \<noteq> []"
    using ok k(2) isCanonicalXuid_nonempty isVerificationMethod_nonempty
    by (auto simp: producer_ok_def SOURCE_PROTOCOL_def jstring_of_def)
  have "frame_fields f1 [(1, PB_Varint 1)]"
    using varint_field_fields [OF frame_end, of 1 1] by (simp add: f1_def)
  from bytes_field_fields [OF this, of 2 k] have "frame_fields f2 [(1, PB_Varint 1), (2, PB_Bytes k)]"
    using k(3) by (simp add: f2_def)
  note string_field_fields [OF this, of 3 "Some (p_xuid pr)", folded f3_def]
  then have "frame_fields f3 [(1, PB_Varint 1), (2, PB_Bytes k), (3, PB_Bytes (getBytes (p_xuid pr)))]"
    using len f(2) ne by simp
  note string_field_fields [OF this, of 4 "p_displayName pr", folded f4_def]
  note string_field_fields [OF this, of 5 "Some SOURCE_PROTOCOL", folded f5_def]
  note varint_field_fields [OF this, of 6 "scast (p_protocolVersion pr)", folded f6_def]
  note string_field_fields [OF this, of 7 "Some (p_verificationMethod pr)", folded f7_def]
  note varint_field_fields [OF this, of 8 "p_verifiedAtUnixMs pr", folded f8_def]
  then have ff: "frame_fields f (principal_fields k pr)"
    using len f ne by (cases "p_displayName pr") (auto simp: principal_fields_def split: if_splits)
  moreover have "extractIngressCorrelation abi_v1 f = Inr k"
    unfolding extractIngressCorrelation_def
    by (rule extract_complete [OF ff extract_principal_fields [OF k(3,4)]])
  ultimately show thesis using that k f by blast
qed

section \<open>Properties\<close>

text \<open>
  C34: the frames of the native peer are the frames the Go session reads. Whatever sessions
  were authenticated and forgotten before, a frame \<open>produce\<close> returns for a connection has at
  most 4096 bytes and is the protobuf message of exactly the fields of a remembered
  principal: version 1, the given correlation, a canonical XUID, the display name when there
  is one, the source protocol, a positive protocol version, one of the two verification
  methods and the time of the verification; and the Go function
  \<open>extractIngressCorrelation\<close> accepts it and returns that same correlation.
\<close>

theorem produced_frame_roundtrip:
  assumes "produce (fold producer_step es Map.empty) c corr e now = Some f"
  shows "\<exists>k pr. corr = Some k \<and> fold producer_step es Map.empty c = Some pr \<and>
    isCanonicalXuid (Some (p_xuid pr)) \<and> 0 < sint (p_protocolVersion pr) \<and>
    isVerificationMethod (Some (p_verificationMethod pr)) \<and>
    frame_fields f (principal_fields k pr) \<and> length f \<le> 4096 \<and>
    extractIngressCorrelation abi_v1 f = Inr k"
proof -
  have ok: "producer_ok (fold producer_step es Map.empty)"
    by (rule producer_run_ok [OF producer_ok_empty])
  from produce_correct [OF ok assms] obtain k pr where "corr = Some k"
    "fold producer_step es Map.empty c = Some pr" "frame_fields f (principal_fields k pr)" "length f \<le> 4096"
    "extractIngressCorrelation abi_v1 f = Inr k" by metis
  with ok show ?thesis unfolding producer_ok_def by blast
qed

definition sample_session :: GeyserSession where
  "sample_session = \<lparr>session_xuid = Some (Some (jstring_of ''2535428197086765'')),
     session_protocolVersion = Some 827, session_bedrockUsername = Some (Some (jstring_of ''Steve''))\<rparr>"

definition sample_events :: "producer_event list" where
  "sample_events = [Authenticated 3 sample_session (Some (jstring_of ''minecraft_full_jwks+client_jwt+ecdh_v1'')) True 1000]"

definition sample_frame :: "bytes option" where
  "sample_frame = produce (fold producer_step sample_events Map.empty) 3 (Some (replicate 16 5)) 4000 1500"

lemma sample_frame_Some: "sample_frame \<noteq> None"
  by code_simp

theorem produced_frame_roundtrip_witness:
  "extractIngressCorrelation abi_v1 (the sample_frame) = Inr (replicate 16 5)"
  using produced_frame_roundtrip [of sample_events 3 "Some (replicate 16 5)" 4000 1500 "the sample_frame"]
    sample_frame_Some
  by (auto simp: sample_frame_def)

end
