(* ===== verification/Peer.thy ===== *)
theory Peer
  imports Peer_Frame Packets_Correct
begin

text \<open>
  The transport of the native peer, \<^verbatim>\<open>VerifiedIngressSubprocess.java\<close>: the other
  end of the socket \<^verbatim>\<open>go/subprocess_ingress.go\<close> writes to. The tables, the key, the
  two sequence numbers and the packets written are one record; every \<open>synchronized\<close> method is
  one function on it. Java exceptions are values: \<open>Inl\<close> of the exception class. The byte level
  is written out and shown equal to the encoders of the Go side.
\<close>

unbundle bit_operations_syntax

section \<open>Bytes\<close>

fun readLongLoop :: "nat \<Rightarrow> bytes \<Rightarrow> nat \<Rightarrow> u64 \<Rightarrow> u64 option" where
  "readLongLoop 0 bs i r = Some r"
| "readLongLoop (Suc n) bs i r =
     (if i < length bs then readLongLoop n bs (Suc i) (push_bit 8 r OR (ucast (bs ! i) AND 0xff)) else None)"

definition readLong :: "bytes \<Rightarrow> nat \<Rightarrow> u64 option" where
  "readLong bs offset = readLongLoop 8 bs offset 0"

fun writeLongLoop :: "nat \<Rightarrow> bytes \<Rightarrow> nat \<Rightarrow> u64 \<Rightarrow> bytes option" where
  "writeLongLoop 0 bs offset number = Some bs"
| "writeLongLoop (Suc i) bs offset number = do {
     bs \<leftarrow> go_set bs (offset + i) (ucast number);
     writeLongLoop i bs offset (drop_bit 8 number)
   }"

definition writeLong :: "bytes \<Rightarrow> nat \<Rightarrow> u64 \<Rightarrow> bytes option" where
  "writeLong bs offset number = writeLongLoop 8 bs offset number"

text \<open>\<open>System.arraycopy\<close> with its bounds checks, \<open>Arrays.copyOf\<close> and \<open>Arrays.copyOfRange\<close>.\<close>

definition arraycopy :: "bytes \<Rightarrow> nat \<Rightarrow> bytes \<Rightarrow> nat \<Rightarrow> nat \<Rightarrow> bytes option" where
  "arraycopy src i dst j n =
     (if i + n \<le> length src \<and> j + n \<le> length dst then Some (overwrite j (take n (drop i src)) dst) else None)"

definition copyOf :: "bytes \<Rightarrow> nat \<Rightarrow> bytes" where
  "copyOf bs n = take n (bs @ replicate (n - length bs) 0)"

definition copyOfRange :: "bytes \<Rightarrow> nat \<Rightarrow> nat \<Rightarrow> bytes" where
  "copyOfRange bs i j = copyOf (drop i bs) (j - i)"

lemma readLongLoop_drop: "readLongLoop n bs i r = readLongLoop n (drop i bs) 0 r"
proof (induction n arbitrary: bs i r)
  case (Suc n)
  show ?case
    using Suc [of bs "Suc i"] Suc [of "drop i bs" "Suc 0"] by (auto simp: not_less drop_Suc tl_drop)
qed simp

lemma eight_bytes:
  fixes bs :: bytes
  shows "8 \<le> length bs \<Longrightarrow> \<exists>b0 b1 b2 b3 b4 b5 b6 b7 ys. bs = b0 # b1 # b2 # b3 # b4 # b5 # b6 # b7 # ys"
  by (cases bs rule: be64_val.cases) auto

lemma byte_and_ff: "ucast (b :: u8) AND 0xff = (ucast b :: u64)"
proof -
  have ff: "(0xff :: u64) = mask 8" by (simp add: mask_eq_exp_minus_1)
  have "bit b n \<Longrightarrow> n < 8" for n using bit_imp_le_length [of b n] by simp
  then show ?thesis unfolding ff by (auto intro!: bit_word_eqI simp: bit_simps)
qed

text \<open>The two loops are Go's \<open>binary.BigEndian\<close>.\<close>

lemma readLong_get_u64: "readLong bs i = get_u64 bs i"
proof (cases "8 \<le> length (drop i bs)")
  case True
  then obtain b0 b1 b2 b3 b4 b5 b6 b7 ys where
    d: "drop i bs = b0 # b1 # b2 # b3 # b4 # b5 # b6 # b7 # ys"
    using eight_bytes by blast
  have "readLongLoop 8 (drop i bs) 0 0 = be64_val (drop i bs)"
    unfolding d by (simp add: numeral_nat byte_and_ff push_bit_or or.assoc or.commute or.left_commute)
  then show ?thesis
    using True by (simp add: readLong_def readLongLoop_drop [of 8 bs i] get_u64_def go_from_def)
next
  case False
  then have "readLongLoop 8 (drop i bs) 0 0 = None"
    by (cases "drop i bs" rule: be64_val.cases) (auto simp: eval_nat_numeral)
  then show ?thesis
    using False be64_val_None_iff [of "drop i bs"]
    by (auto simp: readLong_def readLongLoop_drop [of 8 bs i] get_u64_def go_from_def)
qed

lemma writeLong_put_u64: "writeLong bs i v = put_u64 bs i v"
proof (cases "8 \<le> length (drop i bs)")
  case True
  then obtain b0 b1 b2 b3 b4 b5 b6 b7 ys where
    d: "drop i bs = b0 # b1 # b2 # b3 # b4 # b5 # b6 # b7 # ys"
    using eight_bytes by blast
  moreover have "i \<le> length bs" using True by simp
  ultimately have bs: "bs = take i bs @ b0 # b1 # b2 # b3 # b4 # b5 # b6 # b7 # ys" "length (take i bs) = i"
    using append_take_drop_id [of i bs] by (simp_all del: append_take_drop_id)
  have "writeLongLoop 8 (take i bs @ b0 # b1 # b2 # b3 # b4 # b5 # b6 # b7 # ys) i v =
      Some (take i bs @ be64_bytes v @ ys)"
    using bs(2) by (simp add: eval_nat_numeral go_set_def list_update_append be64_bytes_def min_def)
  moreover have "drop (8 + i) bs = ys" using arg_cong [OF d, of "drop 8"] by simp
  ultimately show ?thesis
    using True bs(1) by (simp add: writeLong_def put_u64_def overwrite_def add.commute)
next
  case False
  then show ?thesis by (auto simp: writeLong_def put_u64_def eval_nat_numeral go_set_def)
qed

section \<open>State\<close>

datatype jexn = IOException | GeneralSecurityException | RuntimeException

record Assignment =
  a_handle :: u64
  a_correlation :: bytes
  a_expiresUnixMs :: u64
  a_expiry :: "nat option"

text \<open>
  Java maps are association lists, as the Go maps are. The key of \<open>correlations\<close> is the text
  \<open>Arrays.toString\<close> prints, which is determined by the signed numbers in it. \<open>vs_timers\<close> are
  the scheduled expiry tasks by identifier, \<open>vs_firing\<close> the tasks that have started and wait
  for the monitor: cancelling a task has no effect on them. \<open>vs_out\<close> are the packets the
  socket took, \<open>vs_producer\<close> the table of authenticated sessions, \<open>vs_sink\<close> whether the
  transport is the registered sink of \<^verbatim>\<open>VerifiedIngressHooks\<close>.
\<close>

type_synonym task = "u64 \<times> bytes \<times> u64"

record peer =
  vs_connections :: "(u64 \<times> connection) list"
  vs_handles :: "(connection \<times> u64) list"
  vs_assignments :: "(u64 \<times> Assignment) list"
  vs_correlations :: "(int list \<times> u64) list"
  vs_timers :: "(nat \<times> task) list"
  vs_nextTimer :: nat
  vs_firing :: "task list"
  vs_shutdown :: bool
  vs_nextHandle :: u64
  vs_generation :: u64
  vs_readSequence :: u64
  vs_writeSequence :: u64
  vs_key :: "bytes option"
  vs_input :: bool
  vs_output :: bool
  vs_running :: bool
  vs_sink :: bool
  vs_out :: "bytes list"
  vs_producer :: producer

definition new_transport :: "producer \<Rightarrow> peer" where
  "new_transport P = \<lparr>vs_connections = [], vs_handles = [], vs_assignments = [], vs_correlations = [],
     vs_timers = [], vs_nextTimer = 0, vs_firing = [], vs_shutdown = False, vs_nextHandle = 1,
     vs_generation = 0, vs_readSequence = 0, vs_writeSequence = 0, vs_key = None, vs_input = False,
     vs_output = False, vs_running = False, vs_sink = False, vs_out = [], vs_producer = P\<rparr>"

definition correlationKey :: "bytes \<Rightarrow> int list" where
  "correlationKey c = map sint c"

definition cancelExpiry :: "Assignment \<Rightarrow> peer \<Rightarrow> peer" where
  "cancelExpiry a s =
     (case a_expiry a of None \<Rightarrow> s | Some i \<Rightarrow> s\<lparr>vs_timers := AList.delete i (vs_timers s)\<rparr>)"

definition closeTransport :: "peer \<Rightarrow> peer" where
  "closeTransport s =
     (let s = s\<lparr>vs_running := False, vs_sink := False, vs_shutdown := True, vs_timers := []\<rparr>;
          s = fold (\<lambda>(_, a). cancelExpiry a) (vs_assignments s) s;
          s = s\<lparr>vs_assignments := [], vs_correlations := []\<rparr>;
          s = s\<lparr>vs_producer := fold (\<lambda>(_, c) P. forget P c) (vs_connections s) (vs_producer s)\<rparr>
      in s\<lparr>vs_connections := [], vs_handles := [], vs_key := None, vs_input := False, vs_output := False\<rparr>)"

section \<open>Packets\<close>

text \<open>An action that may throw, and the sequencing of two of them.\<close>

type_synonym 'a act = "peer \<Rightarrow> (jexn + 'a) \<times> peer"

definition act_bind :: "'a act \<Rightarrow> ('a \<Rightarrow> 'b act) \<Rightarrow> 'b act" where
  "act_bind f g s = (case f s of (Inl e, s') \<Rightarrow> (Inl e, s') | (Inr x, s') \<Rightarrow> g x s')"

definition or_throw :: "jexn \<Rightarrow> 'a option \<Rightarrow> 'a act" where
  "or_throw e x s = (case x of None \<Rightarrow> (Inl e, s) | Some y \<Rightarrow> (Inr y, s))"

definition peer_prefix :: "u8 \<Rightarrow> u64 \<Rightarrow> nat \<Rightarrow> bytes act" where
  "peer_prefix ty handle len = (\<lambda>s. act_bind (or_throw RuntimeException (do {
       packet \<leftarrow> go_set (replicate len 0) 0 1;
       packet \<leftarrow> go_set packet 1 ty;
       packet \<leftarrow> writeLong packet 2 (vs_generation s);
       packet \<leftarrow> writeLong packet 10 (vs_writeSequence s);
       writeLong packet 18 handle
     })) (\<lambda>packet s. (Inr packet, s\<lparr>vs_writeSequence := vs_writeSequence s + 1\<rparr>)) s)"

definition peer_hmac :: "bytes \<Rightarrow> nat \<Rightarrow> bytes act" where
  "peer_hmac packet macOffset s =
     (case vs_key s of
        None \<Rightarrow> (Inl GeneralSecurityException, s)
      | Some key \<Rightarrow>
          if length key \<noteq> 32 then (Inl GeneralSecurityException, s)
          else (Inr (hmac_sha256 key (copyOf packet macOffset)), s))"

definition peer_sign :: "bytes \<Rightarrow> nat \<Rightarrow> bytes act" where
  "peer_sign packet macOffset =
     act_bind (peer_hmac packet macOffset) (\<lambda>tag. or_throw RuntimeException (arraycopy tag 0 packet macOffset 32))"

text \<open>\<open>ok\<close> is whether the operating system takes the packet; a packet socket takes all of it or none.\<close>

definition peer_write :: "bool \<Rightarrow> bytes \<Rightarrow> unit act" where
  "peer_write ok packet s =
     (if \<not> vs_running s \<or> \<not> vs_output s then (Inl IOException, s)
      else if \<not> ok then (Inl IOException, s)
      else (Inr (), s\<lparr>vs_out := vs_out s @ [packet]\<rparr>))"

definition writeOpen :: "bool \<Rightarrow> u64 \<Rightarrow> unit act" where
  "writeOpen ok handle =
     act_bind (peer_prefix 4 handle 58) (\<lambda>packet.
     act_bind (peer_sign packet 26) (peer_write ok))"

definition writeAck :: "bool \<Rightarrow> u64 \<Rightarrow> bytes \<Rightarrow> u8 \<Rightarrow> unit act" where
  "writeAck ok handle correlation status =
     act_bind (peer_prefix 2 handle 75) (\<lambda>packet.
     act_bind (or_throw RuntimeException (arraycopy correlation 0 packet 26 16)) (\<lambda>packet.
     act_bind (or_throw RuntimeException (go_set packet 42 status)) (\<lambda>packet.
     act_bind (peer_sign packet 43) (peer_write ok))))"

definition writeVerified :: "bool \<Rightarrow> u64 \<Rightarrow> bytes \<Rightarrow> unit act" where
  "writeVerified ok handle frame =
     act_bind (peer_prefix 3 handle (26 + length frame + 32)) (\<lambda>packet.
     act_bind (or_throw RuntimeException (arraycopy frame 0 packet 26 (length frame))) (\<lambda>packet.
     act_bind (peer_sign packet (length packet - 32)) (peer_write ok)))"

text \<open>The checks of \<open>readAssignment\<close> up to the increment of \<open>readSequence\<close>, and the fields it reads.\<close>

definition peer_verify :: "bytes \<Rightarrow> nat \<Rightarrow> unit act" where
  "peer_verify packet macOffset =
     act_bind (peer_hmac packet macOffset) (\<lambda>expected s.
       if expected \<noteq> copyOfRange packet macOffset (length packet) then (Inl IOException, s) else (Inr (), s))"

definition decodeAssignment :: "bytes \<Rightarrow> task act" where
  "decodeAssignment packet s =
     (if length packet \<noteq> 82 \<or> packet ! 0 \<noteq> 1 \<or> packet ! 1 \<noteq> 1 \<or>
         readLong packet 2 \<noteq> Some (vs_generation s) \<or> readLong packet 10 \<noteq> Some (vs_readSequence s) \<or>
         readLong packet 18 = Some 0
      then (Inl IOException, s)
      else act_bind (peer_verify packet 50) (\<lambda>_ s.
        let s = s\<lparr>vs_readSequence := vs_readSequence s + 1\<rparr> in
        act_bind (or_throw RuntimeException (readLong packet 18)) (\<lambda>handle.
        act_bind (or_throw RuntimeException (readLong packet 42)) (\<lambda>expires s.
          (Inr (handle, copyOfRange packet 26 42, expires), s))) s) s)"

section \<open>Operations\<close>

text \<open>\<open>Integer.parseInt\<close> on ASCII text: an optional sign, decimal digits, the range of \<open>int\<close>.\<close>

definition digit_val :: "char \<Rightarrow> int" where
  "digit_val c = of_char c - 48"

definition parseInt :: "string \<Rightarrow> int option" where
  "parseInt s =
     (let (neg, ds) = (case s of CHR ''-'' # cs \<Rightarrow> (True, cs) | CHR ''+'' # cs \<Rightarrow> (False, cs) | _ \<Rightarrow> (False, s));
          n = foldl (\<lambda>v c. 10 * v + digit_val c) 0 ds;
          v = (if neg then - n else n)
      in if ds = [] \<or> \<not> list_all (\<lambda>c. 0 \<le> digit_val c \<and> digit_val c \<le> 9) ds \<or> v < - (2 ^ 31) \<or> 2 ^ 31 \<le> v
         then None else Some v)"

definition inheritedDescriptor :: "bool \<Rightarrow> string option \<Rightarrow> int" where
  "inheritedDescriptor embedded marker =
     (case marker of
        None \<Rightarrow> - 1
      | Some m \<Rightarrow> if embedded \<or> m = '''' then - 1
          else (case parseInt m of None \<Rightarrow> - 1 | Some fd \<Rightarrow> if fd < 0 then - 1 else fd))"

text \<open>What \<open>input.read\<close> does: it throws, it reports the end of the stream, or it returns a packet.\<close>

datatype jread = ReadIOException | ReadEOF | ReadPacket bytes

definition peer_read :: "nat \<Rightarrow> jread \<Rightarrow> jexn + bytes option" where
  "peer_read capacity r =
     (case r of ReadIOException \<Rightarrow> Inl IOException | ReadEOF \<Rightarrow> Inr None | ReadPacket b \<Rightarrow> Inr (Some (take capacity b)))"

text \<open>
  \<open>start\<close>: \<open>Inr False\<close> when there is nothing to talk to, an exception (the
  \<open>IllegalStateException\<close> of the \<open>catch\<close>) on a bad bootstrap packet.
\<close>

definition peer_start :: "bool \<Rightarrow> jread \<Rightarrow> peer \<Rightarrow> (jexn + bool) \<times> peer" where
  "peer_start opened r s =
     (if \<not> opened then (Inr False, s)
      else let s = s\<lparr>vs_input := True, vs_output := True\<rparr> in
      case peer_read 41 r of
        Inl _ \<Rightarrow> (Inl RuntimeException, closeTransport s)
      | Inr None \<Rightarrow> (Inr False, closeTransport s)
      | Inr (Some b) \<Rightarrow>
        if length b \<noteq> 41 \<or> b ! 0 \<noteq> 1 then (Inl RuntimeException, closeTransport s)
        else (case readLong b 1 of
            None \<Rightarrow> (Inl RuntimeException, s)
          | Some g \<Rightarrow>
            let s = s\<lparr>vs_generation := g\<rparr> in
            if g = 0 then (Inl RuntimeException, closeTransport s)
            else (Inr True, s\<lparr>vs_key := Some (copyOfRange b 9 41), vs_readSequence := 1,
              vs_writeSequence := 1, vs_running := True\<rparr>)))"

text \<open>
  \<open>startIfPresent\<close>: a started transport registers. \<open>present\<close> is whether the descriptor exists.
\<close>

definition startIfPresent ::
  "bool \<Rightarrow> string option \<Rightarrow> (int \<Rightarrow> bool) \<Rightarrow> bool \<Rightarrow> jread \<Rightarrow> producer \<Rightarrow> (jexn + peer option)" where
  "startIfPresent embedded marker present opened r P =
     (let fd = inheritedDescriptor embedded marker in
      if fd < 0 \<or> \<not> present fd then Inr None
      else case peer_start opened r (new_transport P) of
        (Inl e, _) \<Rightarrow> Inl e
      | (Inr False, _) \<Rightarrow> Inr None
      | (Inr True, s) \<Rightarrow> Inr (Some (s\<lparr>vs_sink := True\<rparr>)))"

definition peer_open :: "bool \<Rightarrow> connection \<Rightarrow> peer \<Rightarrow> peer" where
  "peer_open ok connection s =
     (if \<not> vs_running s \<or> map_of (vs_handles s) connection \<noteq> None then s
      else (let handle = vs_nextHandle s;
                s = s\<lparr>vs_nextHandle := handle + 1\<rparr>;
                (handle, s) = (if handle = 0 then (vs_nextHandle s, s\<lparr>vs_nextHandle := vs_nextHandle s + 1\<rparr>)
                  else (handle, s));
                s = s\<lparr>vs_handles := AList.update connection handle (vs_handles s),
                      vs_connections := AList.update handle connection (vs_connections s)\<rparr>
            in case writeOpen ok handle s of
                (Inl e, s) \<Rightarrow> (if e = RuntimeException then s else closeTransport s)
              | (Inr _, s) \<Rightarrow> s))"

definition peer_close :: "connection \<Rightarrow> peer \<Rightarrow> peer" where
  "peer_close connection s =
     (let s = s\<lparr>vs_producer := forget (vs_producer s) connection\<rparr> in
      case map_of (vs_handles s) connection of
        None \<Rightarrow> s
      | Some handle \<Rightarrow>
        let s = s\<lparr>vs_handles := AList.delete connection (vs_handles s),
                  vs_connections := AList.delete handle (vs_connections s)\<rparr> in
        case map_of (vs_assignments s) handle of
          None \<Rightarrow> s
        | Some a \<Rightarrow>
          let s = cancelExpiry a (s\<lparr>vs_assignments := AList.delete handle (vs_assignments s)\<rparr>) in
          s\<lparr>vs_correlations := AList.delete (correlationKey (a_correlation a)) (vs_correlations s)\<rparr>)"

definition peer_accept :: "u64 \<Rightarrow> u64 \<Rightarrow> bytes \<Rightarrow> u64 \<Rightarrow> bool act" where
  "peer_accept now handle correlation expires s =
     (if map_of (vs_connections s) handle = None \<or> isZero correlation \<or> sint expires \<le> sint now \<or>
         sint (expires - now) > 5000 \<or> map_of (vs_assignments s) handle \<noteq> None \<or>
         map_of (vs_correlations s) (correlationKey correlation) \<noteq> None
      then (Inr False, s)
      else (let a = \<lparr>a_handle = handle, a_correlation = correlation, a_expiresUnixMs = expires, a_expiry = None\<rparr>;
                s = s\<lparr>vs_assignments := AList.update handle a (vs_assignments s),
                      vs_correlations := AList.update (correlationKey correlation) handle (vs_correlations s)\<rparr>
            in if vs_shutdown s then (Inl RuntimeException, s)
               else (Inr True, s\<lparr>
                 vs_assignments := AList.update handle (a\<lparr>a_expiry := Some (vs_nextTimer s)\<rparr>) (vs_assignments s),
                 vs_timers := AList.update (vs_nextTimer s) (handle, correlation, expires) (vs_timers s),
                 vs_nextTimer := Suc (vs_nextTimer s)\<rparr>)))"

definition peer_expire :: "u64 \<Rightarrow> bytes \<Rightarrow> u64 \<Rightarrow> peer \<Rightarrow> peer" where
  "peer_expire handle correlation expires s =
     (case map_of (vs_assignments s) handle of
        None \<Rightarrow> s
      | Some a \<Rightarrow>
        if a_expiresUnixMs a \<noteq> expires \<or> a_correlation a \<noteq> correlation then s
        else s\<lparr>vs_assignments := AList.delete handle (vs_assignments s),
               vs_correlations := AList.delete (correlationKey correlation) (vs_correlations s)\<rparr>)"

definition claimAssignment :: "u64 \<Rightarrow> u64 \<Rightarrow> bytes \<Rightarrow> peer \<Rightarrow> Assignment option \<times> peer" where
  "claimAssignment now handle frame s =
     (case map_of (vs_assignments s) handle of
        None \<Rightarrow> (None, s)
      | Some a \<Rightarrow>
        let s = cancelExpiry a (s\<lparr>vs_assignments := AList.delete handle (vs_assignments s)\<rparr>);
            s = s\<lparr>vs_correlations := AList.delete (correlationKey (a_correlation a)) (vs_correlations s)\<rparr>
        in if \<not> vs_running s \<or> sint now \<ge> sint (a_expiresUnixMs a) \<or> length frame < 1 \<or> length frame > 4096
           then (None, s) else (Some a, s))"

definition clearAssignment :: "u64 \<Rightarrow> bytes \<Rightarrow> u64 \<Rightarrow> peer \<Rightarrow> peer" where
  "clearAssignment handle correlation expires s =
     (case map_of (vs_assignments s) handle of
        None \<Rightarrow> s
      | Some a \<Rightarrow>
        if a_expiresUnixMs a \<noteq> expires \<or> a_correlation a \<noteq> correlation then s
        else (let s = cancelExpiry a (s\<lparr>vs_assignments := AList.delete handle (vs_assignments s)\<rparr>) in
          s\<lparr>vs_correlations := AList.delete (correlationKey (a_correlation a)) (vs_correlations s)\<rparr>))"

text \<open>
  \<open>emitVerified\<close> up to the lookup of the connection; the frame itself is \<open>produce\<close>, which takes
  another lock.
\<close>

definition emitVerified_connection :: "u64 \<Rightarrow> u64 \<Rightarrow> u64 \<Rightarrow> peer \<Rightarrow> connection option" where
  "emitVerified_connection now handle expires s =
     (if sint (expires - now) \<le> 0 \<or> sint (expires - now) > 5000 then None
      else map_of (vs_connections s) handle)"

text \<open>
  \<open>publishVerified\<close>, and its variant for a connection, which nothing in the repository calls. Each
  runs its two critical sections one after the other; the reader thread below takes them as
  separate steps.
\<close>

definition publishVerified :: "u64 \<Rightarrow> bool \<Rightarrow> u64 \<Rightarrow> bytes \<Rightarrow> peer \<Rightarrow> bool \<times> peer" where
  "publishVerified now ok handle frame s =
     (case claimAssignment now handle frame s of
        (None, s) \<Rightarrow> (False, s)
      | (Some _, s) \<Rightarrow>
          (case writeVerified ok handle frame s of (Inl _, s) \<Rightarrow> (False, closeTransport s) | (Inr _, s) \<Rightarrow> (True, s)))"

definition publishVerified_connection :: "u64 \<Rightarrow> bool \<Rightarrow> connection \<Rightarrow> bytes \<Rightarrow> peer \<Rightarrow> peer" where
  "publishVerified_connection now ok connection frame s =
     (case map_of (vs_handles s) connection of
        None \<Rightarrow> s
      | Some handle \<Rightarrow> snd (publishVerified now ok handle frame s))"

section \<open>The reader thread and the callers\<close>

text \<open>
  Where the reader thread is, between two critical sections: \<open>readLoop\<close>, the blocking read,
  and the calls of \<open>readAssignment\<close> with the values it holds.
\<close>

datatype reader = R_Loop | R_Read
  | R_Accept u64 bytes u64
  | R_Ack u64 bytes u64 bool
  | R_Emit u64 bytes u64
  | R_Produce connection u64 bytes u64
  | R_Claim u64 bytes u64 bytes
  | R_Write u64 bytes u64 bytes
  | R_Clear u64 bytes u64
  | R_End

text \<open>
  The steps: the hooks of the Geyser threads, the two halves of an expiry task, and the next
  step of the reader with what its environment answers (the clock, whether the socket takes a
  packet, what a read returns).
\<close>

datatype peer_event =
    E_Open connection bool
  | E_Close connection
  | E_Authenticated connection GeyserSession "jstring option" bool u64
  | E_Fire nat
  | E_Expire
  | E_Reader u64 bool jread

text \<open>
  An exception in the reader thread: \<open>readLoop\<close> catches the two checked classes and closes the
  transport; a \<open>RuntimeException\<close> ends the thread.
\<close>

definition reader_throws :: "jexn \<Rightarrow> peer \<Rightarrow> peer \<times> reader" where
  "reader_throws e s = (if e = RuntimeException then (s, R_End) else (closeTransport s, R_End))"

fun reader_step :: "u64 \<Rightarrow> bool \<Rightarrow> jread \<Rightarrow> peer \<Rightarrow> reader \<Rightarrow> (peer \<times> reader) option" where
  "reader_step now ok r s R_Loop = Some (s, if vs_running s then R_Read else R_End)"
| "reader_step now ok r s R_Read = Some (
     if \<not> vs_input s then reader_throws RuntimeException s
     else case peer_read 8192 r of
       Inl e \<Rightarrow> reader_throws e s
     | Inr None \<Rightarrow> reader_throws IOException s
     | Inr (Some packet) \<Rightarrow>
         (case decodeAssignment packet s of
            (Inl e, s) \<Rightarrow> reader_throws e s
          | (Inr (handle, correlation, expires), s) \<Rightarrow> (s, R_Accept handle correlation expires)))"
| "reader_step now ok r s (R_Accept handle correlation expires) = Some (
     case peer_accept now handle correlation expires s of
       (Inl e, s) \<Rightarrow> reader_throws e s
     | (Inr positive, s) \<Rightarrow> (s, R_Ack handle correlation expires positive))"
| "reader_step now ok r s (R_Ack handle correlation expires positive) = Some (
     case writeAck ok handle correlation (if positive then 0 else 1) s of
       (Inl e, s) \<Rightarrow> reader_throws e s
     | (Inr _, s) \<Rightarrow> (s, if positive then R_Emit handle correlation expires else R_Loop))"
| "reader_step now ok r s (R_Emit handle correlation expires) = Some (
     case emitVerified_connection now handle expires s of
       None \<Rightarrow> (s, R_Clear handle correlation expires)
     | Some connection \<Rightarrow> (s, R_Produce connection handle correlation expires))"
| "reader_step now ok r s (R_Produce connection handle correlation expires) = Some (
     case produce (vs_producer s) connection (Some correlation) expires now of
       None \<Rightarrow> (s, R_Clear handle correlation expires)
     | Some frame \<Rightarrow> (s, R_Claim handle correlation expires frame))"
| "reader_step now ok r s (R_Claim handle correlation expires frame) = Some (
     case claimAssignment now handle frame s of
       (None, s) \<Rightarrow> (s, R_Clear handle correlation expires)
     | (Some _, s) \<Rightarrow> (s, R_Write handle correlation expires frame))"
| "reader_step now ok r s (R_Write handle correlation expires frame) = Some (
     case writeVerified ok handle frame s of
       (Inl _, s) \<Rightarrow> (closeTransport s, R_Clear handle correlation expires)
     | (Inr _, s) \<Rightarrow> (s, R_Loop))"
| "reader_step now ok r s (R_Clear handle correlation expires) =
     Some (clearAssignment handle correlation expires s, R_Loop)"
| "reader_step now ok r s R_End = None"

fun peer_exec :: "peer_event \<Rightarrow> peer \<times> reader \<Rightarrow> (peer \<times> reader) option" where
  "peer_exec (E_Open connection ok) (s, r) = Some (peer_open ok connection s, r)"
| "peer_exec (E_Close connection) (s, r) = Some (peer_close connection s, r)"
| "peer_exec (E_Authenticated connection session m isSigned now) (s, r) =
     Some (s\<lparr>vs_producer := authenticated (vs_producer s) connection session m isSigned now\<rparr>, r)"
| "peer_exec (E_Fire i) (s, r) =
     (case map_of (vs_timers s) i of
        None \<Rightarrow> None
      | Some t \<Rightarrow> Some (s\<lparr>vs_timers := AList.delete i (vs_timers s), vs_firing := vs_firing s @ [t]\<rparr>, r))"
| "peer_exec E_Expire (s, r) =
     (case vs_firing s of
        [] \<Rightarrow> None
      | (handle, correlation, expires) # ts \<Rightarrow>
          Some (peer_expire handle correlation expires (s\<lparr>vs_firing := ts\<rparr>), r))"
| "peer_exec (E_Reader now ok answer) (s, r) = reader_step now ok answer s r"

definition peer_step :: "peer \<times> reader \<Rightarrow> peer_event \<Rightarrow> peer \<times> reader \<Rightarrow> bool" where
  "peer_step x e y \<longleftrightarrow> peer_exec e x = Some y"

text \<open>Two steps of the reader in a row are \<open>publishVerified\<close>.\<close>

lemma publishVerified_steps:
  "publishVerified now ok h f s = (res, s') \<Longrightarrow>
    (case reader_step now ok a s (R_Claim h c e f) of
       Some (t, R_Write h c e f) \<Rightarrow> reader_step now ok a t (R_Write h c e f)
     | x \<Rightarrow> x) = Some (s', if res then R_Loop else R_Clear h c e)"
  by (auto simp: publishVerified_def split: prod.splits option.splits sum.splits)

text \<open>A transport that the Go runner's bootstrap packet has started.\<close>

definition peer_init :: "u64 \<Rightarrow> bytes \<Rightarrow> peer \<times> reader \<Rightarrow> bool" where
  "peer_init g key x \<longleftrightarrow>
     (\<exists>b P s. encodeSubprocessBootstrap abi_v1 g key = Some (Inr b) \<and> producer_ok P \<and>
        startIfPresent False (Some ''3'') (\<lambda>fd. fd = 3) True (ReadPacket b) P = Inr (Some s) \<and> x = (s, R_Loop))"

end
