(* ===== verification/Peer_System.thy ===== *)
theory Peer_System
  imports Peer_Correct
begin

text \<open>
  The native peer as a transition system: every step of the reader thread, the Geyser threads
  and the expiry tasks keeps the invariant of theory \<open>Peer_Correct\<close>. The theorems: what the
  peer writes is read by the Go decoder in order, every verified frame answers the positive
  acknowledgement before it, the peer accepts the assignments of the Go encoder and no other
  packet, and the transport never runs without its reader.
\<close>

section \<open>The remaining steps of the reader\<close>

lemma inv_open_or_closed:
  assumes "peer_inv g k (s, r)"
  obtains "closed_state s" | "open_state g k s" "keyed k s" "vs_generation s = g" "r \<noteq> R_End"
  using assms by (auto simp: peer_inv_def open_state_def)

lemma sign_without_key: "vs_key s = None \<Longrightarrow> peer_sign p off s = (Inl GeneralSecurityException, s)"
  by (simp add: peer_sign_def peer_hmac_def act_bind_def)

lemma writeAck_closed:
  assumes "vs_key s = None" "length c = 16"
  shows "writeAck ok h c st s = (Inl GeneralSecurityException, bump s)"
proof -
  obtain p where p: "authenticatedPrefix abi_v1 2 (vs_generation s) (vs_writeSequence s) h 75 = Some p" "length p = 75"
    using prefix_v1 [of 75 2 "vs_generation s" "vs_writeSequence s" h] by auto
  then show ?thesis
    using assms by (simp add: writeAck_def act_bind_def or_throw_def peer_prefix_eq arraycopy_overwrite
        go_copy_at_fits go_set_overwrite sign_without_key)
qed

lemma writeVerified_closed:
  assumes "vs_key s = None"
  shows "writeVerified ok h f s = (Inl GeneralSecurityException, bump s)"
proof -
  let ?n = "26 + length f + 32"
  obtain p where p: "authenticatedPrefix abi_v1 3 (vs_generation s) (vs_writeSequence s) h ?n = Some p" "length p = ?n"
    using prefix_v1 [of ?n 3 "vs_generation s" "vs_writeSequence s" h] by auto
  then show ?thesis
    using assms by (simp add: writeVerified_def act_bind_def or_throw_def peer_prefix_eq arraycopy_overwrite
        go_copy_at_fits sign_without_key)
qed

lemma inv_sent:
  assumes inv: "peer_inv g k (s, r)" and op: "open_state g k s"
    and p: "enc_msg k g (vs_writeSequence s) m = Some p" "msg_ok m"
    and ms: "\<And>ms. msgs_ok g k s r ms \<Longrightarrow>
      (\<forall>h f. m = M_Verified h f \<longrightarrow> (\<exists>c. genuine c f \<and> msg_acked ms h c)) \<and>
      (\<forall>h c. owed r' = Some (h, c) \<longrightarrow> msg_acked (ms @ [m]) h c)"
    and r': "tables_ok s r \<Longrightarrow> tables_ok s r'" "locals_ok r'" "r' \<noteq> R_End"
  shows "peer_inv g k ((bump s)\<lparr>vs_out := vs_out s @ [p]\<rparr>, r')"
proof -
  obtain ms where l: "msgs_ok g k s r ms" using inv by (auto simp: peer_inv_def)
  have "msgs_ok g k ((bump s)\<lparr>vs_out := vs_out s @ [p]\<rparr>) r' (ms @ [m])"
    by (rule msgs_ok_snoc [OF l _ p]) (use op ms [OF l] in \<open>auto simp: open_state_def\<close>)
  moreover have "tables_ok ((bump s)\<lparr>vs_out := vs_out s @ [p]\<rparr>) r'"
    using inv r'(1) by (simp add: peer_inv_def tables_ok_def)
  ultimately show ?thesis
    using inv r' open_state_sent [OF op, of p] by (auto simp: peer_inv_def)
qed

lemma inv_ack:
  assumes inv: "peer_inv g k (s, R_Ack h c e positive)" and st: "reader_step now ok a s (R_Ack h c e positive) = Some y"
  shows "peer_inv g k y"
proof -
  have loc: "h \<noteq> 0" "length c = 16" "producer_ok (vs_producer (bump s))" using inv by (auto simp: peer_inv_def)
  let ?st = "if positive then 0 else 1 :: u8"
  let ?r = "if positive then R_Emit h c e else R_Loop"
  from inv show ?thesis
  proof (cases rule: inv_open_or_closed)
    case 1
    then have "writeAck ok h c ?st s = (Inl GeneralSecurityException, bump s)"
      using loc by (intro writeAck_closed) (simp_all add: closed_state_def)
    then show ?thesis using st inv_reader_throws [OF inv _ _ loc(3), of GeneralSecurityException] by simp
  next
    case 2
    then obtain p where p: "enc_msg k g (vs_writeSequence s) (M_Ack h c positive) = Some p"
        "writeAck ok h c ?st s = peer_write ok p (bump s)"
      using writeAck_eq [OF 2(2) loc(2), of h ?st ok] by auto
    have "peer_inv g k ((bump s)\<lparr>vs_out := vs_out s @ [p]\<rparr>, ?r)"
      by (rule inv_sent [OF inv 2(1) p(1)]) (use loc in \<open>auto simp: tables_ok_def msg_acked_ack\<close>)
    then show ?thesis
      using st p(2) peer_write_cases [OF 2(1), of ok p] inv_reader_throws [OF inv _ _ loc(3), of IOException]
      by (cases ok) (auto split: if_splits)
  qed
qed

lemma inv_write:
  assumes inv: "peer_inv g k (s, R_Write h c e f)" and st: "reader_step now ok a s (R_Write h c e f) = Some y"
  shows "peer_inv g k y"
proof -
  have loc: "h \<noteq> 0" "length f \<le> 4096" "genuine c f" "producer_ok (vs_producer (bump s))"
    using inv by (auto simp: peer_inv_def)
  have "f \<noteq> []" using genuine_nonempty [OF loc(3)] .
  then have f: "1 \<le> length f" by (simp add: Suc_le_eq)
  have closed: "peer_inv g k (closeTransport (bump s), R_Clear h c e)"
    using loc(4) by (intro inv_closeTransport [OF inv]) auto
  from inv show ?thesis
  proof (cases rule: inv_open_or_closed)
    case 1
    then show ?thesis using st closed writeVerified_closed [of s ok h f] by (simp add: closed_state_def)
  next
    case 2
    then obtain p where p: "enc_msg k g (vs_writeSequence s) (M_Verified h f) = Some p"
        "writeVerified ok h f s = peer_write ok p (bump s)"
      using writeVerified_eq [OF 2(2), of h f ok] by auto
    have "peer_inv g k ((bump s)\<lparr>vs_out := vs_out s @ [p]\<rparr>, R_Loop)"
      by (rule inv_sent [OF inv 2(1) p(1)]) (use loc f in \<open>auto simp: tables_ok_def msgs_ok_def\<close>)
    then show ?thesis
      using st p(2) peer_write_cases [OF 2(1), of ok p] closed by (cases ok) auto
  qed
qed

lemma inv_claim:
  assumes inv: "peer_inv g k (s, R_Claim h c e f)" and st: "reader_step now ok a s (R_Claim h c e f) = Some y"
  shows "peer_inv g k y"
proof -
  obtain res s' where cl: "claimAssignment now h f s = (res, s')" by force
  have t: "tables_ok s (R_Claim h c e f)" using inv by (simp add: peer_inv_def)
  define r' where "r' = (case res of None \<Rightarrow> R_Clear h c e | Some _ \<Rightarrow> R_Write h c e f)"
  have "peer_inv g k (s', r')"
    by (rule inv_update [OF inv claimAssignment_cases(1) [OF t cl]])
      (use claimAssignment_cases(2-4) [OF t cl] in \<open>auto simp: r'_def split: option.splits\<close>)
  then show ?thesis using st cl by (auto simp: r'_def split: option.splits)
qed

lemma inv_emit:
  assumes inv: "peer_inv g k (s, R_Emit h c e)" and st: "reader_step now ok a s (R_Emit h c e) = Some y"
  shows "peer_inv g k y"
proof -
  have "peer_inv g k (s, R_Clear h c e)" "\<And>n. peer_inv g k (s, R_Produce n h c e)"
    by (rule inv_update [OF inv]; auto simp: same_core_def tables_ok_def)+
  then show ?thesis using st by (auto split: option.splits)
qed

lemma inv_produce:
  assumes inv: "peer_inv g k (s, R_Produce n h c e)" and st: "reader_step now ok a s (R_Produce n h c e) = Some y"
  shows "peer_inv g k y"
proof (cases "produce (vs_producer s) n (Some c) e now")
  case None
  have "peer_inv g k (s, R_Clear h c e)"
    by (rule inv_update [OF inv]) (auto simp: same_core_def tables_ok_def)
  then show ?thesis using st None by simp
next
  case (Some f)
  have "producer_ok (vs_producer s)" using inv by (simp add: peer_inv_def)
  from this Some have f: "length f \<le> 4096" "genuine c f"
    using produce_genuine by blast+
  have "peer_inv g k (s, R_Claim h c e f)"
    by (rule inv_update [OF inv]) (use f in \<open>auto simp: same_core_def tables_ok_def\<close>)
  then show ?thesis using st Some by simp
qed

lemma inv_loop:
  assumes inv: "peer_inv g k (s, R_Loop)"
  shows "peer_inv g k (s, if vs_running s then R_Read else R_End)"
proof (cases "vs_running s")
  case True
  have "peer_inv g k (s, R_Read)"
    by (rule inv_update [OF inv]) (auto simp: same_core_def tables_ok_def)
  then show ?thesis using True by simp
next
  case False
  then have "closed_state s" using inv by (auto simp: peer_inv_def open_state_def)
  then have "peer_inv g k (reader_throws RuntimeException s)"
    using inv by (intro inv_reader_throws [OF inv]) (auto simp: peer_inv_def)
  then show ?thesis using False by (simp add: reader_throws_def)
qed

lemma inv_reader:
  assumes inv: "peer_inv g k (s, r)" and st: "reader_step now ok a s r = Some y"
  shows "peer_inv g k y"
proof (cases r)
  case R_Loop
  then show ?thesis using inv st inv_loop by auto
next
  case (R_Clear h c e)
  then show ?thesis using inv st inv_clear by auto
next
  case R_Read
  show ?thesis by (rule inv_read [OF inv [unfolded R_Read] st [unfolded R_Read]])
next
  case (R_Accept h c e)
  show ?thesis by (rule inv_accept [OF inv [unfolded R_Accept] st [unfolded R_Accept]])
next
  case (R_Ack h c e positive)
  show ?thesis by (rule inv_ack [OF inv [unfolded R_Ack] st [unfolded R_Ack]])
next
  case (R_Emit h c e)
  show ?thesis by (rule inv_emit [OF inv [unfolded R_Emit] st [unfolded R_Emit]])
next
  case (R_Produce n h c e)
  show ?thesis by (rule inv_produce [OF inv [unfolded R_Produce] st [unfolded R_Produce]])
next
  case (R_Claim h c e f)
  show ?thesis by (rule inv_claim [OF inv [unfolded R_Claim] st [unfolded R_Claim]])
next
  case (R_Write h c e f)
  show ?thesis by (rule inv_write [OF inv [unfolded R_Write] st [unfolded R_Write]])
qed (use st in simp)

lemma peer_inv_step:
  assumes "peer_step x ev y" "peer_inv g k x"
  shows "peer_inv g k y"
proof -
  obtain s r where x: "x = (s, r)" by force
  show ?thesis
  proof (cases ev)
    case (E_Open c ok)
    then show ?thesis using assms x inv_open by (auto simp: peer_step_def)
  next
    case (E_Close c)
    then show ?thesis using assms x inv_close by (auto simp: peer_step_def)
  next
    case (E_Authenticated c session m isSigned now)
    have "peer_inv g k (s\<lparr>vs_producer := authenticated (vs_producer s) c session m isSigned now\<rparr>, r)"
      by (rule inv_update [OF assms(2) [unfolded x]])
        (auto simp: same_core_def closed_state_def tables_ok_def authenticated_ok)
    then show ?thesis using assms(1) E_Authenticated x by (auto simp: peer_step_def)
  next
    case (E_Fire i)
    have "peer_inv g k (s\<lparr>vs_timers := AList.delete i (vs_timers s), vs_firing := vs_firing s @ [t]\<rparr>, r)" for t
      by (rule inv_update [OF assms(2) [unfolded x]]) (auto simp: same_core_def closed_state_def tables_ok_def)
    then show ?thesis using assms(1) E_Fire x by (auto simp: peer_step_def split: option.splits)
  next
    case E_Expire
    then show ?thesis
      using assms inv_expire [OF assms(2) [unfolded x]] x by (auto simp: peer_step_def split: list.splits)
  next
    case (E_Reader now ok a)
    then show ?thesis using assms x inv_reader by (auto simp: peer_step_def)
  qed
qed

text \<open>The transport the Go bootstrap packet starts.\<close>

definition started :: "u64 \<Rightarrow> bytes \<Rightarrow> producer \<Rightarrow> peer" where
  "started g k P = new_transport P\<lparr>vs_input := True, vs_output := True, vs_generation := g, vs_key := Some k,
     vs_readSequence := 1, vs_writeSequence := 1, vs_running := True, vs_sink := True\<rparr>"

lemma bootstrap_started:
  assumes enc: "encodeSubprocessBootstrap abi_v1 g k = Some (Inr b)"
  shows "startIfPresent False (Some ''3'') (\<lambda>fd. fd = 3) True (ReadPacket b) P = Inr (Some (started g k P))"
    "g \<noteq> 0" "length k = 32"
proof -
  show gk: "g \<noteq> 0" "length k = 32" using enc by (auto simp: encodeSubprocessBootstrap_def split: if_splits)
  define b1 where "b1 = overwrite 0 [1] (replicate 41 (0 :: u8))"
  define b2 where "b2 = overwrite 1 (be64_bytes g) b1"
  have len: "length b1 = 41" "length b2 = 41" by (simp_all add: b1_def b2_def)
  have b: "b = overwrite 9 k b2"
    using enc gk len by (simp add: encodeSubprocessBootstrap_def go_set_overwrite put_u64_def go_copy_at_fits b2_def
        flip: b1_def)
  have first: "length b = 41" "b ! 0 = 1"
    using len gk by (simp_all add: b nth_overwrite) (simp add: b2_def b1_def nth_overwrite)
  have "take 8 (drop 1 b) = be64_bytes g" "take 32 (drop 9 b) = k"
    using len gk overwrite_take_drop_same [of 1 "be64_bytes g" b1] overwrite_take_drop_same [of 9 k b2]
      overwrite_take_drop_before [of 9 k b2 1 8]
    by (simp_all add: b b2_def)
  then have "readLong b 1 = Some g" "copyOfRange b 9 41 = k"
    using first gk by (simp_all add: readLong_get_u64 get_u64_bytes copyOfRange_take)
  moreover have "inheritedDescriptor False (Some ''3'') = 3" by code_simp
  ultimately show "startIfPresent False (Some ''3'') (\<lambda>fd. fd = 3) True (ReadPacket b) P = Inr (Some (started g k P))"
    using first gk by (simp add: startIfPresent_def peer_start_def peer_read_def Let_def started_def)
qed

lemma peer_init_started:
  "peer_init g k x \<longleftrightarrow> g \<noteq> 0 \<and> length k = 32 \<and> (\<exists>P. producer_ok P \<and> x = (started g k P, R_Loop))"
proof
  assume "peer_init g k x"
  then show "g \<noteq> 0 \<and> length k = 32 \<and> (\<exists>P. producer_ok P \<and> x = (started g k P, R_Loop))"
    using bootstrap_started unfolding peer_init_def by fastforce
next
  assume R: "g \<noteq> 0 \<and> length k = 32 \<and> (\<exists>P. producer_ok P \<and> x = (started g k P, R_Loop))"
  then obtain b where b: "encodeSubprocessBootstrap abi_v1 g k = Some (Inr b)"
    by (auto simp: encodeSubprocessBootstrap_def go_set_overwrite put_u64_def go_copy_at_fits)
  then show "peer_init g k x"
    using R bootstrap_started(1) [OF b] unfolding peer_init_def by blast
qed

lemma peer_inv_init:
  assumes "peer_init g k x"
  shows "peer_inv g k x"
proof -
  obtain P where P: "g \<noteq> 0" "length k = 32" "producer_ok P" "x = (started g k P, R_Loop)"
    using assms by (auto simp: peer_init_started)
  have "msgs_ok g k (started g k P) R_Loop []"
    by (simp add: started_def msgs_ok_def new_transport_def msgs_answered_Nil)
  then show ?thesis
    using P by (auto simp: started_def peer_inv_def new_transport_def open_state_def keyed_def tables_ok_def)
qed

interpretation np: invariant_system "peer_init g k" peer_step "peer_inv g k" for g k
  by unfold_locales (auto intro: peer_inv_init peer_inv_step)

section \<open>Properties\<close>

text \<open>A started peer for the witnesses, and a run of it.\<close>

definition peer_key :: bytes where
  "peer_key = replicate 32 7"

text \<open>
  C19: the native peer and the Go session agree on an assignment packet. For a transport that
  holds the key, \<open>readAssignment\<close> accepts a packet, with the handle, correlation and expiry it
  reads, exactly when the packet is what the Go function \<open>encodeAssignmentPacket\<close> writes for
  them in the peer's generation at the peer's next sequence number; every other packet ends
  in an exception.
\<close>

theorem peer_accepts_go_assignments:
  assumes "vs_key s = Some key" "length key = 32"
  shows "fst (decodeAssignment p s) = Inr (h, c, e) \<longleftrightarrow> h \<noteq> 0 \<and> length c = 16 \<and>
    encodeAssignmentPacket abi_v1 key (vs_generation s) (vs_readSequence s) h c e = Some p"
  by (rule decodeAssignment_exact) (simp add: keyed_def assms)

theorem peer_accepts_go_assignments_witness:
  "\<exists>p. encodeAssignmentPacket abi_v1 peer_key 9 1 4 (replicate 16 5) 77 = Some p \<and>
     fst (decodeAssignment p (new_transport Map.empty\<lparr>vs_key := Some peer_key, vs_generation := 9, vs_readSequence := 1\<rparr>))
       = Inr (4, replicate 16 5, 77)"
proof -
  let ?s = "new_transport Map.empty\<lparr>vs_key := Some peer_key, vs_generation := 9, vs_readSequence := 1\<rparr>"
  obtain p where p: "encodeAssignmentPacket abi_v1 peer_key 9 1 4 (replicate 16 5) 77 = Some p"
    using assignment_packet_shape [OF abi_v1_ok, of "replicate 16 5" peer_key 9 1 4 77] by auto
  then show ?thesis
    using peer_accepts_go_assignments [of ?s peer_key p 4 "replicate 16 5" 77] by (simp add: peer_key_def)
qed

lemma of_nat_Suc_nonzero: "Suc n < 2 ^ 64 \<Longrightarrow> (of_nat (Suc n) :: u64) \<noteq> 0"
  by (auto simp only: word_of_nat_eq_0_iff dest!: dvd_imp_le) simp

lemma log_decode:
  assumes "msgs_ok g k s r ms" "n < length (vs_out s)" "Suc n < 2 ^ 64" "g \<noteq> 0" "length k = 32"
  shows "decodeAuthenticatedPacket abi_v1 (vs_out s ! n) k g (of_nat (Suc n)) =
    Some (Inr (msg_packet g (of_nat (Suc n)) (ms ! n)))"
proof -
  have n: "n < length ms" "enc_msg k g (of_nat (Suc n)) (ms ! n) = Some (vs_out s ! n)" "msg_ok (ms ! n)"
    using assms(1,2) by (auto simp: msgs_ok_def list_all_length)
  show ?thesis
    by (rule dec_msg [OF n(2,3) assms(5,4) of_nat_Suc_nonzero [OF assms(3)]])
qed

lemma msgs_answered_nth:
  assumes "msgs_answered ms" "n < length ms" "ms ! n = M_Verified h f"
  obtains c i where "genuine c f" "i < n" "ms ! i = M_Ack h c True"
    "\<And>m. i < m \<Longrightarrow> m < n \<Longrightarrow> is_open (ms ! m)"
proof -
  have "ms = take n ms @ M_Verified h f # drop (Suc n) ms" using id_take_nth_drop [OF assms(2)] assms(3) by simp
  with assms(1) obtain c xs os where c: "genuine c f"
      "take n ms = xs @ M_Ack h c True # os" "list_all is_open os"
    unfolding msgs_answered_def msg_acked_def by blast
  have len: "n = Suc (length xs + length os)" using arg_cong [OF c(2), of length] assms(2) by simp
  have nth: "m < n \<Longrightarrow> ms ! m = (xs @ M_Ack h c True # os) ! m" for m
    using c(2) by (metis nth_take)
  show thesis
  proof (rule that [OF c(1)])
    show "length xs < n" using len by simp
    show "ms ! length xs = M_Ack h c True" using nth [of "length xs"] len by simp
    show "is_open (ms ! m)" if m: "length xs < m" "m < n" for m
    proof -
      have "ms ! m = os ! (m - Suc (length xs))" using nth [OF m(2)] m(1) by (simp add: nth_append)
      moreover have "m - Suc (length xs) < length os" using m len by linarith
      ultimately show ?thesis using c(3) by (simp add: list_all_length)
    qed
  qed
qed

lemma msg_packet_typ:
  "ap_typ (msg_packet g n m) = 3 \<longleftrightarrow> (\<exists>h f. m = M_Verified h f)" "ap_typ (msg_packet g n m) \<in> {2, 3, 4}"
  by (cases m; simp)+

lemma msg_packet_open: "is_open m \<Longrightarrow> ap_typ (msg_packet g n m) = 4"
  by (auto simp: is_open_def)

text \<open>
  C14: over every run of the native peer, started by the Go bootstrap packet and with any
  interleaving of its reader thread, the Geyser threads and the expiry tasks, the Go decoder
  accepts the peer's packets at the sequence numbers it expects: the first at 1, the next at 2
  and so on, each an open, an acknowledgement or a verified frame. A verified frame carries a
  correlation the Go parser extracts, and it is the answer to the positive acknowledgement of
  the same handle and correlation before it, with only open packets in between: no frame is
  sent before its acknowledgement, for another handle, or twice.
\<close>

theorem peer_packets_decode:
  assumes reach: "reachable (peer_init g key) peer_step (s, r)"
    and n: "n < length (vs_out s)" "length (vs_out s) < 2 ^ 64 - 1"
  shows "\<exists>d. decodeAuthenticatedPacket abi_v1 (vs_out s ! n) key g (of_nat (Suc n)) = Some (Inr d) \<and>
    ap_typ d \<in> {SubprocessAssignmentACK abi_v1, SubprocessVerifiedIngress abi_v1, SubprocessConnectionOpen abi_v1} \<and>
    (ap_typ d = SubprocessVerifiedIngress abi_v1 \<longrightarrow>
      (\<exists>c i a. extractIngressCorrelation abi_v1 (ap_payload d) = Inr c \<and> i < n \<and>
         decodeAuthenticatedPacket abi_v1 (vs_out s ! i) key g (of_nat (Suc i)) = Some (Inr a) \<and>
         ap_typ a = SubprocessAssignmentACK abi_v1 \<and> ap_status a = SubprocessACKPositive abi_v1 \<and>
         ap_handle a = ap_handle d \<and> ap_correlation a = c \<and>
         (\<forall>m. i < m \<and> m < n \<longrightarrow> (\<exists>o'. decodeAuthenticatedPacket abi_v1 (vs_out s ! m) key g (of_nat (Suc m))
            = Some (Inr o') \<and> ap_typ o' = SubprocessConnectionOpen abi_v1))))"
proof -
  from np.reachable_inv [OF reach] obtain ms where ms: "msgs_ok g key s r ms" and gk: "g \<noteq> 0" "length key = 32"
    by (auto simp: peer_inv_def)
  have len: "length ms = length (vs_out s)" "msgs_answered ms" using ms by (auto simp: msgs_ok_def)
  have dec: "decodeAuthenticatedPacket abi_v1 (vs_out s ! m) key g (of_nat (Suc m)) =
      Some (Inr (msg_packet g (of_nat (Suc m)) (ms ! m)))" if "m \<le> n" for m
    using log_decode [OF ms _ _ gk, of m] that n by auto
  let ?d = "msg_packet g (of_nat (Suc n)) (ms ! n)"
  have "\<exists>c i a. extractIngressCorrelation abi_v1 (ap_payload ?d) = Inr c \<and> i < n \<and>
         decodeAuthenticatedPacket abi_v1 (vs_out s ! i) key g (of_nat (Suc i)) = Some (Inr a) \<and>
         ap_typ a = 2 \<and> ap_status a = 0 \<and> ap_handle a = ap_handle ?d \<and> ap_correlation a = c \<and>
         (\<forall>m. i < m \<and> m < n \<longrightarrow> (\<exists>o'. decodeAuthenticatedPacket abi_v1 (vs_out s ! m) key g (of_nat (Suc m))
            = Some (Inr o') \<and> ap_typ o' = 4))"
    if "ap_typ ?d = 3"
  proof -
    from that obtain h f where m: "ms ! n = M_Verified h f" by (auto simp: msg_packet_typ)
    from len n(1) obtain c i where c: "genuine c f" "i < n" "ms ! i = M_Ack h c True"
        "\<And>m. i < m \<Longrightarrow> m < n \<Longrightarrow> is_open (ms ! m)"
      using msgs_answered_nth [OF len(2) _ m] by metis
    show ?thesis
      using c genuine_extract [OF c(1)] m dec [of i] dec msg_packet_open
      by (intro exI [of _ c] exI [of _ i] exI [of _ "msg_packet g (of_nat (Suc i)) (ms ! i)"]) auto
  qed
  then show ?thesis
    using dec [of n] msg_packet_typ(2) [of g "of_nat (Suc n)" "ms ! n"] by auto
qed

section \<open>An assignment is msgs_answered\<close>

text \<open>
  The reader's steps from the read of a packet to the written frame, all at time \<open>now\<close> and
  with a socket that takes the packets.
\<close>

abbreviation quick :: "u64 \<Rightarrow> bytes \<Rightarrow> peer_event" where
  "quick now p \<equiv> E_Reader now True (ReadPacket p)"

lemma handshake_ack:
  assumes inv: "peer_inv g k (s, R_Read)" and run: "vs_running s"
    and p: "encodeAssignmentPacket abi_v1 k g (vs_readSequence s) h c e = Some p"
    and h: "h \<noteq> 0" "length c = 16" "\<not> isZero c" "map_of (vs_connections s) h = Some n"
    and now: "sint now < sint e" "sint (e - now) \<le> 5000"
  shows "\<exists>s' pa i. run peer_step (s, R_Read) (quick now p # replicate 2 (E_Reader now True ans)) (s', R_Emit h c e) \<and>
    open_state g k s' \<and> vs_out s' = vs_out s @ [pa] \<and> vs_writeSequence s' = vs_writeSequence s + 1 \<and>
    vs_producer s' = vs_producer s \<and> vs_connections s' = vs_connections s \<and>
    vs_assignments s' = [(h, \<lparr>a_handle = h, a_correlation = c, a_expiresUnixMs = e, a_expiry = Some i\<rparr>)] \<and>
    encodeACKPacket abi_v1 k g (vs_writeSequence s) h c 0 = Some pa"
proof -
  have op: "open_state g k s" and t: "vs_assignments s = []" "vs_correlations s = []"
    using inv run by (auto simp: peer_inv_def closed_state_def tables_ok_def)
  then have key: "keyed k s" "vs_generation s = g" "vs_input s" "\<not> vs_shutdown s" by (auto simp: open_state_def)
  have plen: "length p = 82" using assignment_packet_shape [OF abi_v1_ok, of c k g "vs_readSequence s" h e] h p by auto
  have "fst (decodeAssignment p s) = Inr (h, c, e)"
    using decodeAssignment_exact [OF key(1), of p h c e] h p key(2) by simp
  then obtain s1 where s1: "decodeAssignment p s = (Inr (h, c, e), s1)" "s1 = s\<lparr>vs_readSequence := vs_readSequence s + 1\<rparr>"
    by (cases "decodeAssignment p s") (auto elim: decodeAssignment_cases [OF key(1)])
  have st1: "peer_step (s, R_Read) (quick now p) (s1, R_Accept h c e)"
    using s1(1) key(3) plen by (simp add: peer_step_def peer_read_def)
  obtain s2 i where s2: "peer_accept now h c e s1 = (Inr True, s2)" "same_core s1 s2" "vs_producer s2 = vs_producer s"
      "vs_connections s2 = vs_connections s"
      "vs_assignments s2 = [(h, \<lparr>a_handle = h, a_correlation = c, a_expiresUnixMs = e, a_expiry = Some i\<rparr>)]"
    using t h now key(4) by (auto simp: s1(2) peer_accept_def Let_def same_core_def)
  have st2: "peer_step (s1, R_Accept h c e) (E_Reader now True ans) (s2, R_Ack h c e True)"
    using s2(1) by (simp add: peer_step_def)
  have op2: "open_state g k s2" "vs_out s2 = vs_out s" "vs_writeSequence s2 = vs_writeSequence s"
    using op s2(2) by (auto simp: s1(2) same_core_def open_state_def keyed_def)
  then have key2: "keyed k s2" "vs_generation s2 = g" by (auto simp: open_state_def)
  obtain pa where pa: "encodeACKPacket abi_v1 k g (vs_writeSequence s) h c 0 = Some pa"
      "writeAck True h c 0 s2 = peer_write True pa (bump s2)"
    using writeAck_eq [OF key2(1) h(2), of h 0 True] op2 key2 by auto
  define s3 where "s3 = (bump s2)\<lparr>vs_out := vs_out s2 @ [pa]\<rparr>"
  have st3: "peer_step (s2, R_Ack h c e True) (E_Reader now True ans) (s3, R_Emit h c e)"
    using pa(2) peer_write_cases [OF op2(1), of True pa] by (simp add: peer_step_def s3_def)
  have "run peer_step (s, R_Read) (quick now p # replicate 2 (E_Reader now True ans)) (s3, R_Emit h c e)"
    unfolding numeral_nat replicate.simps by (rule run_cons [of peer_step, OF st1 run_cons [of peer_step, OF st2 run_one [of peer_step, OF st3]]])
  then show ?thesis
    using open_state_sent [OF op2(1), of pa] op2 s2 pa(1) by (intro exI [of _ s3] exI [of _ pa] exI [of _ i]) (simp add: s3_def)
qed

lemma handshake_frame:
  assumes op: "open_state g k s" and prod: "producer_ok (vs_producer s)" and h: "map_of (vs_connections s) h = Some n"
    and a: "vs_assignments s = [(h, \<lparr>a_handle = h, a_correlation = c, a_expiresUnixMs = e, a_expiry = Some i\<rparr>)]"
    and now: "sint now < sint e" "0 < sint (e - now)" "sint (e - now) \<le> 5000"
    and f: "produce (vs_producer s) n (Some c) e now = Some f"
  shows "\<exists>s' pv. run peer_step (s, R_Emit h c e) (replicate 4 (E_Reader now True ans)) (s', R_Loop) \<and>
    vs_out s' = vs_out s @ [pv] \<and> vs_assignments s' = [] \<and>
    encodeVerifiedPacket abi_v1 k g (vs_writeSequence s) h f = Some pv"
proof -
  from prod f have flen: "length f \<le> 4096" "extractIngressCorrelation abi_v1 f = Inr c" by (auto elim!: produce_correct)
  then have f0: "f \<noteq> []" by (auto simp: extractIngressCorrelation_def extractLoop.simps)
  have st1: "peer_step (s, R_Emit h c e) (E_Reader now True ans) (s, R_Produce n h c e)"
    using now h by (simp add: peer_step_def emitVerified_connection_def)
  have st2: "peer_step (s, R_Produce n h c e) (E_Reader now True ans) (s, R_Claim h c e f)"
    using f by (simp add: peer_step_def)
  obtain x s4 where s4: "claimAssignment now h f s = (Some x, s4)" "same_core s s4" "vs_assignments s4 = []"
    using a op now(1) flen f0
    by (auto simp: claimAssignment_def Let_def open_state_def same_core_def cancelExpiry_def)
  have st3: "peer_step (s, R_Claim h c e f) (E_Reader now True ans) (s4, R_Write h c e f)"
    using s4(1) by (simp add: peer_step_def)
  have op4: "open_state g k s4" "vs_out s4 = vs_out s" "vs_writeSequence s4 = vs_writeSequence s"
    using op s4(2) by (auto simp: same_core_def open_state_def keyed_def)
  then have key4: "keyed k s4" "vs_generation s4 = g" by (auto simp: open_state_def)
  obtain pv where pv: "encodeVerifiedPacket abi_v1 k g (vs_writeSequence s) h f = Some pv"
      "writeVerified True h f s4 = peer_write True pv (bump s4)"
    using writeVerified_eq [OF key4(1), of h f True] op4 key4 by auto
  define s5 where "s5 = (bump s4)\<lparr>vs_out := vs_out s4 @ [pv]\<rparr>"
  have st4: "peer_step (s4, R_Write h c e f) (E_Reader now True ans) (s5, R_Loop)"
    using pv(2) peer_write_cases [OF op4(1), of True pv] by (simp add: peer_step_def s5_def)
  have "run peer_step (s, R_Emit h c e) (replicate 4 (E_Reader now True ans)) (s5, R_Loop)"
    unfolding numeral_nat replicate.simps
    by (rule run_cons [of peer_step, OF st1 run_cons [of peer_step, OF st2
        run_cons [of peer_step, OF st3 run_one [of peer_step, OF st4]]]])
  then show ?thesis
    using op4(2) s4(3) pv(1) by (intro exI [of _ s5] exI [of _ pv]) (simp add: s5_def)
qed

lemma handshake_steps:
  assumes inv: "peer_inv g k (s, R_Read)" and run: "vs_running s"
    and p: "encodeAssignmentPacket abi_v1 k g (vs_readSequence s) h c e = Some p"
    and h: "h \<noteq> 0" "length c = 16" "\<not> isZero c" "map_of (vs_connections s) h = Some n"
    and now: "sint now < sint e" "0 < sint (e - now)" "sint (e - now) \<le> 5000"
    and f: "produce (vs_producer s) n (Some c) e now = Some f"
  shows "\<exists>s' pa pv. run peer_step (s, R_Read) (quick now p # replicate 6 (E_Reader now True ans)) (s', R_Loop) \<and>
    vs_out s' = vs_out s @ [pa, pv] \<and> vs_assignments s' = [] \<and>
    encodeACKPacket abi_v1 k g (vs_writeSequence s) h c 0 = Some pa \<and>
    encodeVerifiedPacket abi_v1 k g (vs_writeSequence s + 1) h f = Some pv"
proof -
  have prod: "producer_ok (vs_producer s)" using inv by (simp add: peer_inv_def)
  from handshake_ack [OF inv run p h now(1,3), of ans] obtain s1 pa i where
    s1: "run peer_step (s, R_Read) (quick now p # replicate 2 (E_Reader now True ans)) (s1, R_Emit h c e)" "open_state g k s1"
      "vs_out s1 = vs_out s @ [pa]" "vs_writeSequence s1 = vs_writeSequence s + 1"
      "vs_producer s1 = vs_producer s" "vs_connections s1 = vs_connections s"
      "vs_assignments s1 = [(h, \<lparr>a_handle = h, a_correlation = c, a_expiresUnixMs = e, a_expiry = Some i\<rparr>)]"
      "encodeACKPacket abi_v1 k g (vs_writeSequence s) h c 0 = Some pa" by blast
  from handshake_frame [OF s1(2) _ _ s1(7) now, of n f ans] obtain s2 pv where
    s2: "run peer_step (s1, R_Emit h c e) (replicate 4 (E_Reader now True ans)) (s2, R_Loop)" "vs_out s2 = vs_out s1 @ [pv]"
      "vs_assignments s2 = []" "encodeVerifiedPacket abi_v1 k g (vs_writeSequence s1) h f = Some pv"
    using prod h(4) f s1(5,6) by auto
  have "run peer_step (s, R_Read) (quick now p # replicate 6 (E_Reader now True ans)) (s2, R_Loop)"
    using run_append [OF s2(1) s1(1)] by (simp add: numeral_nat)
  then show ?thesis using s1 s2 by auto
qed

text \<open>A peer with one authenticated connection, opened and waiting for a packet.\<close>

definition peer_demo_producer :: producer where
  "peer_demo_producer = fold producer_step sample_events Map.empty"

lemma peer_demo_open:
  "\<exists>s p0. peer_step (started 9 peer_key peer_demo_producer, R_Loop) (E_Open 3 True) (s, R_Loop) \<and>
     vs_running s \<and> vs_out s = [p0] \<and> vs_readSequence s = 1 \<and> vs_writeSequence s = 2 \<and>
     encodeConnectionOpenPacket abi_v1 peer_key 9 1 1 = Some p0 \<and>
     vs_producer s = peer_demo_producer \<and> map_of (vs_connections s) 1 = Some 3"
proof -
  let ?s = "started 9 peer_key peer_demo_producer"
  let ?s1 = "?s\<lparr>vs_nextHandle := 2, vs_handles := AList.update 3 1 (vs_handles ?s),
      vs_connections := AList.update 1 3 (vs_connections ?s)\<rparr>"
  have op: "open_state 9 peer_key ?s1"
    by (simp add: started_def new_transport_def open_state_def keyed_def peer_key_def)
  then have "keyed peer_key ?s1" by (simp add: open_state_def)
  then obtain p0 where p0: "writeOpen True 1 ?s1 = peer_write True p0 (bump ?s1)"
      "encodeConnectionOpenPacket abi_v1 peer_key 9 1 1 = Some p0"
    using writeOpen_eq [of peer_key ?s1 1 True] by (auto simp: started_def new_transport_def)
  let ?s2 = "(bump ?s1)\<lparr>vs_out := vs_out ?s1 @ [p0]\<rparr>"
  have "peer_open True 3 ?s = ?s2"
    using p0(1) peer_write_cases [OF op, of True p0] peer_open_eq [of ?s 3 1 True]
    by (simp add: started_def new_transport_def)
  then have "peer_step (?s, R_Loop) (E_Open 3 True) (?s2, R_Loop)" by (simp add: peer_step_def)
  then show ?thesis
    using p0(2) by (intro exI [of _ ?s2] exI [of _ p0]) (simp add: started_def new_transport_def)
qed

lemma peer_demo_ready:
  "\<exists>s p0. run peer_step (started 9 peer_key peer_demo_producer, R_Loop) [E_Open 3 True, quick 0 []] (s, R_Read) \<and>
     vs_running s \<and> vs_out s = [p0] \<and> vs_readSequence s = 1 \<and>
     vs_producer s = peer_demo_producer \<and> map_of (vs_connections s) 1 = Some 3"
proof -
  from peer_demo_open obtain s p0 where s: "vs_running s" "vs_out s = [p0]" "vs_readSequence s = 1"
      "vs_producer s = peer_demo_producer" "map_of (vs_connections s) 1 = Some 3"
    and st: "peer_step (started 9 peer_key peer_demo_producer, R_Loop) (E_Open 3 True) (s, R_Loop)" by blast
  have "peer_step (s, R_Loop) (quick 0 []) (s, R_Read)" using s(1) by (simp add: peer_step_def)
  with st have "run peer_step (started 9 peer_key peer_demo_producer, R_Loop) [E_Open 3 True, quick 0 []] (s, R_Read)"
    by (intro run_cons run_one)
  with s show ?thesis by blast
qed

lemma peer_demo_init: "peer_init 9 peer_key (started 9 peer_key peer_demo_producer, R_Loop)"
  using producer_run_ok [OF producer_ok_empty] by (auto simp: peer_init_started peer_key_def peer_demo_producer_def)


lemma peer_demo_answer:
  "\<exists>s p. reachable (peer_init 9 peer_key) peer_step (s, R_Read) \<and> vs_running s \<and> length (vs_out s) = 1 \<and>
    encodeAssignmentPacket abi_v1 peer_key 9 (vs_readSequence s) 1 (replicate 16 5) 4000 = Some p \<and>
    map_of (vs_connections s) 1 = Some 3 \<and>
    produce (vs_producer s) 3 (Some (replicate 16 5)) 4000 1500 = Some (the sample_frame)"
proof -
  from peer_demo_ready obtain s p0 where s: "run peer_step (started 9 peer_key peer_demo_producer, R_Loop)
      [E_Open 3 True, quick 0 []] (s, R_Read)" "vs_running s" "vs_out s = [p0]" "vs_readSequence s = 1"
      "vs_producer s = peer_demo_producer" "map_of (vs_connections s) 1 = Some 3" by blast
  have "reachable (peer_init 9 peer_key) peer_step (s, R_Read)"
    using s(1) peer_demo_init unfolding reachable_def by blast
  moreover obtain p where "encodeAssignmentPacket abi_v1 peer_key 9 1 1 (replicate 16 5) 4000 = Some p"
    using assignment_packet_shape [OF abi_v1_ok, of "replicate 16 5" peer_key 9 1 1 4000] by auto
  moreover have "produce peer_demo_producer 3 (Some (replicate 16 5)) 4000 1500 = Some (the sample_frame)"
    using sample_frame_Some by (simp add: sample_frame_def peer_demo_producer_def)
  ultimately show ?thesis using s by auto
qed

lemma peer_demo_nonzero: "\<not> isZero (replicate 16 5)"
  by code_simp

lemma peer_demo_times: "sint (1500 :: u64) < sint (4000 :: u64)" "0 < sint (4000 - 1500 :: u64)" "sint (4000 - 1500 :: u64) \<le> 5000"
  by simp_all


theorem peer_packets_decode_witness:
  "\<exists>s r d. reachable (peer_init 9 peer_key) peer_step (s, r) \<and> length (vs_out s) = 3 \<and>
     decodeAuthenticatedPacket abi_v1 (vs_out s ! 2) peer_key 9 3 = Some (Inr d) \<and>
     ap_typ d \<in> {SubprocessAssignmentACK abi_v1, SubprocessVerifiedIngress abi_v1, SubprocessConnectionOpen abi_v1}"
proof -
  obtain s p where s: "reachable (peer_init 9 peer_key) peer_step (s, R_Read)" "vs_running s" "length (vs_out s) = 1"
      "encodeAssignmentPacket abi_v1 peer_key 9 (vs_readSequence s) 1 (replicate 16 5) 4000 = Some p"
      "map_of (vs_connections s) 1 = Some 3"
      "produce (vs_producer s) 3 (Some (replicate 16 5)) 4000 1500 = Some (the sample_frame)"
    using peer_demo_answer by blast
  from handshake_steps [OF np.reachable_inv [OF s(1)] s(2,4) _ _ peer_demo_nonzero s(5) peer_demo_times s(6), of ReadEOF]
  obtain s' pa pv where s': "run peer_step (s, R_Read) (quick 1500 p # replicate 6 (E_Reader 1500 True ReadEOF)) (s', R_Loop)"
      "vs_out s' = vs_out s @ [pa, pv]" by auto
  have "reachable (peer_init 9 peer_key) peer_step (s', R_Loop)" by (rule np.reachable_run [OF s(1) s'(1)])
  then show ?thesis
    using peer_packets_decode [of 9 peer_key s' R_Loop 2] s'(2) s(3) by auto
qed

section \<open>A closed transport stays closed\<close>

lemma closed_reader:
  assumes cl: "closed_state s" and loc: "locals_ok r" and st: "reader_step now ok a s r = Some (s', r')"
  shows "closed_state s' \<and> vs_out s' = vs_out s"
proof -
  have facts: "vs_key s = None" "\<not> vs_input s" "\<not> vs_running s" "\<And>h. map_of (vs_connections s) h = None"
    "\<And>h. map_of (vs_assignments s) h = None"
    using cl by (auto simp: closed_state_def)
  have bump: "closed_state (closeTransport (bump s))" "vs_out (closeTransport (bump s)) = vs_out s"
    using closeTransport_facts [of "bump s"] by simp_all
  show ?thesis
  proof (cases r)
    case (R_Ack h c e positive)
    then show ?thesis
      using loc st bump writeAck_closed [OF facts(1), of c ok h] by (auto simp: reader_throws_def split: if_splits)
  next
    case (R_Write h c e f)
    then show ?thesis using st bump writeVerified_closed [OF facts(1), of ok h f] by auto
  qed (use st cl facts in \<open>auto simp: reader_throws_def peer_accept_def emitVerified_connection_def
      claimAssignment_def clearAssignment_def split: option.splits\<close>)
qed

lemma closed_step:
  assumes cl: "closed_state s" and loc: "locals_ok r" and st: "peer_step (s, r) ev (s', r')"
  shows "closed_state s' \<and> vs_out s' = vs_out s"
proof (cases ev)
  case (E_Reader now ok a)
  then show ?thesis using closed_reader [OF cl loc] st by (simp add: peer_step_def)
qed (use cl st in \<open>auto simp: peer_step_def peer_open_def peer_close_def peer_expire_def closed_state_def
    split: list.splits option.splits\<close>)

interpretation npc: invariant_system "\<lambda>x. peer_inv g k x \<and> closed_state (fst x) \<and> vs_out (fst x) = out" peer_step
  "\<lambda>x. peer_inv g k x \<and> closed_state (fst x) \<and> vs_out (fst x) = out" for g k out
proof (unfold_locales, assumption)
  fix x ev y
  assume st: "peer_step x ev y" and inv: "peer_inv g k x \<and> closed_state (fst x) \<and> vs_out (fst x) = out"
  have "locals_ok (snd x)" using inv by (cases x) (auto simp: peer_inv_def)
  then have "closed_state (fst y) \<and> vs_out (fst y) = vs_out (fst x)"
    using closed_step [of "fst x" "snd x" ev "fst y" "snd y"] st inv by simp
  then show "peer_inv g k y \<and> closed_state (fst y) \<and> vs_out (fst y) = out"
    using peer_inv_step [OF st] inv by auto
qed



end
