(* ===== verification/Peer_Link.thy ===== *)
theory Peer_Link
  imports Peer_System Session_Drain
begin

text \<open>
  The two ends of the socket together: the subprocess ingress session of the Go side, with
  any number of concurrent \<open>assign\<close> calls, and the native peer with its threads. Packets keep
  their boundaries and their order, as on the packet socket \<^verbatim>\<open>go/subprocess_unix.go\<close>
  creates; either end may see the connection end at any time. The theorems: neither end ever
  rejects a packet of the other, and every verified frame the Go session accepts was made
  from an authenticated principal.
\<close>

section \<open>The system\<close>

text \<open>\<open>lk_up\<close> and \<open>lk_down\<close> count the packets the Go session and the peer have read.\<close>

record 'e link =
  lk_go :: "'e session_system"
  lk_peer :: peer
  lk_reader :: reader
  lk_up :: nat
  lk_down :: nat

datatype 'e link_event = L_Go "'e session_event" | L_GoRead | L_Peer peer_event | L_PeerRead u64 bool

text \<open>
  What the broker passes to \<open>assign\<close>: the handle of a connection the peer has opened, which is
  not zero, and a correlation, a Go array of 16 bytes.
\<close>

definition wf_assignment :: "ConnectionAssignment \<Rightarrow> bool" where
  "wf_assignment a \<longleftrightarrow> ca_handle a \<noteq> 0 \<and> length (ca_correlation a) = 16"

inductive lkstep :: "'e link \<Rightarrow> 'e link_event \<Rightarrow> 'e link \<Rightarrow> bool" where
  lk_go: "sxstep abi_v1 (lk_go x) e y \<Longrightarrow> (\<And>b. e \<noteq> XRead (Inr b)) \<Longrightarrow>
    (\<And>a. e = XEnter a \<Longrightarrow> wf_assignment a) \<Longrightarrow> lkstep x (L_Go e) (x\<lparr>lk_go := y\<rparr>)"
| lk_go_read: "lk_up x < length (vs_out (lk_peer x)) \<Longrightarrow>
    sxstep abi_v1 (lk_go x) (XRead (Inr (vs_out (lk_peer x) ! lk_up x))) y \<Longrightarrow>
    lkstep x L_GoRead (x\<lparr>lk_go := y, lk_up := Suc (lk_up x)\<rparr>)"
| lk_peer: "peer_step (lk_peer x, lk_reader x) e (p, r) \<Longrightarrow>
    (\<And>now ok b. lk_reader x = R_Read \<Longrightarrow> e \<noteq> E_Reader now ok (ReadPacket b)) \<Longrightarrow>
    lkstep x (L_Peer e) (x\<lparr>lk_peer := p, lk_reader := r\<rparr>)"
| lk_peer_read: "lk_reader x = R_Read \<Longrightarrow> lk_down x < length (ss_sent (sx_session (lk_go x))) \<Longrightarrow>
    peer_step (lk_peer x, R_Read)
      (E_Reader now ok (ReadPacket (ss_sent (sx_session (lk_go x)) ! lk_down x))) (p, r) \<Longrightarrow>
    lkstep x (L_PeerRead now ok) (x\<lparr>lk_peer := p, lk_reader := r, lk_down := Suc (lk_down x)\<rparr>)"

definition lkinit :: "u64 \<Rightarrow> bytes \<Rightarrow> 'e link \<Rightarrow> bool" where
  "lkinit g key x \<longleftrightarrow> sxinit g key (lk_go x) \<and> peer_init g key (lk_peer x, lk_reader x) \<and>
     lk_up x = 0 \<and> lk_down x = 0"

section \<open>What the peer's steps do to its read counter\<close>

definition keeps_rs :: "'a act \<Rightarrow> bool" where
  "keeps_rs m \<longleftrightarrow> (\<forall>s. vs_readSequence (snd (m s)) = vs_readSequence s)"

lemma keeps_rs_bind: "keeps_rs m \<Longrightarrow> (\<And>x. keeps_rs (f x)) \<Longrightarrow> keeps_rs (act_bind m f)"
  by (auto simp: keeps_rs_def act_bind_def split: prod.split sum.split) (metis snd_conv)+

lemma keeps_rs_parts:
  "keeps_rs (or_throw e x)" "keeps_rs (peer_prefix ty h n)" "keeps_rs (peer_hmac p off)" "keeps_rs (peer_write ok p)"
  by (auto simp: keeps_rs_def or_throw_def peer_prefix_eq peer_hmac_def peer_write_def split: option.splits)

lemma keeps_rs_writes:
  "keeps_rs (writeOpen ok h)" "keeps_rs (writeAck ok h c st)" "keeps_rs (writeVerified ok h f)"
  by (auto simp: writeOpen_def writeAck_def writeVerified_def peer_sign_def intro!: keeps_rs_bind keeps_rs_parts)

lemma closeTransport_rs: "vs_readSequence (closeTransport s) = vs_readSequence s"
  by (simp add: closeTransport_def fold_cancelExpiry Let_def)

lemma cancelExpiry_rs: "vs_readSequence (cancelExpiry a s) = vs_readSequence s"
  by (simp add: cancelExpiry_def split: option.splits)

lemma reader_throws_rs: "reader_throws e s = (s', r') \<Longrightarrow> vs_readSequence s' = vs_readSequence s"
  by (auto simp: reader_throws_def closeTransport_rs split: if_splits)

lemma tables_rs:
  "vs_readSequence (peer_close c s) = vs_readSequence s" "vs_readSequence (peer_expire h k e s) = vs_readSequence s"
  "vs_readSequence (clearAssignment h k e s) = vs_readSequence s"
  "vs_readSequence (snd (claimAssignment now h f s)) = vs_readSequence s"
  "vs_readSequence (snd (peer_accept now h k e s)) = vs_readSequence s"
  by (simp_all add: peer_close_def peer_expire_def clearAssignment_def claimAssignment_def peer_accept_def Let_def
      cancelExpiry_rs split: option.splits)

lemma open_rs: "vs_readSequence (peer_open ok c s) = vs_readSequence s"
proof (cases "vs_running s \<and> map_of (vs_handles s) c = None")
  case True
  define h where "h = (if vs_nextHandle s = 0 then 1 else vs_nextHandle s)"
  let ?s1 = "s\<lparr>vs_nextHandle := h + 1, vs_handles := AList.update c h (vs_handles s),
      vs_connections := AList.update h c (vs_connections s)\<rparr>"
  obtain res t where w: "writeOpen ok h ?s1 = (res, t)" by force
  have "vs_readSequence t = vs_readSequence s"
    using keeps_rs_writes(1) [of ok h, unfolded keeps_rs_def, rule_format, of ?s1] unfolding w by simp
  then show ?thesis
    unfolding peer_open_eq [OF conjunct1 [OF True] conjunct2 [OF True] h_def] w
    by (simp add: closeTransport_rs split: sum.split)
qed (auto simp: peer_open_def)

lemma reader_rs:
  assumes "reader_step now ok a s r = Some (s', r')" "r = R_Read \<Longrightarrow> (\<And>b. a \<noteq> ReadPacket b)"
  shows "vs_readSequence s' = vs_readSequence s"
proof (cases r)
  case R_Read
  then show ?thesis
    using assms by (cases a) (auto simp: peer_read_def dest: reader_throws_rs split: if_splits)
next
  case (R_Accept h c e)
  obtain res t where w: "peer_accept now h c e s = (res, t)" by force
  then show ?thesis
    using assms(1) R_Accept tables_rs(5) [of now h c e s] by (cases res) (auto dest: reader_throws_rs)
next
  case (R_Ack h c e positive)
  obtain res t where w: "writeAck ok h c (if positive then 0 else 1) s = (res, t)" by force
  have "vs_readSequence t = vs_readSequence s"
    using keeps_rs_writes(2) [of ok h c, unfolded keeps_rs_def, rule_format, of _ s] w by (metis snd_conv)
  then show ?thesis
    using assms(1) R_Ack w by (cases res) (auto dest: reader_throws_rs)
next
  case (R_Claim h c e f)
  then show ?thesis
    using assms(1) tables_rs(4) [of now h f s] by (auto split: prod.splits option.splits)
next
  case (R_Write h c e f)
  obtain res t where w: "writeVerified ok h f s = (res, t)" by force
  have "vs_readSequence t = vs_readSequence s"
    using keeps_rs_writes(3) [of ok h f, unfolded keeps_rs_def, rule_format, of s] w by simp
  then show ?thesis using assms(1) R_Write w by (cases res) (auto simp: closeTransport_rs)
qed (use assms(1) in \<open>auto simp: tables_rs split: option.splits\<close>)

lemma peer_step_rs:
  assumes "peer_step (s, r) e (s', r')" "\<And>now ok b. r = R_Read \<Longrightarrow> e \<noteq> E_Reader now ok (ReadPacket b)"
  shows "vs_readSequence s' = vs_readSequence s"
proof (cases e)
  case (E_Reader now ok a)
  then show ?thesis using assms by (intro reader_rs [of now ok a s r s' r']) (auto simp: peer_step_def)
qed (use assms(1) in \<open>auto simp: peer_step_def tables_rs open_rs split: option.splits list.splits\<close>)

section \<open>What the session's steps do to its packets\<close>

lemma assign_write_sent:
  assumes "assign_write A now result a (s, b) = Some (r, s', b')" "abi_ok A"
  shows "ss_sent s' = ss_sent s \<or>
    (\<exists>p. ss_sent s' = ss_sent s @ [p] \<and> encodeAssignmentPacket A (ss_key s) (ss_generation s) (ss_writeSequence s + 1)
       (ca_handle a) (ca_correlation a) (unix_milli (ca_expiresAt a)) = Some p)"
proof -
  have st: "session_status A" using assms(2) by (simp add: session_status_def abi_layout_def)
  have rm: "ss_sent (removePending k t) = ss_sent t" for k and t :: "'a subprocessIngressSession"
    by (simp add: removePending_def split: option.splits)
  have fail: "session_fail A e (t, b) = (t', b'') \<Longrightarrow> ss_sent t' = ss_sent t" for e b'' and t t' :: "'a subprocessIngressSession"
    using session_status.session_fail_quieter [OF st, of e t b t' b''] by (simp add: quieter_def)
  show ?thesis
    using assms(1) by (auto simp: assign_write_def Let_def rm dest: fail split: if_splits option.splits prod.splits)
qed

lemma removePending_sent: "ss_sent (removePending k s) = ss_sent s"
  by (simp add: removePending_def split: option.splits)

lemma sxstep_sent:
  assumes "sxstep abi_v1 x e y"
  shows "ss_sent (sx_session y) = ss_sent (sx_session x) \<or>
    (\<exists>a ph p. (a, ph) \<in> set (sx_calls x) \<and> ss_sent (sx_session y) = ss_sent (sx_session x) @ [p] \<and>
       encodeAssignmentPacket abi_v1 (ss_key (sx_session x)) (ss_generation (sx_session x))
         (ss_writeSequence (sx_session x) + 1) (ca_handle a) (ca_correlation a) (unix_milli (ca_expiresAt a)) = Some p)"
  using assms
proof cases
  case (sx_write a w now result s b)
  then show ?thesis using assign_write_sent [OF sx_write(4) abi_v1_ok] by auto
next
  case (sx_write_error a w now result rc s b)
  then show ?thesis using assign_write_sent [OF sx_write_error(4) abi_v1_ok] by (auto simp: assign_return_def)
next
  case (sx_finish a w now wake rc s)
  then show ?thesis using v1s.assign_finish_quieter [OF sx_finish(4)] by (simp add: quieter_def assign_return_def)
next
  case (sx_read now input go sq s b)
  from sx_read(4) show ?thesis by (cases rule: v1s.readLoop_step_cases) (auto simp: sx_read(2) quieter_def)
next
  case (sx_expire k t)
  then show ?thesis using v1s.expirePending_quieter [of "sx_session x" k t] by (simp add: quieter_def)
next
  case (sx_close reason s b)
  then show ?thesis using v1s.session_close_quieter [OF sx_close(3)] by (simp add: quieter_def)
qed (auto simp: assign_enter_def assign_register_def assign_written_def assign_return_def session_wait_def Let_def
    removePending_sent split: if_splits)

lemma sxstep_calls:
  assumes "sxstep A x e y" "\<forall>(a, ph) \<in> set (sx_calls x). wf_assignment a" "\<And>a. e = XEnter a \<Longrightarrow> wf_assignment a"
  shows "\<forall>(a, ph) \<in> set (sx_calls y). wf_assignment a"
proof -
  have "wf_assignment a" if "(a, ph) \<in> set (remove1 z (sx_calls x))" for a ph z
    using that assms(2) notin_set_remove1 by fastforce
  with assms show ?thesis by cases fastforce+
qed

lemma sxstep_log:
  assumes "sxstep A x e y"
  shows "(\<And>b. e \<noteq> XRead (Inr b)) \<Longrightarrow> sx_log y = sx_log x \<and> (sx_reading y \<longrightarrow> sx_reading x)"
    and "e = XRead (Inr b) \<Longrightarrow> decodeAuthenticatedPacket A b (ss_key (sx_session x)) (ss_generation (sx_session x))
      (sx_sequence x) = Some (Inr d) \<Longrightarrow> sx_log y = sx_log x @ [d] \<and> sx_reading x"
  using assms by (cases; auto simp: accepted_def split: sum.splits)+

section \<open>The invariant of the link\<close>

definition sent_wf :: "u64 \<Rightarrow> bytes \<Rightarrow> 'e session_system \<Rightarrow> bool" where
  "sent_wf g key x \<longleftrightarrow> (\<forall>(a, ph) \<in> set (sx_calls x). wf_assignment a) \<and>
     (\<forall>i < length (ss_sent (sx_session x)). \<exists>h c ms. h \<noteq> 0 \<and> length c = 16 \<and>
        encodeAssignmentPacket abi_v1 key g (of_nat (Suc i)) h c ms = Some (ss_sent (sx_session x) ! i))"

lemma sent_wf_step:
  assumes st: "sxstep abi_v1 x e y" and inv: "sess_inv abi_v1 g key x" and wf: "sent_wf g key x"
    and en: "\<And>a. e = XEnter a \<Longrightarrow> wf_assignment a"
  shows "sent_wf g key y"
proof -
  have calls: "\<forall>(a, ph) \<in> set (sx_calls y). wf_assignment a"
    using sxstep_calls [OF st _ en] wf by (simp add: sent_wf_def)
  let ?l = "ss_sent (sx_session x)"
  from sxstep_sent [OF st] show ?thesis
  proof
    assume "ss_sent (sx_session y) = ?l"
    then show ?thesis using wf calls by (simp add: sent_wf_def)
  next
    assume "\<exists>a ph p. (a, ph) \<in> set (sx_calls x) \<and> ss_sent (sx_session y) = ?l @ [p] \<and>
       encodeAssignmentPacket abi_v1 (ss_key (sx_session x)) (ss_generation (sx_session x))
         (ss_writeSequence (sx_session x) + 1) (ca_handle a) (ca_correlation a) (unix_milli (ca_expiresAt a)) = Some p"
    then obtain a ph p where a: "(a, ph) \<in> set (sx_calls x)" "ss_sent (sx_session y) = ?l @ [p]"
      "encodeAssignmentPacket abi_v1 (ss_key (sx_session x)) (ss_generation (sx_session x))
         (ss_writeSequence (sx_session x) + 1) (ca_handle a) (ca_correlation a) (unix_milli (ca_expiresAt a)) = Some p"
      by blast
    have id: "ss_key (sx_session x) = key" "ss_generation (sx_session x) = g"
        "ss_writeSequence (sx_session x) + 1 = of_nat (Suc (length ?l))"
      using inv a(1) by (auto simp: sess_inv_def ident_ok_def sent_ok_def)
    have "wf_assignment a" using a(1) wf by (auto simp: sent_wf_def)
    then have "\<exists>h c ms. h \<noteq> 0 \<and> length c = 16 \<and>
        encodeAssignmentPacket abi_v1 key g (of_nat (Suc i)) h c ms = Some ((?l @ [p]) ! i)" if "i < Suc (length ?l)" for i
    proof (cases "i = length ?l")
      case True
      then show ?thesis using a(3) \<open>wf_assignment a\<close> unfolding id wf_assignment_def by auto
    next
      case False
      then have "i < length ?l" using that by simp
      then show ?thesis using wf by (simp add: sent_wf_def nth_append del: of_nat_Suc)
    qed
    then show ?thesis using calls a(2) by (simp add: sent_wf_def del: of_nat_Suc)
  qed
qed

text \<open>A packet the Go session has accepted from the peer.\<close>

definition from_peer :: "authenticatedPacket \<Rightarrow> bool" where
  "from_peer d \<longleftrightarrow> ap_typ d \<in> {2, 3, 4} \<and> (ap_typ d = 3 \<longrightarrow> (\<exists>c. genuine c (ap_payload d)))"

definition lk_inv :: "u64 \<Rightarrow> bytes \<Rightarrow> 'e link \<Rightarrow> bool" where
  "lk_inv g key x \<longleftrightarrow> sess_inv abi_v1 g key (lk_go x) \<and> log_ok g (lk_go x) \<and> sent_wf g key (lk_go x) \<and>
     peer_inv g key (lk_peer x, lk_reader x) \<and>
     (vs_running (lk_peer x) \<longrightarrow> vs_readSequence (lk_peer x) = of_nat (Suc (lk_down x))) \<and>
     (lk_up x < 2 ^ 64 \<longrightarrow> (sx_reading (lk_go x) \<longrightarrow> length (sx_log (lk_go x)) = lk_up x) \<and>
        list_all from_peer (sx_log (lk_go x)))"

lemma from_peer_msg:
  assumes "msgs_ok g k s r ms" "n < length (vs_out s)"
  shows "from_peer (msg_packet g q (ms ! n))"
proof (cases "ms ! n")
  case (M_Verified h f)
  have "msgs_answered ms" "n < length ms" using assms by (auto simp: msgs_ok_def)
  from msgs_answered_nth [OF this M_Verified] have "\<exists>c. genuine c f" by metis
  then show ?thesis by (simp add: M_Verified from_peer_def)
qed (simp_all add: from_peer_def)

text \<open>The next packet for the Go session decodes.\<close>

lemma go_decodes:
  assumes inv: "lk_inv g key x" and r: "sx_reading (lk_go x)"
    and n: "lk_up x < length (vs_out (lk_peer x))" "Suc (lk_up x) < 2 ^ 64"
  obtains d where "from_peer d"
    "decodeAuthenticatedPacket abi_v1 (vs_out (lk_peer x) ! lk_up x) (ss_key (sx_session (lk_go x)))
      (ss_generation (sx_session (lk_go x))) (sx_sequence (lk_go x)) = Some (Inr d)"
proof -
  have id: "ss_key (sx_session (lk_go x)) = key" "ss_generation (sx_session (lk_go x)) = g"
    "sx_sequence (lk_go x) = of_nat (Suc (lk_up x))"
    using inv r n(2) by (auto simp: lk_inv_def sess_inv_def ident_ok_def log_ok_def)
  obtain ms where ms: "msgs_ok g key (lk_peer x) (lk_reader x) ms" and gk: "g \<noteq> 0" "length key = 32"
    using inv by (auto simp: lk_inv_def peer_inv_def)
  show thesis
    by (rule that [OF from_peer_msg [OF ms n(1)]]) (simp only: id log_decode [OF ms n gk])
qed

text \<open>The next packet for the peer decodes.\<close>

lemma peer_decodes:
  assumes inv: "lk_inv g key x" and run: "vs_running (lk_peer x)"
    and n: "lk_down x < length (ss_sent (sx_session (lk_go x)))"
  obtains h c e p where "decodeAssignment (ss_sent (sx_session (lk_go x)) ! lk_down x) (lk_peer x) = (Inr (h, c, e), p)"
    "p = (lk_peer x)\<lparr>vs_readSequence := of_nat (Suc (Suc (lk_down x)))\<rparr>"
proof -
  let ?p = "lk_peer x" and ?b = "ss_sent (sx_session (lk_go x)) ! lk_down x"
  have key: "keyed key ?p" "vs_generation ?p = g" "vs_readSequence ?p = of_nat (Suc (lk_down x))"
    using inv run by (auto simp: lk_inv_def peer_inv_def open_state_def closed_state_def)
  obtain h c ms where "h \<noteq> 0" "length c = 16" "encodeAssignmentPacket abi_v1 key g (of_nat (Suc (lk_down x))) h c ms = Some ?b"
    using inv n unfolding lk_inv_def sent_wf_def by blast
  then have "fst (decodeAssignment ?b ?p) = Inr (h, c, ms)"
    using decodeAssignment_exact [OF key(1), of ?b h c ms] key by simp
  then obtain p where d: "decodeAssignment ?b ?p = (Inr (h, c, ms), p)" by (cases "decodeAssignment ?b ?p") auto
  moreover have "p = ?p\<lparr>vs_readSequence := of_nat (Suc (Suc (lk_down x)))\<rparr>"
    using d by (rule decodeAssignment_cases [OF key(1)]) (auto simp: key(3) add.commute)
  ultimately show thesis by (rule that)
qed

lemma not_running_stays:
  assumes "peer_inv g k (s, r)" "peer_step (s, r) e (s', r')" "vs_running s'"
  shows "vs_running s"
proof (rule ccontr)
  assume "\<not> vs_running s"
  then have "closed_state s" "locals_ok r" using assms(1) by (auto simp: peer_inv_def open_state_def)
  from closed_step [OF this assms(2)] show False using assms(3) by (simp add: closed_state_def)
qed

lemma decodeAssignment_length: "fst (decodeAssignment p s) = Inr t \<Longrightarrow> length p = 82"
  by (auto simp: decodeAssignment_def split: if_splits)

lemma peer_read_rs:
  assumes inv: "lk_inv g key x" and r: "lk_reader x = R_Read"
    and n: "lk_down x < length (ss_sent (sx_session (lk_go x)))"
    and st: "peer_step (lk_peer x, R_Read) (E_Reader now ok (ReadPacket (ss_sent (sx_session (lk_go x)) ! lk_down x))) (p, r')"
    and run: "vs_running p"
  shows "vs_readSequence p = of_nat (Suc (Suc (lk_down x)))"
proof -
  let ?b = "ss_sent (sx_session (lk_go x)) ! lk_down x"
  have pinv: "peer_inv g key (lk_peer x, R_Read)" using inv r by (simp add: lk_inv_def)
  have run': "vs_running (lk_peer x)" by (rule not_running_stays [OF pinv st run])
  then have "vs_input (lk_peer x)" using pinv by (auto simp: peer_inv_def closed_state_def open_state_def)
  moreover obtain h c e q where d: "decodeAssignment ?b (lk_peer x) = (Inr (h, c, e), q)"
      "q = (lk_peer x)\<lparr>vs_readSequence := of_nat (Suc (Suc (lk_down x)))\<rparr>"
    by (rule peer_decodes [OF inv run' n])
  moreover have "length ?b = 82" using decodeAssignment_length [of ?b "lk_peer x"] d(1) by simp
  ultimately have "p = q" using st by (simp add: peer_step_def peer_read_def)
  then show ?thesis using d(2) by simp
qed

lemma lk_inv_step:
  assumes st: "lkstep x ev y" and inv: "lk_inv g key x"
  shows "lk_inv g key y"
proof -
  have i: "sess_inv abi_v1 g key (lk_go x)" "log_ok g (lk_go x)" "sent_wf g key (lk_go x)"
      "peer_inv g key (lk_peer x, lk_reader x)" "ss_generation (sx_session (lk_go x)) = g"
    using inv by (auto simp: lk_inv_def sess_inv_def ident_ok_def)
  have go: "sess_inv abi_v1 g key z \<and> log_ok g z \<and> sent_wf g key z"
    if "sxstep abi_v1 (lk_go x) e z" "\<And>a. e = XEnter a \<Longrightarrow> wf_assignment a" for e z
    using v1s.sxstep_inv [OF that(1) i(1)] log_ok_step [OF that(1) i(2,5)] sent_wf_step [OF that(1) i(1,3) that(2)] by blast
  from st show ?thesis
  proof cases
    case (lk_go e z)
    then show ?thesis
      using go [of e z] sxstep_log(1) [OF lk_go(3,4)] inv by (auto simp: lk_inv_def)
  next
    case (lk_go_read z)
    have rd: "sx_reading (lk_go x)" using lk_go_read(4) by cases
    have "(sx_reading z \<longrightarrow> length (sx_log z) = Suc (lk_up x)) \<and> list_all from_peer (sx_log z)"
      if up: "Suc (lk_up x) < 2 ^ 64"
    proof -
      obtain d where d: "from_peer d" "decodeAuthenticatedPacket abi_v1 (vs_out (lk_peer x) ! lk_up x)
          (ss_key (sx_session (lk_go x))) (ss_generation (sx_session (lk_go x))) (sx_sequence (lk_go x)) = Some (Inr d)"
        by (rule go_decodes [OF inv rd lk_go_read(3) up])
      then show ?thesis
        using sxstep_log(2) [OF lk_go_read(4) refl d(2)] inv up rd d(1) by (auto simp: lk_inv_def)
    qed
    then show ?thesis using lk_go_read go [OF lk_go_read(4)] inv by (auto simp: lk_inv_def)
  next
    case (lk_peer e p r)
    then show ?thesis
      using inv peer_inv_step [OF lk_peer(3) i(4)] not_running_stays [OF i(4) lk_peer(3)]
        peer_step_rs [OF lk_peer(3,4)]
      by (auto simp: lk_inv_def)
  next
    case (lk_peer_read now ok p r)
    have "peer_inv g key (p, r)" using peer_inv_step [OF lk_peer_read(5)] i(4) lk_peer_read(3) by simp
    then show ?thesis
      using inv lk_peer_read peer_read_rs [OF inv lk_peer_read(3-5)] by (auto simp: lk_inv_def)
  qed
qed

lemma lk_inv_init:
  assumes "lkinit g key x"
  shows "lk_inv g key x"
proof -
  have go: "sess_inv abi_v1 g key (lk_go x)" "log_ok g (lk_go x)" "sent_wf g key (lk_go x)" "sx_log (lk_go x) = []"
    using assms sess_inv_init
    by (auto simp: lkinit_def sxinit_def log_ok_def sent_wf_def newSubprocessIngressSession_def)
  have peer: "peer_inv g key (lk_peer x, lk_reader x)" "vs_readSequence (lk_peer x) = 1"
    using assms peer_inv_init by (auto simp: lkinit_def peer_init_started started_def)
  show ?thesis using assms go peer by (simp add: lk_inv_def lkinit_def)
qed

interpretation lk: invariant_system "lkinit g key" lkstep "lk_inv g key" for g key
  by unfold_locales (auto intro: lk_inv_init lk_inv_step)

section \<open>A run of both ends\<close>

inductive_cases run_NilE: "run step s [] t"

lemma run_ConsE:
  assumes "run step s (e # es) u"
  obtains t where "step s e t" "run step t es u"
proof -
  have "\<exists>t. step s e t \<and> run step t es u" if "run step s l u" "l = e # es" for l
    using that
  proof (induction arbitrary: es rule: run.induct)
    case (run_snoc s fs t f u)
    then show ?case by (cases fs) (auto intro: run_nil run.run_snoc elim: run_NilE)
  qed simp
  then show thesis using assms that by blast
qed

lemma lift_go:
  assumes "run (sxstep abi_v1) g es g'" "lk_go x = g"
    "\<And>e. e \<in> set es \<Longrightarrow> (\<forall>b. e \<noteq> XRead (Inr b)) \<and> (\<forall>a. e = XEnter a \<longrightarrow> wf_assignment a)"
  shows "run lkstep x (map L_Go es) (x\<lparr>lk_go := g'\<rparr>)"
  using assms
proof (induction rule: run.induct)
  case (run_nil g)
  then show ?case using run.run_nil [of lkstep x] by (cases x) simp
next
  case (run_snoc g es h e u)
  have ok: "\<And>b. e \<noteq> XRead (Inr b)" "\<And>a. e = XEnter a \<Longrightarrow> wf_assignment a" using run_snoc(5) [of e] by simp_all
  have "lkstep (x\<lparr>lk_go := h\<rparr>) (L_Go e) (x\<lparr>lk_go := u\<rparr>)"
    using lk_go [of "x\<lparr>lk_go := h\<rparr>" e u, OF _ ok] run_snoc(2) by simp
  then show ?case using run_snoc by (auto intro: run.run_snoc)
qed

lemma lift_peer:
  assumes "run peer_step z es z'" "z = (lk_peer x, lk_reader x)" "\<And>now ok b. E_Reader now ok (ReadPacket b) \<notin> set es"
  shows "run lkstep x (map L_Peer es) (x\<lparr>lk_peer := fst z', lk_reader := snd z'\<rparr>)"
  using assms
proof (induction rule: run.induct)
  case (run_nil z)
  then show ?case using run.run_nil [of lkstep x] by (cases x) simp
next
  case (run_snoc z es t e u)
  have "lkstep (x\<lparr>lk_peer := fst t, lk_reader := snd t\<rparr>) (L_Peer e) (x\<lparr>lk_peer := fst u, lk_reader := snd u\<rparr>)"
    using lk_peer [of "x\<lparr>lk_peer := fst t, lk_reader := snd t\<rparr>" e "fst u" "snd u"] run_snoc by auto
  then show ?case using run_snoc by (auto intro: run.run_snoc)
qed

definition link_broker :: session_broker where
  "link_broker = broker_activate 9 (Some ()) (Some ()) (newIngressBroker 1)"

definition link_assignment :: ConnectionAssignment where
  "link_assignment = \<lparr>ca_generation = 9, ca_handle = 1, ca_correlation = replicate 16 5, ca_expiresAt = 4 * second\<rparr>"

definition link_demo :: "unit link" where
  "link_demo = \<lparr>lk_go = session_start (newSubprocessIngressSession 9 peer_key) link_broker,
     lk_peer = started 9 peer_key peer_demo_producer, lk_reader = R_Loop, lk_up = 0, lk_down = 0\<rparr>"

lemma link_demo_init: "lkinit 9 peer_key link_demo"
  by (simp add: lkinit_def link_demo_def session_start_init peer_demo_init)

text \<open>The session after its \<open>assign\<close> call has written the packet \<open>q\<close>.\<close>

definition link_session :: "bytes \<Rightarrow> unit subprocessIngressSession" where
  "link_session q = (newSubprocessIngressSession 9 peer_key)\<lparr>ss_ops := 1, ss_next := 1, ss_waiters := [(0, make_chan 1)],
     ss_timers := [(0, (1, replicate 16 5), 4 * second)],
     ss_pending := [((1, replicate 16 5), \<lparr>pe_waiter = 0, pe_expiresAt = 4 * second, pe_acknowledged = False, pe_timer = Some 0\<rparr>)],
     ss_writeSequence := 1, ss_sent := [q]\<rparr>"

lemma link_demo_assign:
  "\<exists>y q. run (sxstep abi_v1) (lk_go link_demo)
      [XEnter link_assignment, XRegister 0 link_assignment, XWrite 0 link_assignment] y \<and>
     encodeAssignmentPacket abi_v1 peer_key 9 1 1 (replicate 16 5) 4000 = Some q \<and> sx_session y = link_session q \<and>
     sx_broker y = link_broker \<and> sx_sequence y = 1 \<and> sx_reading y \<and> sx_log y = []"
proof -
  let ?x0 = "lk_go link_demo" and ?a = link_assignment
  let ?s1 = "(newSubprocessIngressSession 9 peer_key)\<lparr>ss_ops := 1\<rparr> :: unit subprocessIngressSession"
  let ?x1 = "?x0\<lparr>sx_session := ?s1, sx_calls := [(?a, Entered)]\<rparr>"
  have 1: "sxstep abi_v1 ?x0 (XEnter ?a) ?x1"
    using sx_enter [of ?x0 ?s1 abi_v1 ?a]
    by (simp add: assign_enter_def link_demo_def session_start_def newSubprocessIngressSession_def)
  obtain q where q: "encodeAssignmentPacket abi_v1 peer_key 9 1 1 (replicate 16 5) 4000 = Some q"
    using assignment_packet_shape [OF abi_v1_ok, of "replicate 16 5" peer_key 9 1 1 4000] by auto
  let ?s2 = "(link_session q)\<lparr>ss_writeSequence := 0, ss_sent := []\<rparr>"
  let ?x2 = "?x1\<lparr>sx_session := ?s2, sx_calls := [(?a, Registered 0)], sx_owner := [(0, pendingKey ?a)]\<rparr>"
  have "assign_register abi_v1 0 ?a ?s1 = (Inr 0, ?s2)"
    by (simp add: assign_register_def newSubprocessIngressSession_def link_assignment_def remaining_ok_def time_sub_def
        link_session_def pendingKey_def Let_def)
  then have 2: "sxstep abi_v1 ?x1 (XRegister 0 ?a) ?x2"
    using sx_register [of ?a ?x1 abi_v1 0 0 ?s2] by (simp add: link_demo_def session_start_def)
  have "assign_write abi_v1 0 (length q, None) ?a (?s2, sx_broker ?x2) = Some (Inr (), link_session q, sx_broker ?x2)"
    using q by (simp add: assign_write_def remaining_ok_def time_sub_def link_assignment_def writeFullPacket_def
        link_session_def newSubprocessIngressSession_def unix_milli_def Let_def)
  then have 3: "sxstep abi_v1 ?x2 (XWrite 0 ?a)
      (?x2\<lparr>sx_session := link_session q, sx_broker := sx_broker ?x2, sx_calls := [(?a, Written 0)]\<rparr>)"
    using sx_write [of ?a 0 ?x2 abi_v1 0 "(length q, None)" "link_session q" "sx_broker ?x2"] by simp
  note step = run_cons [where step = "sxstep abi_v1"]
  from step [OF 1 step [OF 2 step [OF 3 run_nil]]] show ?thesis
    using q by (intro exI [of _ "?x2\<lparr>sx_session := link_session q, sx_broker := sx_broker ?x2, sx_calls := [(?a, Written 0)]\<rparr>"] exI [of _ q])
      (simp add: link_demo_def session_start_def)
qed

text \<open>The Go read loop over the three packets of the peer.\<close>

lemma link_broker_open: "\<exists>b. broker_open 0 9 1 link_broker = (None, None, b)"
  by (simp add: link_broker_def broker_activate_def newIngressBroker_def clearLocked_def dropPendings_def drain_eq
      make_chan_def broker_open_def evictStaleHandlesLocked_def assigningHandles_def maxIngressHandles_def try_send_def Let_def)

lemma link_demo_reads:
  assumes y: "sx_session y = link_session q" "sx_broker y = link_broker" "sx_sequence y = 1" "sx_reading y" "sx_log y = []"
    and p: "enc_msg peer_key 9 1 (M_Open 1) = Some p0" "enc_msg peer_key 9 2 (M_Ack 1 (replicate 16 5) True) = Some pa"
      "enc_msg peer_key 9 3 (M_Verified 1 f) = Some pv" "msg_ok (M_Verified 1 f)"
  shows "\<exists>y1 y2 y3. sxstep abi_v1 y (XRead (Inr p0)) y1 \<and> sxstep abi_v1 y1 (XRead (Inr pa)) y2 \<and>
    sxstep abi_v1 y2 (XRead (Inr pv)) y3 \<and> msg_packet 9 3 (M_Verified 1 f) \<in> set (sx_log y3)"
proof -
  have dec: "decodeAuthenticatedPacket abi_v1 p0 peer_key 9 1 = Some (Inr (msg_packet 9 1 (M_Open 1)))"
    "decodeAuthenticatedPacket abi_v1 pa peer_key 9 2 = Some (Inr (msg_packet 9 2 (M_Ack 1 (replicate 16 5) True)))"
    "decodeAuthenticatedPacket abi_v1 pv peer_key 9 3 = Some (Inr (msg_packet 9 3 (M_Verified 1 f)))"
    using p by (auto intro!: dec_msg simp: peer_key_def simp del: enc_msg.simps msg_packet.simps)
  have id: "ss_key (link_session q) = peer_key" "ss_generation (link_session q) = 9"
    by (simp_all add: link_session_def newSubprocessIngressSession_def)
  obtain b where b: "broker_open 0 9 1 link_broker = (None, None, b)" using link_broker_open by blast
  define y1 where "y1 = y\<lparr>sx_session := link_session q, sx_broker := b, sx_sequence := 2, sx_reading := True,
      sx_log := sx_log y @ accepted abi_v1 (Inr p0) (sx_sequence y) (sx_session y)\<rparr>"
  have "readLoop_step abi_v1 0 (Inr p0) 1 (link_session q, link_broker) = Some (True, 2, link_session q, b)"
    using dec(1) b by (simp add: readLoop_step_def handle_packet_def handle_open_def id)
  then have 1: "sxstep abi_v1 y (XRead (Inr p0)) y1"
    using sx_read [of y abi_v1 0 "Inr p0" True 2 "link_session q" b] y by (simp add: y1_def)
  obtain s2 where s2: "readLoop_step abi_v1 0 (Inr pa) 2 (link_session q, b) = Some (True, 3, s2, b)"
      "ss_key s2 = peer_key" "ss_generation s2 = 9"
    using dec(2) by (simp add: readLoop_step_def handle_packet_def handle_ack_def id)
      (simp add: link_session_def newSubprocessIngressSession_def Let_def)
  define y2 where "y2 = y1\<lparr>sx_session := s2, sx_broker := b, sx_sequence := 3, sx_reading := True,
      sx_log := sx_log y1 @ accepted abi_v1 (Inr pa) (sx_sequence y1) (sx_session y1)\<rparr>"
  have 2: "sxstep abi_v1 y1 (XRead (Inr pa)) y2"
    using sx_read [of y1 abi_v1 0 "Inr pa" True 3 s2 b] s2 by (simp add: y1_def y2_def)
  obtain go s3 b3 where s3: "handle_packet abi_v1 0 (msg_packet 9 3 (M_Verified 1 f)) (s2, b) = (go, s3, b3)"
    by (cases "handle_packet abi_v1 0 (msg_packet 9 3 (M_Verified 1 f)) (s2, b)") auto
  have "readLoop_step abi_v1 0 (Inr pv) 3 (s2, b) = Some (go, 4, s3, b3)"
    using dec(3) s2(2,3) s3 by (simp add: readLoop_step_def del: msg_packet.simps)
  then have 3: "sxstep abi_v1 y2 (XRead (Inr pv)) (y2\<lparr>sx_session := s3, sx_broker := b3, sx_sequence := 4,
      sx_reading := go, sx_log := sx_log y2 @ accepted abi_v1 (Inr pv) (sx_sequence y2) (sx_session y2)\<rparr>)"
    using sx_read [of y2 abi_v1 0 "Inr pv" go 4 s3 b3] by (simp add: y2_def)
  have "accepted abi_v1 (Inr pv) (sx_sequence y2) (sx_session y2) = [msg_packet 9 3 (M_Verified 1 f)]"
    using dec(3) s2(2,3) by (simp add: accepted_def y2_def del: msg_packet.simps)
  with 1 2 3 show ?thesis by fastforce
qed

text \<open>The peer opens a connection and waits; the session has assigned; the peer answers.\<close>

lemma link_demo_answered:
  "\<exists>y q s p0 pa pv. run (sxstep abi_v1) (lk_go link_demo)
      [XEnter link_assignment, XRegister 0 link_assignment, XWrite 0 link_assignment] y \<and>
     sx_session y = link_session q \<and> sx_broker y = link_broker \<and> sx_sequence y = 1 \<and> sx_reading y \<and> sx_log y = [] \<and>
     vs_out s = [p0, pa, pv] \<and> enc_msg peer_key 9 1 (M_Open 1) = Some p0 \<and>
     enc_msg peer_key 9 2 (M_Ack 1 (replicate 16 5) True) = Some pa \<and>
     enc_msg peer_key 9 3 (M_Verified 1 (the sample_frame)) = Some pv \<and> msg_ok (M_Verified 1 (the sample_frame)) \<and>
     reachable (lkinit 9 peer_key) lkstep (link_demo\<lparr>lk_go := y, lk_peer := s, lk_reader := R_Loop, lk_down := 1\<rparr>)"
proof -
  let ?s0 = "started 9 peer_key peer_demo_producer"
  from peer_demo_open obtain s p0 where s: "vs_running s" "vs_out s = [p0]" "vs_readSequence s = 1" "vs_writeSequence s = 2"
      "vs_producer s = peer_demo_producer" "map_of (vs_connections s) 1 = Some 3"
      "encodeConnectionOpenPacket abi_v1 peer_key 9 1 1 = Some p0"
    and st: "peer_step (?s0, R_Loop) (E_Open 3 True) (s, R_Loop)" by blast
  have "peer_step (s, R_Loop) (E_Reader 0 True jread.ReadEOF) (s, R_Read)" using s(1) by (simp add: peer_step_def)
  with st have r1: "run peer_step (?s0, R_Loop) [E_Open 3 True, E_Reader 0 True jread.ReadEOF] (s, R_Read)"
    by (intro run_cons run_one)
  from link_demo_assign obtain y q where y: "run (sxstep abi_v1) (lk_go link_demo)
      [XEnter link_assignment, XRegister 0 link_assignment, XWrite 0 link_assignment] y"
      "encodeAssignmentPacket abi_v1 peer_key 9 1 1 (replicate 16 5) 4000 = Some q" "sx_session y = link_session q"
      "sx_broker y = link_broker" "sx_sequence y = 1" "sx_reading y" "sx_log y = []" by blast
  have inv: "peer_inv 9 peer_key (s, R_Read)" by (rule np.run_inv [OF r1 peer_inv_init [OF peer_demo_init]])
  have f: "produce (vs_producer s) 3 (Some (replicate 16 5)) 4000 1500 = Some (the sample_frame)"
    using sample_frame_Some s(5) by (simp add: sample_frame_def peer_demo_producer_def)
  have prod: "producer_ok (vs_producer s)" using inv by (simp add: peer_inv_def)
  have fok: "msg_ok (M_Verified 1 (the sample_frame))"
    using produce_genuine [OF prod f] genuine_nonempty by (auto simp: Suc_le_eq)
  from handshake_steps [OF inv s(1) _ _ _ peer_demo_nonzero s(6) peer_demo_times f, of q jread.ReadEOF]
  obtain s' pa pv where h: "run peer_step (s, R_Read) (quick 1500 q # replicate 6 (E_Reader 1500 True jread.ReadEOF)) (s', R_Loop)"
      "vs_out s' = [p0, pa, pv]" "encodeACKPacket abi_v1 peer_key 9 2 1 (replicate 16 5) 0 = Some pa"
      "encodeVerifiedPacket abi_v1 peer_key 9 3 1 (the sample_frame) = Some pv"
    using y(2) s(2,3,4) by auto
  from h(1) obtain t where t: "peer_step (s, R_Read) (quick 1500 q) t"
      "run peer_step t (replicate 6 (E_Reader 1500 True jread.ReadEOF)) (s', R_Loop)" by (rule run_ConsE)
  let ?x1 = "link_demo\<lparr>lk_peer := s, lk_reader := R_Read\<rparr>" and ?x2 = "link_demo\<lparr>lk_peer := s, lk_reader := R_Read, lk_go := y\<rparr>"
  let ?x3 = "?x2\<lparr>lk_peer := fst t, lk_reader := snd t, lk_down := 1\<rparr>"
  have 1: "\<exists>es. run lkstep link_demo es ?x1"
    using lift_peer [OF r1, of link_demo] by (auto simp: link_demo_def)
  have 2: "\<exists>es. run lkstep ?x1 es ?x2"
    by (rule exI, rule lift_go [OF y(1)]) (auto simp: wf_assignment_def link_assignment_def)
  have 3: "lkstep ?x2 (L_PeerRead 1500 True) ?x3"
    using lk_peer_read [of ?x2 1500 True "fst t" "snd t"] t(1) y(3) by (simp add: link_session_def link_demo_def)
  have 4: "\<exists>es. run lkstep ?x3 es (?x3\<lparr>lk_peer := s', lk_reader := R_Loop\<rparr>)"
    using lift_peer [OF t(2), of ?x3] by auto
  have "\<exists>es. run lkstep link_demo es (?x3\<lparr>lk_peer := s', lk_reader := R_Loop\<rparr>)"
    using 1 2 run_one [of lkstep, OF 3] 4 by (blast intro: run_append)
  then have "reachable (lkinit 9 peer_key) lkstep (?x3\<lparr>lk_peer := s', lk_reader := R_Loop\<rparr>)"
    using link_demo_init unfolding reachable_def by blast
  then have "reachable (lkinit 9 peer_key) lkstep (link_demo\<lparr>lk_go := y, lk_peer := s', lk_reader := R_Loop, lk_down := 1\<rparr>)"
    by (simp add: link_demo_def)
  moreover have "enc_msg peer_key 9 1 (M_Open 1) = Some p0"
      "enc_msg peer_key 9 2 (M_Ack 1 (replicate 16 5) True) = Some pa"
      "enc_msg peer_key 9 3 (M_Verified 1 (the sample_frame)) = Some pv"
    using h(3,4) s(7) by simp_all
  ultimately show ?thesis using y(1,3-7) h(2) fok by blast
qed

lemma link_demo_run:
  "\<exists>x. reachable (lkinit 9 peer_key) lkstep (x :: unit link) \<and> lk_up x = 3 \<and>
     msg_packet 9 3 (M_Verified 1 (the sample_frame)) \<in> set (sx_log (lk_go x))"
proof -
  from link_demo_answered obtain y q s p0 pa pv where y: "sx_session y = link_session q" "sx_broker y = link_broker"
      "sx_sequence y = 1" "sx_reading y" "sx_log y = []" "vs_out s = [p0, pa, pv]"
      "enc_msg peer_key 9 1 (M_Open 1) = Some p0" "enc_msg peer_key 9 2 (M_Ack 1 (replicate 16 5) True) = Some pa"
      "enc_msg peer_key 9 3 (M_Verified 1 (the sample_frame)) = Some pv" "msg_ok (M_Verified 1 (the sample_frame))"
    and r: "reachable (lkinit 9 peer_key) lkstep (link_demo\<lparr>lk_go := y, lk_peer := s, lk_reader := R_Loop, lk_down := 1\<rparr>)"
    by blast
  let ?x = "\<lambda>z n. link_demo\<lparr>lk_go := z, lk_peer := s, lk_reader := R_Loop, lk_down := 1, lk_up := n\<rparr>"
  from link_demo_reads [OF y(1-5,7-10)] obtain y1 y2 y3 where
    z: "sxstep abi_v1 y (XRead (Inr p0)) y1" "sxstep abi_v1 y1 (XRead (Inr pa)) y2" "sxstep abi_v1 y2 (XRead (Inr pv)) y3"
      "msg_packet 9 3 (M_Verified 1 (the sample_frame)) \<in> set (sx_log y3)" by blast
  have "lkstep (?x y 0) L_GoRead (?x y1 1)" "lkstep (?x y1 1) L_GoRead (?x y2 2)" "lkstep (?x y2 2) L_GoRead (?x y3 3)"
    using lk_go_read [of "?x y 0" y1] lk_go_read [of "?x y1 1" y2] lk_go_read [of "?x y2 2" y3] z y(6)
    by (simp_all add: numeral_nat link_demo_def)
  then have "run lkstep (?x y 0) [L_GoRead, L_GoRead, L_GoRead] (?x y3 3)" by (intro run_cons run_one)
  moreover have "reachable (lkinit 9 peer_key) lkstep (?x y 0)" using r by (simp add: link_demo_def)
  ultimately have "reachable (lkinit 9 peer_key) lkstep (?x y3 3)" using lk.reachable_run by blast
  then show ?thesis using z(4) by (intro exI [of _ "?x y3 3"]) simp
qed

section \<open>Properties\<close>

text \<open>
  C13: neither end of the link rejects a packet of the other. In every run of the Go session
  and the native peer over one socket, the next packet the peer has written is accepted by
  \<open>decodeAuthenticatedPacket\<close> with the key, generation and sequence number the session's read
  loop holds at that moment, and the next packet the session has written is accepted by the
  peer's \<open>readAssignment\<close>: whatever interleaving of concurrent assignments, connections opened
  and closed, timers and the two readers led there, no authentication, generation, sequence or
  format error can occur between the two.
\<close>

theorem link_never_rejects:
  assumes "reachable (lkinit g key) lkstep x"
  shows "(sx_reading (lk_go x) \<and> lk_up x < length (vs_out (lk_peer x)) \<and> Suc (lk_up x) < 2 ^ 64 \<longrightarrow>
      (\<exists>d. decodeAuthenticatedPacket abi_v1 (vs_out (lk_peer x) ! lk_up x) (ss_key (sx_session (lk_go x)))
         (ss_generation (sx_session (lk_go x))) (sx_sequence (lk_go x)) = Some (Inr d))) \<and>
    (vs_running (lk_peer x) \<and> lk_down x < length (ss_sent (sx_session (lk_go x))) \<longrightarrow>
      (\<exists>t p. decodeAssignment (ss_sent (sx_session (lk_go x)) ! lk_down x) (lk_peer x) = (Inr t, p)))"
  using go_decodes [OF lk.reachable_inv [OF assms]] peer_decodes [OF lk.reachable_inv [OF assms]] by metis



theorem link_never_rejects_witness:
  "\<exists>(x :: unit link) d. reachable (lkinit 9 peer_key) lkstep x \<and>
     decodeAuthenticatedPacket abi_v1 (vs_out (lk_peer x) ! 0) peer_key 9 1 = Some (Inr d)"
proof -
  from link_demo_answered obtain y q s p0 pa pv where y: "sx_session y = link_session q" "sx_sequence y = 1" "sx_reading y"
      "vs_out s = [p0, pa, pv]"
    and r: "reachable (lkinit 9 peer_key) lkstep (link_demo\<lparr>lk_go := y, lk_peer := s, lk_reader := R_Loop, lk_down := 1\<rparr>)"
    by blast
  from link_never_rejects [OF r] y have "\<exists>d. decodeAuthenticatedPacket abi_v1 p0 peer_key 9 1 = Some (Inr d)"
    by (simp add: link_demo_def link_session_def newSubprocessIngressSession_def)
  with r y(4) show ?thesis by fastforce
qed

end
