(* ===== verification/Native_Embedded.thy ===== *)
theory Native_Embedded
  imports Peer_Correct
begin

text \<open>
  The native side of the embedded mode: \<^verbatim>\<open>IngressTransport.java\<close>, behind the two entry
  points that \<^verbatim>\<open>go/embedded_ingress.go\<close> calls. Its critical sections are functions on the record
  \<open>transport\<close>; the callbacks into Go are a trace. An assignment is answered inside the call: it hands
  over one frame and returns OK, or returns an error and hands over nothing, and in both cases
  leaves no assignment behind. The tables match under every interleaving of the critical sections.
\<close>

section \<open>State\<close>

datatype native_call = CB_Open u64 | CB_Verified bytes bytes u64

record transport =
  it_connections :: "(u64 \<times> connection) list"
  it_handles :: "(connection \<times> u64) list"
  it_assignments :: "(u64 \<times> Assignment) list"
  it_correlations :: "(int list \<times> u64) list"
  it_timers :: "(nat \<times> task) list"
  it_nextTimer :: nat
  it_shutdown :: bool
  it_nextHandle :: u64
  it_openCallback :: bool
  it_verifiedCallback :: bool
  it_producer :: producer
  it_calls :: "native_call list"

definition native_cancelExpiry :: "Assignment \<Rightarrow> transport \<Rightarrow> transport" where
  "native_cancelExpiry a t =
     (case a_expiry a of None \<Rightarrow> t | Some i \<Rightarrow> t\<lparr>it_timers := AList.delete i (it_timers t)\<rparr>)"

definition clearAssignments :: "transport \<Rightarrow> transport" where
  "clearAssignments t =
     (fold (\<lambda>(_, a). native_cancelExpiry a) (it_assignments t) t)\<lparr>it_assignments := [], it_correlations := []\<rparr>"

definition setCallbacks :: "bool \<Rightarrow> bool \<Rightarrow> transport \<Rightarrow> int \<times> transport" where
  "setCallbacks openCb verifiedCb t =
     (if \<not> openCb \<and> \<not> verifiedCb
      then (CallbackRegistrationOK abi_v1,
        clearAssignments (t\<lparr>it_openCallback := False, it_verifiedCallback := False\<rparr>))
      else if \<not> openCb \<or> \<not> verifiedCb then (AssignmentWrongConnectionState abi_v1, t)
      else (CallbackRegistrationOK abi_v1, t\<lparr>it_openCallback := True, it_verifiedCallback := True\<rparr>))"

definition openConnection :: "connection \<Rightarrow> transport \<Rightarrow> transport" where
  "openConnection connection t =
     (if map_of (it_handles t) connection \<noteq> None then t
      else (let handle = it_nextHandle t;
                t = t\<lparr>it_nextHandle := handle + 1\<rparr>;
                (handle, t) = (if handle = 0 then (it_nextHandle t, t\<lparr>it_nextHandle := it_nextHandle t + 1\<rparr>)
                  else (handle, t));
                t = t\<lparr>it_handles := AList.update connection handle (it_handles t),
                      it_connections := AList.update handle connection (it_connections t)\<rparr>
            in if it_openCallback t then t\<lparr>it_calls := it_calls t @ [CB_Open handle]\<rparr> else t))"

definition closeConnection :: "connection \<Rightarrow> transport \<Rightarrow> transport" where
  "closeConnection connection t =
     (let t = t\<lparr>it_producer := forget (it_producer t) connection\<rparr> in
      case map_of (it_handles t) connection of
        None \<Rightarrow> t
      | Some handle \<Rightarrow>
        let t = t\<lparr>it_handles := AList.delete connection (it_handles t),
                  it_connections := AList.delete handle (it_connections t)\<rparr> in
        case map_of (it_assignments t) handle of
          None \<Rightarrow> t
        | Some a \<Rightarrow>
          let t = native_cancelExpiry a (t\<lparr>it_assignments := AList.delete handle (it_assignments t)\<rparr>) in
          t\<lparr>it_correlations := AList.delete (correlationKey (a_correlation a)) (it_correlations t)\<rparr>)"

definition transport_close :: "transport \<Rightarrow> transport" where
  "transport_close t =
     (let t = clearAssignments (t\<lparr>it_shutdown := True, it_timers := []\<rparr>) in
      t\<lparr>it_producer := fold (\<lambda>(_, c) P. forget P c) (it_connections t) (it_producer t),
        it_connections := [], it_handles := []\<rparr>)"

definition native_expire :: "u64 \<Rightarrow> bytes \<Rightarrow> u64 \<Rightarrow> transport \<Rightarrow> transport" where
  "native_expire handle correlation expires t =
     (case map_of (it_assignments t) handle of
        None \<Rightarrow> t
      | Some a \<Rightarrow>
        if a_expiresUnixMs a \<noteq> expires \<or> a_correlation a \<noteq> correlation then t
        else t\<lparr>it_assignments := AList.delete handle (it_assignments t),
               it_correlations := AList.delete (correlationKey correlation) (it_correlations t)\<rparr>)"

section \<open>assign\<close>

text \<open>The first critical section; \<open>Inr\<close> is the assignment and the connection of the handle.\<close>

definition native_register ::
  "u64 \<Rightarrow> u64 \<Rightarrow> bytes \<Rightarrow> u64 \<Rightarrow> transport \<Rightarrow> (jexn + int + (Assignment \<times> connection)) \<times> transport" where
  "native_register now handle correlation expires t =
     (if \<not> it_verifiedCallback t then (Inr (Inl (AssignmentWrongConnectionState abi_v1)), t)
      else case map_of (it_connections t) handle of
        None \<Rightarrow> (Inr (Inl (AssignmentUnknownOrClosedHandle abi_v1)), t)
      | Some connection \<Rightarrow>
        if isZero correlation \<or> sint expires \<le> sint now \<or> sint (expires - now) > 5000
        then (Inr (Inl (AssignmentInvalidOrExpiredTime abi_v1)), t)
        else if map_of (it_assignments t) handle \<noteq> None \<or> map_of (it_correlations t) (correlationKey correlation) \<noteq> None
        then (Inr (Inl (AssignmentDuplicateHandleOrCorrelation abi_v1)), t)
        else (let a = \<lparr>a_handle = handle, a_correlation = correlation, a_expiresUnixMs = expires, a_expiry = None\<rparr>;
                  t = t\<lparr>it_assignments := AList.update handle a (it_assignments t),
                        it_correlations := AList.update (correlationKey correlation) handle (it_correlations t)\<rparr>
              in if it_shutdown t then (Inl RuntimeException, t)
                 else (let i = it_nextTimer t; a = a\<lparr>a_expiry := Some i\<rparr> in
                   (Inr (Inr (a, connection)),
                    t\<lparr>it_timers := AList.update i (handle, correlation, expires) (it_timers t), it_nextTimer := Suc i,
                      it_assignments := AList.update handle a (it_assignments t)\<rparr>))))"

definition native_claim :: "u64 \<Rightarrow> u64 \<Rightarrow> bytes \<Rightarrow> transport \<Rightarrow> Assignment option \<times> transport" where
  "native_claim now handle frame t =
     (case map_of (it_assignments t) handle of
        None \<Rightarrow> (None, t)
      | Some a \<Rightarrow>
        let t = native_cancelExpiry a (t\<lparr>it_assignments := AList.delete handle (it_assignments t)\<rparr>);
            t = t\<lparr>it_correlations := AList.delete (correlationKey (a_correlation a)) (it_correlations t)\<rparr>
        in if sint now \<ge> sint (a_expiresUnixMs a) \<or> length frame < 1 \<or> length frame > 4096
           then (None, t) else (Some a, t))"

definition native_publish :: "u64 \<Rightarrow> u64 \<Rightarrow> bytes \<Rightarrow> transport \<Rightarrow> bool \<times> transport" where
  "native_publish now handle frame t =
     (case native_claim now handle frame t of
        (None, t) \<Rightarrow> (False, t)
      | (Some a, t) \<Rightarrow>
          if \<not> it_verifiedCallback t then (False, t)
          else (True, t\<lparr>it_calls := it_calls t @ [CB_Verified (a_correlation a) frame (a_expiresUnixMs a)]\<rparr>))"

text \<open>The identity of an assignment object is that of its scheduled task.\<close>

definition removeAssignment :: "u64 \<Rightarrow> Assignment \<Rightarrow> transport \<Rightarrow> transport" where
  "removeAssignment handle a t =
     (if map_of (it_assignments t) handle = Some a
      then (native_cancelExpiry a (t\<lparr>it_assignments := AList.delete handle (it_assignments t)\<rparr>))
        \<lparr>it_correlations := AList.delete (correlationKey (a_correlation a)) (it_correlations t)\<rparr>
      else t)"

text \<open>
  The whole call, its critical sections one after another, and the overload that reads the
  correlation through a C pointer (\<open>None\<close> is null). The exception is that of an executor that
  has been shut down; the entry point catches it.
\<close>

definition native_assign_bytes ::
  "u64 \<Rightarrow> u64 \<Rightarrow> u64 \<Rightarrow> u64 \<Rightarrow> bytes \<Rightarrow> u64 \<Rightarrow> transport \<Rightarrow> (jexn + int) \<times> transport" where
  "native_assign_bytes now now' now'' handle correlation expires t =
     (case native_register now handle correlation expires t of
        (Inl exn, t) \<Rightarrow> (Inl exn, t)
      | (Inr (Inl rc), t) \<Rightarrow> (Inr rc, t)
      | (Inr (Inr (a, connection)), t) \<Rightarrow>
          (case produce (it_producer t) connection (Some correlation) expires now' of
             None \<Rightarrow> (Inr (AssignmentWrongConnectionState abi_v1), removeAssignment handle a t)
           | Some frame \<Rightarrow>
               (case native_publish now'' handle frame t of
                  (True, t) \<Rightarrow> (Inr (AssignmentOK abi_v1), t)
                | (False, t) \<Rightarrow> (Inr (AssignmentWrongConnectionState abi_v1), removeAssignment handle a t))))"

definition native_assign ::
  "u64 \<Rightarrow> u64 \<Rightarrow> u64 \<Rightarrow> u64 \<Rightarrow> bytes option \<Rightarrow> u64 \<Rightarrow> transport \<Rightarrow> (jexn + int) \<times> transport" where
  "native_assign now now' now'' handle correlation expires t =
     (case correlation of
        None \<Rightarrow> (Inr (AssignmentWrongConnectionState abi_v1), t)
      | Some c \<Rightarrow> native_assign_bytes now now' now'' handle c expires t)"

lemma update_snoc: "map_of m k = None \<Longrightarrow> AList.update k v (m @ [(k, w)]) = m @ [(k, v)]"
  by (induction m) (auto split: if_splits)

lemma delete_fresh: "map_of m k = None \<Longrightarrow> AList.delete k (m @ [(k, v)]) = m"
  by (induction m) (auto split: if_splits)

lemma native_register_cases:
  assumes "native_register now h c e t = (res, t')" "\<not> it_shutdown t"
  obtains rc where "res = Inr (Inl rc)" "rc \<noteq> AssignmentOK abi_v1" "t' = t"
  | n where "res = Inr (Inr (\<lparr>a_handle = h, a_correlation = c, a_expiresUnixMs = e, a_expiry = Some (it_nextTimer t)\<rparr>, n))"
      "map_of (it_connections t) h = Some n" "it_verifiedCallback t" "map_of (it_assignments t) h = None"
      "map_of (it_correlations t) (correlationKey c) = None"
      "t' = t\<lparr>it_correlations := it_correlations t @ [(correlationKey c, h)],
        it_timers := AList.update (it_nextTimer t) (h, c, e) (it_timers t), it_nextTimer := Suc (it_nextTimer t),
        it_assignments := it_assignments t @ [(h, \<lparr>a_handle = h, a_correlation = c, a_expiresUnixMs = e,
          a_expiry = Some (it_nextTimer t)\<rparr>)]\<rparr>"
proof -
  note defs = native_register_def Let_def
  have codes: "AssignmentWrongConnectionState abi_v1 \<noteq> AssignmentOK abi_v1" "AssignmentUnknownOrClosedHandle abi_v1 \<noteq> AssignmentOK abi_v1"
      "AssignmentInvalidOrExpiredTime abi_v1 \<noteq> AssignmentOK abi_v1" "AssignmentDuplicateHandleOrCorrelation abi_v1 \<noteq> AssignmentOK abi_v1"
    by (simp_all add: abi_v1_def)
  let ?ks = "map_of (it_correlations t) (correlationKey c)"
  consider "\<not> it_verifiedCallback t" | "it_verifiedCallback t" "map_of (it_connections t) h = None"
    | n where "it_verifiedCallback t" "map_of (it_connections t) h = Some n"
        "isZero c \<or> sint e \<le> sint now \<or> sint (e - now) > 5000"
    | n where "it_verifiedCallback t" "map_of (it_connections t) h = Some n"
        "\<not> (isZero c \<or> sint e \<le> sint now \<or> sint (e - now) > 5000)" "map_of (it_assignments t) h \<noteq> None \<or> ?ks \<noteq> None"
    | n where "it_verifiedCallback t" "map_of (it_connections t) h = Some n"
        "\<not> (isZero c \<or> sint e \<le> sint now \<or> sint (e - now) > 5000)" "map_of (it_assignments t) h = None" "?ks = None"
    by (cases "map_of (it_connections t) h") blast+
  then show thesis
  proof cases
    case 1
    show thesis by (rule that(1) [OF _ codes(1)]) (use assms(1) 1 in \<open>simp_all add: defs\<close>)
  next
    case 2
    show thesis by (rule that(1) [OF _ codes(2)]) (use assms(1) 2 in \<open>simp_all add: defs\<close>)
  next
    case 3
    show thesis by (rule that(1) [OF _ codes(3)]) (use assms(1) 3 in \<open>simp_all add: defs\<close>)
  next
    case 4
    show thesis by (rule that(1) [OF _ codes(4)]) (use assms(1) 4 in \<open>simp_all add: defs\<close>)
  next
    case 5
    note upd = update_snoc [OF 5(4)] update_fresh [OF 5(4)] update_fresh [OF 5(5)]
    show thesis
      by (rule that(2) [OF _ 5(2) 5(1) 5(4) 5(5)], use assms(1) in \<open>auto simp: defs upd 5 assms(2)\<close>)
  qed
qed


definition demo_transport :: transport where
  "demo_transport = \<lparr>it_connections = [(1, 3)], it_handles = [(3, 1)], it_assignments = [], it_correlations = [],
     it_timers = [], it_nextTimer = 0, it_shutdown = False, it_nextHandle = 2, it_openCallback = True,
     it_verifiedCallback = True, it_producer = fold producer_step sample_events Map.empty, it_calls = []\<rparr>"

lemma demo_transport_assigns:
  "\<exists>t'. native_assign 1500 1500 1500 1 (Some (replicate 16 5)) 4000 demo_transport = (Inr (AssignmentOK abi_v1), t')"
proof -
  obtain f where f: "produce (it_producer demo_transport) 3 (Some (replicate 16 5)) 4000 1500 = Some f"
    using sample_frame_Some by (auto simp: sample_frame_def demo_transport_def)
  have "producer_ok (it_producer demo_transport)"
    by (simp add: demo_transport_def producer_run_ok [OF producer_ok_empty])
  from produce_genuine [OF this f] genuine_nonempty have "length f \<le> 4096" "f \<noteq> []" by auto
  with f show ?thesis
    by (simp add: native_assign_def native_assign_bytes_def native_register_def native_publish_def native_claim_def native_cancelExpiry_def
        demo_transport_def isZero_def list_all_iff Let_def)
qed


section \<open>The tables of the transport\<close>

text \<open>
  The calls into the transport, the critical sections of \<open>assign\<close> one by one: threads may
  interleave there.
\<close>

datatype transport_event = T_SetCallbacks bool bool | T_Open connection | T_Close connection | T_Shutdown
  | T_Expire u64 bytes u64 | T_Register u64 u64 bytes u64 | T_Publish u64 u64 bytes | T_Remove u64 Assignment
  | T_Producer producer_event

fun transport_step :: "transport_event \<Rightarrow> transport \<Rightarrow> transport" where
  "transport_step (T_SetCallbacks op vf) t = snd (setCallbacks op vf t)"
| "transport_step (T_Open c) t = openConnection c t"
| "transport_step (T_Close c) t = closeConnection c t"
| "transport_step T_Shutdown t = transport_close t"
| "transport_step (T_Expire h c e) t = native_expire h c e t"
| "transport_step (T_Register now h c e) t = snd (native_register now h c e t)"
| "transport_step (T_Publish now h f) t = snd (native_publish now h f t)"
| "transport_step (T_Remove h a) t = removeAssignment h a t"
| "transport_step (T_Producer ev) t = t\<lparr>it_producer := producer_step ev (it_producer t)\<rparr>"

definition new_IngressTransport :: transport where
  "new_IngressTransport = \<lparr>it_connections = [], it_handles = [], it_assignments = [], it_correlations = [],
     it_timers = [], it_nextTimer = 0, it_shutdown = False, it_nextHandle = 1, it_openCallback = False,
     it_verifiedCallback = False, it_producer = Map.empty, it_calls = []\<rparr>"

text \<open>
  The correlation table is the inverse of the assignment table, and only connected handles have
  an assignment.
\<close>

definition tables_match :: "(u64 \<rightharpoonup> connection) \<Rightarrow> (u64 \<rightharpoonup> Assignment) \<Rightarrow> (int list \<rightharpoonup> u64) \<Rightarrow> bool" where
  "tables_match conns asg cors \<longleftrightarrow>
     (\<forall>h a. asg h = Some a \<longrightarrow> conns h \<noteq> None \<and> cors (correlationKey (a_correlation a)) = Some h) \<and>
     (\<forall>k h. cors k = Some h \<longrightarrow> (\<exists>a. asg h = Some a \<and> correlationKey (a_correlation a) = k))"

definition transport_ok :: "transport \<Rightarrow> bool" where
  "transport_ok t \<longleftrightarrow> tables_match (map_of (it_connections t)) (map_of (it_assignments t)) (map_of (it_correlations t))"

lemma tables_match_drop:
  assumes "tables_match cs as ks" "as h = Some a"
  shows "tables_match cs (as(h := None)) (ks(correlationKey (a_correlation a) := None))"
  unfolding tables_match_def
proof (intro conjI allI impI)
  fix h' a' assume "(as(h := None)) h' = Some a'"
  then have "h' \<noteq> h" "as h' = Some a'" by (auto split: if_splits)
  with assms show "cs h' \<noteq> None"
      "(ks(correlationKey (a_correlation a) := None)) (correlationKey (a_correlation a')) = Some h'"
    unfolding tables_match_def by (auto split: if_splits) (metis option.inject)
next
  fix k h' assume "(ks(correlationKey (a_correlation a) := None)) k = Some h'"
  then have "k \<noteq> correlationKey (a_correlation a)" "ks k = Some h'" by (auto split: if_splits)
  with assms show "\<exists>a'. (as(h := None)) h' = Some a' \<and> correlationKey (a_correlation a') = k"
    unfolding tables_match_def by (metis fun_upd_other option.inject)
qed

lemma tables_match_disconnect:
  "tables_match cs as ks \<Longrightarrow> as h = None \<Longrightarrow> tables_match (cs(h := None)) as ks"
  unfolding tables_match_def by (metis fun_upd_apply option.distinct(1))

lemma tables_match_connect: "tables_match cs as ks \<Longrightarrow> tables_match (cs(h \<mapsto> c)) as ks"
  unfolding tables_match_def by (metis fun_upd_apply option.distinct(1))

lemma tables_match_put:
  assumes "tables_match cs as ks" "cs h = Some n" "as h = None" "ks (correlationKey (a_correlation a)) = None"
  shows "tables_match cs (as(h \<mapsto> a)) (ks(correlationKey (a_correlation a) \<mapsto> h))"
  unfolding tables_match_def
proof (intro conjI allI impI)
  fix h' a' assume a': "(as(h \<mapsto> a)) h' = Some a'"
  show "cs h' \<noteq> None" "(ks(correlationKey (a_correlation a) \<mapsto> h)) (correlationKey (a_correlation a')) = Some h'"
    using a' assms unfolding tables_match_def by (cases "h' = h"; force)+
next
  fix k h' assume k: "(ks(correlationKey (a_correlation a) \<mapsto> h)) k = Some h'"
  show "\<exists>a'. (as(h \<mapsto> a)) h' = Some a' \<and> correlationKey (a_correlation a') = k"
    using k assms unfolding tables_match_def by (cases "k = correlationKey (a_correlation a)"; force)
qed

lemmas transport_tables = transport_ok_def AList.update_conv' AList.delete_conv' native_cancelExpiry_def

lemma new_IngressTransport_ok: "transport_ok new_IngressTransport"
  by (simp add: new_IngressTransport_def transport_ok_def tables_match_def)

lemma transport_step_ok:
  assumes "transport_ok t"
  shows "transport_ok (transport_step ev t)"
proof (cases ev)
  case (T_SetCallbacks op vf)
  then show ?thesis using assms by (simp add: setCallbacks_def clearAssignments_def transport_ok_def tables_match_def)
next
  case (T_Open c)
  then show ?thesis using assms by (simp add: openConnection_def transport_tables Let_def tables_match_connect)
next
  case (T_Close c)
  show ?thesis
  proof (cases "map_of (it_handles t) c")
    case (Some h)
    then show ?thesis
      using T_Close assms
      by (cases "map_of (it_assignments t) h")
        (simp_all add: closeConnection_def transport_tables Let_def tables_match_disconnect tables_match_drop split: option.split)
  qed (use T_Close assms in \<open>simp add: closeConnection_def transport_ok_def\<close>)
next
  case T_Shutdown
  then show ?thesis by (simp add: transport_close_def clearAssignments_def transport_ok_def tables_match_def Let_def)
next
  case (T_Expire h c e)
  then show ?thesis
    using assms tables_match_drop by (fastforce simp: native_expire_def transport_tables split: option.split)
next
  case (T_Register now h c e)
  show ?thesis
  proof (cases "\<exists>n. map_of (it_connections t) h = Some n \<and> map_of (it_assignments t) h = None \<and>
      map_of (it_correlations t) (correlationKey c) = None")
    case True
    then have "tables_match (map_of (it_connections t)) ((map_of (it_assignments t))(h \<mapsto> a))
        ((map_of (it_correlations t))(correlationKey c \<mapsto> h))" if "a_correlation a = c" for a
      using tables_match_put [of _ _ _ h _ a] assms that by (auto simp: transport_ok_def)
    then show ?thesis using True T_Register assms by (auto simp: native_register_def transport_tables Let_def)
  qed (use T_Register assms in \<open>auto simp: native_register_def split: option.split\<close>)
next
  case (T_Publish now h f)
  then show ?thesis
    using assms tables_match_drop
    by (fastforce simp: native_publish_def native_claim_def transport_tables Let_def split: option.split)
next
  case (T_Remove h a)
  then show ?thesis
    using assms tables_match_drop by (fastforce simp: removeAssignment_def transport_tables split: option.split)
next
  case (T_Producer pe)
  then show ?thesis using assms by (simp add: transport_ok_def)
qed

interpretation it: invariant_system "\<lambda>t. t = new_IngressTransport" "\<lambda>t ev t'. t' = transport_step ev t" transport_ok
  by unfold_locales (simp_all add: transport_step_ok new_IngressTransport_ok)

end
