(* ===== verification/Native_Bridge.thy ===== *)
theory Native_Bridge
  imports Native_Embedded
begin

text \<open>
  The exported entry points of \<^verbatim>\<open>GeyserBridge.java\<close> and the registration of the connection
  hooks (\<^verbatim>\<open>VerifiedIngressHooks.java\<close>), as a step relation over the static state of an
  isolate: \<open>geyser_init\<close> and \<open>geyser_run\<close> are called by one thread, the other entry points by
  any thread. The transports the bridge has created are a list, an object reference is an index
  of it. Geyser itself only says whether its boot and its shutdown throw.

  A shutdown request is never lost once \<open>geyser_run\<close> has installed its latch; before that it is.
  A second \<open>geyser_init\<close> without a run in between fails and leaves the isolate without a transport
  for good.
\<close>

section \<open>State\<close>

record bridge =
  br_latch :: nat
  br_started :: bool
  br_running :: bool
  br_configPath :: string
  br_embed :: bool
  br_ingress :: "nat option"
  br_sink :: "nat option"
  br_transports :: "transport list"

definition new_bridge :: bridge where
  "new_bridge = \<lparr>br_latch = 1, br_started = False, br_running = False, br_configPath = ''config.yml'',
     br_embed = False, br_ingress = None, br_sink = None, br_transports = []\<rparr>"

section \<open>Hooks\<close>

text \<open>\<open>None\<close> is the \<open>IllegalStateException\<close>.\<close>

definition hooks_register :: "nat \<Rightarrow> bridge \<Rightarrow> bridge option" where
  "hooks_register candidate b =
     (if br_sink b \<noteq> None \<and> br_sink b \<noteq> Some candidate then None else Some (b\<lparr>br_sink := Some candidate\<rparr>))"

definition hooks_unregister :: "nat \<Rightarrow> bridge \<Rightarrow> bridge" where
  "hooks_unregister candidate b = (if br_sink b = Some candidate then b\<lparr>br_sink := None\<rparr> else b)"

definition on_transport :: "nat \<Rightarrow> (transport \<Rightarrow> transport) \<Rightarrow> bridge \<Rightarrow> bridge" where
  "on_transport i f b = b\<lparr>br_transports := (br_transports b)[i := f (br_transports b ! i)]\<rparr>"

text \<open>The two subscribed handlers: a connection opened, or disconnected.\<close>

definition hook_opened :: "connection \<Rightarrow> bridge \<Rightarrow> bridge" where
  "hook_opened c b = (case br_sink b of None \<Rightarrow> b | Some current \<Rightarrow> on_transport current (openConnection c) b)"

definition hook_closed :: "connection \<Rightarrow> bridge \<Rightarrow> bridge" where
  "hook_closed c b = (case br_sink b of None \<Rightarrow> b | Some current \<Rightarrow> on_transport current (closeConnection c) b)"

section \<open>Entry points\<close>

definition drop_ingress :: "bridge \<Rightarrow> bridge" where
  "drop_ingress b =
     (case br_ingress b of
        None \<Rightarrow> b
      | Some i \<Rightarrow> (on_transport i transport_close (hooks_unregister i b))\<lparr>br_ingress := None\<rparr>)"

definition bridge_init :: "string option \<Rightarrow> bridge \<Rightarrow> int \<times> bridge" where
  "bridge_init cConfigPath b =
     (let b = (case cConfigPath of None \<Rightarrow> b | Some path \<Rightarrow> if path \<noteq> [] then b\<lparr>br_configPath := path\<rparr> else b);
          b = b\<lparr>br_embed := True\<rparr>;
          i = length (br_transports b);
          b = b\<lparr>br_transports := br_transports b @ [new_IngressTransport], br_ingress := Some i\<rparr>
      in case hooks_register i b of
           Some b \<Rightarrow> (0, b)
         | None \<Rightarrow> (- 1, drop_ingress b))"

definition bridge_shutdown :: "bridge \<Rightarrow> int \<times> bridge" where
  "bridge_shutdown b = (0, b\<lparr>br_latch := br_latch b - 1\<rparr>)"

definition bridge_status :: "bridge \<Rightarrow> int" where
  "bridge_status b = (if br_running b then 1 else 0)"

definition setIngressCallbacks :: "bool \<Rightarrow> bool \<Rightarrow> bridge \<Rightarrow> int \<times> bridge" where
  "setIngressCallbacks openCb verifiedCb b =
     (case br_ingress b of
        None \<Rightarrow> (if \<not> openCb \<and> \<not> verifiedCb then CallbackRegistrationOK abi_v1 else AssignmentWrongConnectionState abi_v1, b)
      | Some i \<Rightarrow> (fst (setCallbacks openCb verifiedCb (br_transports b ! i)),
          on_transport i (\<lambda>t. snd (setCallbacks openCb verifiedCb t)) b))"

definition assignVerifiedIngress ::
  "u64 \<Rightarrow> u64 \<Rightarrow> u64 \<Rightarrow> u64 \<Rightarrow> bytes option \<Rightarrow> u64 \<Rightarrow> bridge \<Rightarrow> int \<times> bridge" where
  "assignVerifiedIngress now now' now'' handle correlation expires b =
     (case br_ingress b of
        None \<Rightarrow> (AssignmentWrongConnectionState abi_v1, b)
      | Some i \<Rightarrow>
         (case fst (native_assign now now' now'' handle correlation expires (br_transports b ! i)) of
            Inl _ \<Rightarrow> AssignmentWrongConnectionState abi_v1
          | Inr rc \<Rightarrow> rc,
          on_transport i (\<lambda>t. snd (native_assign now now' now'' handle correlation expires t)) b))"

text \<open>
  \<open>geyser_run\<close> from its first statement: the flag is set, then the latch is replaced, Geyser
  boots, the thread waits for the latch, Geyser is shut down, and the \<open>finally\<close> block clears the
  state.
\<close>

datatype run_pc = R_Idle | R_Entered | R_Booting | R_Waiting | R_Stopping

datatype bridge_event = B_Init "string option" int | B_Enter | B_Refused int | B_Latch | B_Boot | B_Wake | B_Return int
  | B_Shutdown int | B_SetCallbacks bool bool int | B_Assign u64 u64 u64 u64 "bytes option" u64 int
  | B_Opened connection | B_Closed connection

definition run_finally :: "bridge \<Rightarrow> bridge" where
  "run_finally b = drop_ingress (b\<lparr>br_started := False\<rparr>)"

inductive bridge_step :: "run_pc \<times> bridge \<Rightarrow> bridge_event \<Rightarrow> run_pc \<times> bridge \<Rightarrow> bool" where
  bs_init: "bridge_init p b = (rc, b') \<Longrightarrow> bridge_step (R_Idle, b) (B_Init p rc) (R_Idle, b')"
| bs_enter: "\<not> br_started b \<Longrightarrow> bridge_step (R_Idle, b) B_Enter (R_Entered, b\<lparr>br_started := True\<rparr>)"
| bs_refused: "br_started b \<Longrightarrow> bridge_step (pc, b) (B_Refused (- 2)) (pc, b)"
| bs_latch: "bridge_step (R_Entered, b) B_Latch (R_Booting, b\<lparr>br_latch := 1\<rparr>)"
| bs_boot: "bridge_step (R_Booting, b) B_Boot (R_Waiting, b\<lparr>br_running := True\<rparr>)"
| bs_throw: "bridge_step (R_Booting, b) (B_Return (- 1)) (R_Idle, run_finally (b\<lparr>br_running := False\<rparr>))"
| bs_wake: "br_latch b = 0 \<Longrightarrow> bridge_step (R_Waiting, b) B_Wake (R_Stopping, b\<lparr>br_running := False\<rparr>)"
| bs_return: "rc = 0 \<or> rc = - 1 \<Longrightarrow>
    bridge_step (R_Stopping, b) (B_Return rc) (R_Idle, run_finally (b\<lparr>br_running := False\<rparr>))"
| bs_shutdown: "bridge_shutdown b = (rc, b') \<Longrightarrow> bridge_step (pc, b) (B_Shutdown rc) (pc, b')"
| bs_callbacks: "setIngressCallbacks op vf b = (rc, b') \<Longrightarrow> bridge_step (pc, b) (B_SetCallbacks op vf rc) (pc, b')"
| bs_assign: "assignVerifiedIngress n1 n2 n3 h c e b = (rc, b') \<Longrightarrow>
    bridge_step (pc, b) (B_Assign n1 n2 n3 h c e rc) (pc, b')"
| bs_opened: "bridge_step (pc, b) (B_Opened c) (pc, hook_opened c b)"
| bs_closed: "bridge_step (pc, b) (B_Closed c) (pc, hook_closed c b)"

inductive_cases bridge_stepE: "bridge_step (pc, b) ev y"

section \<open>Invariant\<close>

text \<open>
  The flags say where the run is, the current transport is the registered sink, and every transport
  the bridge ever made has matching tables.
\<close>

definition bridge_inv :: "run_pc \<times> bridge \<Rightarrow> bool" where
  "bridge_inv = (\<lambda>(pc, b).
     (br_started b \<longleftrightarrow> pc \<noteq> R_Idle) \<and> (br_running b \<longleftrightarrow> pc = R_Waiting) \<and> br_latch b \<le> 1 \<and>
     (\<forall>i. br_ingress b = Some i \<longrightarrow> br_sink b = Some i) \<and> (\<forall>i. br_sink b = Some i \<longrightarrow> i < length (br_transports b)) \<and>
     list_all transport_ok (br_transports b))"

lemma transport_op_ok:
  assumes "transport_ok t"
  shows "transport_ok (openConnection c t)" "transport_ok (closeConnection c t)" "transport_ok (transport_close t)"
    "transport_ok (snd (setCallbacks op vf t))" "transport_ok (removeAssignment h a t)"
    "transport_ok (snd (native_register now h k e t))" "transport_ok (snd (native_publish now h f t))"
  using transport_step_ok [OF assms, of "T_Open c"] transport_step_ok [OF assms, of "T_Close c"]
    transport_step_ok [OF assms, of T_Shutdown] transport_step_ok [OF assms, of "T_SetCallbacks op vf"]
    transport_step_ok [OF assms, of "T_Remove h a"] transport_step_ok [OF assms, of "T_Register now h k e"]
    transport_step_ok [OF assms, of "T_Publish now h f"] by simp_all

lemma native_assign_ok:
  assumes "transport_ok t"
  shows "transport_ok (snd (native_assign n1 n2 n3 h c e t))"
proof (cases c)
  case (Some k)
  obtain r t1 where r: "native_register n1 h k e t = (r, t1)" by force
  have t1: "transport_ok t1" using transport_op_ok(6) [OF assms, of n1 h k e] r by simp
  have publish: "transport_ok t2" if "native_publish n3 h f t1 = (ok, t2)" for f ok t2
    using transport_op_ok(7) [OF t1, of n3 h f] that by simp
  show ?thesis
    using t1 publish transport_op_ok(5)
    by (auto simp: native_assign_def native_assign_bytes_def Some r split: option.split prod.split sum.split bool.split)
qed (use assms in \<open>simp add: native_assign_def\<close>)

lemma on_transport_ok:
  assumes "\<And>t. transport_ok t \<Longrightarrow> transport_ok (f t)" "list_all transport_ok (br_transports b)" "i < length (br_transports b)"
  shows "list_all transport_ok (br_transports (on_transport i f b))"
  using assms by (simp add: on_transport_def list_all_length nth_list_update)

lemma on_transport_frame [simp]:
  "br_latch (on_transport i f b) = br_latch b" "br_started (on_transport i f b) = br_started b"
  "br_running (on_transport i f b) = br_running b" "br_ingress (on_transport i f b) = br_ingress b"
  "br_sink (on_transport i f b) = br_sink b" "length (br_transports (on_transport i f b)) = length (br_transports b)"
  by (simp_all add: on_transport_def)

lemma bridge_inv_keep:
  assumes "bridge_inv (pc, b)" "br_sink b = Some i" "\<And>t. transport_ok t \<Longrightarrow> transport_ok (f t)"
  shows "bridge_inv (pc, on_transport i f b)"
  using assms on_transport_ok [of f b i] by (simp add: bridge_inv_def)

lemma drop_ingress_inv: "bridge_inv (pc, b) \<Longrightarrow> bridge_inv (pc, drop_ingress b)"
proof (cases "br_ingress b")
  case (Some i)
  assume inv: "bridge_inv (pc, b)"
  with Some have "br_sink b = Some i" by (simp add: bridge_inv_def)
  with bridge_inv_keep [OF inv this, of transport_close] Some transport_op_ok(3) show ?thesis
    by (simp add: drop_ingress_def hooks_unregister_def bridge_inv_def on_transport_def)
qed (simp add: drop_ingress_def)

lemma bridge_init_inv:
  assumes "bridge_inv (R_Idle, b)" "bridge_init p b = (rc, b')"
  shows "bridge_inv (R_Idle, b')"
proof -
  define b1 where "b1 = (case p of None \<Rightarrow> b | Some path \<Rightarrow> if path \<noteq> [] then b\<lparr>br_configPath := path\<rparr> else b)"
  have b1: "br_latch b1 = br_latch b" "br_started b1 = br_started b" "br_running b1 = br_running b"
      "br_ingress b1 = br_ingress b" "br_sink b1 = br_sink b" "br_transports b1 = br_transports b"
    by (simp_all add: b1_def split: option.split)
  show ?thesis
  proof (cases "br_sink b")
    case None
    with assms b1 show ?thesis
      by (auto simp: bridge_init_def b1_def [symmetric] Let_def hooks_register_def bridge_inv_def new_IngressTransport_ok)
  next
    case (Some j)
    with assms(1) have "j < length (br_transports b)" by (simp add: bridge_inv_def)
    with Some assms b1 transport_op_ok(3) [OF new_IngressTransport_ok] show ?thesis
      by (auto simp: bridge_init_def b1_def [symmetric] Let_def hooks_register_def hooks_unregister_def drop_ingress_def
          bridge_inv_def on_transport_def nth_append list_update_append)
  qed
qed

lemma bridge_inv_step: "bridge_step x ev y \<Longrightarrow> bridge_inv x \<Longrightarrow> bridge_inv y"
proof (induction rule: bridge_step.induct)
  case (bs_init p b rc b')
  then show ?case by (metis bridge_init_inv)
next
  case (bs_throw b)
  then have "bridge_inv (R_Idle, b\<lparr>br_running := False, br_started := False\<rparr>)" by (simp add: bridge_inv_def)
  from drop_ingress_inv [OF this] show ?case by (simp add: run_finally_def)
next
  case (bs_return rc b)
  then have "bridge_inv (R_Idle, b\<lparr>br_running := False, br_started := False\<rparr>)" by (simp add: bridge_inv_def)
  from drop_ingress_inv [OF this] show ?case by (simp add: run_finally_def)
next
  case (bs_callbacks op vf b rc b' pc)
  then show ?case
    by (cases "br_ingress b") (auto simp: setIngressCallbacks_def bridge_inv_def intro: transport_op_ok(4) on_transport_ok)
next
  case (bs_assign n1 n2 n3 h c e b rc b' pc)
  then show ?case
    by (cases "br_ingress b") (auto simp: assignVerifiedIngress_def bridge_inv_def intro: native_assign_ok on_transport_ok)
next
  case (bs_opened pc b c)
  then show ?case by (auto simp: hook_opened_def intro: bridge_inv_keep transport_op_ok(1) split: option.split)
next
  case (bs_closed pc b c)
  then show ?case by (auto simp: hook_closed_def intro: bridge_inv_keep transport_op_ok(2) split: option.split)
qed (auto simp: bridge_inv_def bridge_shutdown_def)

interpretation nb: invariant_system "\<lambda>x. x = (R_Idle, new_bridge)" bridge_step bridge_inv
  by unfold_locales (simp add: bridge_inv_def new_bridge_def, rule bridge_inv_step)

section \<open>Shutdown requests\<close>

text \<open>A request that comes before the latch of the run is installed is lost: the run waits.\<close>

lemma shutdown_before_latch_lost:
  assumes "\<not> br_started b"
  shows "\<exists>b'. run bridge_step (R_Idle, b) [B_Shutdown 0, B_Enter, B_Shutdown 0, B_Latch, B_Boot] (R_Waiting, b') \<and>
    \<not> (\<exists>y. bridge_step (R_Waiting, b') B_Wake y)"
proof -
  define b1 where "b1 = snd (bridge_shutdown b)"
  define b2 where "b2 = snd (bridge_shutdown (b1\<lparr>br_started := True\<rparr>))"
  have 1: "bridge_step (R_Idle, b) (B_Shutdown 0) (R_Idle, b1)" "bridge_step (R_Idle, b1) B_Enter (R_Entered, b1\<lparr>br_started := True\<rparr>)"
      "bridge_step (R_Entered, b1\<lparr>br_started := True\<rparr>) (B_Shutdown 0) (R_Entered, b2)"
    using assms by (auto simp: b1_def b2_def bridge_shutdown_def intro!: bridge_step.intros)
  note snoc = run_snoc [where step = bridge_step]
  note r = snoc [OF snoc [OF snoc [OF snoc [OF snoc [OF run_nil [where step = bridge_step] 1(1)] 1(2)] 1(3)] bs_latch] bs_boot]
  have "\<not> (\<exists>y. bridge_step (R_Waiting, b2\<lparr>br_latch := 1, br_running := True\<rparr>) B_Wake y)"
    by (auto elim: bridge_stepE)
  with r show ?thesis by auto
qed

text \<open>From there on the latch only goes down, until the run returns.\<close>

definition run_inside :: "run_pc \<Rightarrow> bool" where
  "run_inside pc \<longleftrightarrow> pc = R_Booting \<or> pc = R_Waiting \<or> pc = R_Stopping"

definition is_return :: "bridge_event \<Rightarrow> bool" where
  "is_return ev \<longleftrightarrow> (\<exists>rc. ev = B_Return rc)"

lemma hook_latch [simp]: "br_latch (hook_opened c b) = br_latch b" "br_latch (hook_closed c b) = br_latch b"
  by (simp_all add: hook_opened_def hook_closed_def split: option.split)

lemma bridge_step_latch:
  assumes "bridge_step (pc, b) ev (pc', b')" "run_inside pc" "\<not> is_return ev"
  shows "run_inside pc'" "br_latch b' \<le> br_latch b - (if ev = B_Shutdown 0 then 1 else 0)"
  using assms
  by (auto elim!: bridge_stepE simp: run_inside_def is_return_def bridge_shutdown_def setIngressCallbacks_def
      assignVerifiedIngress_def split: option.splits)

lemma bridge_run_latch:
  assumes "run bridge_step x es y" "run_inside (fst x)" "br_latch (snd x) \<le> 1" "\<not> list_ex is_return es"
  shows "run_inside (fst y) \<and> br_latch (snd y) \<le> 1 \<and> (B_Shutdown 0 \<in> set es \<longrightarrow> br_latch (snd y) = 0)"
  using assms
proof (induction rule: run.induct)
  case (run_snoc x es y e z)
  then have "run_inside (fst y)" "\<not> is_return e" by auto
  then show ?case
    using run_snoc bridge_step_latch [of "fst y" "snd y" e "fst z" "snd z"] by (fastforce split: if_splits)
qed simp

text \<open>
  Once \<open>geyser_run\<close> has installed its latch, a shutdown request ends the wait: whatever the other
  threads call meanwhile, as long as the run has not returned a waiting run can go on to the
  shutdown of Geyser.
\<close>

theorem shutdown_ends_run:
  assumes "reachable (\<lambda>x. x = (R_Idle, new_bridge)) bridge_step (R_Booting, b)"
    and "run bridge_step (R_Booting, b) es (R_Waiting, b')" "B_Shutdown 0 \<in> set es" "\<not> list_ex is_return es"
  shows "bridge_step (R_Waiting, b') B_Wake (R_Stopping, b'\<lparr>br_running := False\<rparr>) \<and> bridge_status b' = 1"
proof -
  have "br_latch b \<le> 1" using nb.reachable_inv [OF assms(1)] by (simp add: bridge_inv_def)
  then have "br_latch b' = 0" using bridge_run_latch [OF assms(2)] assms(3,4) by (simp add: run_inside_def)
  moreover have "br_running b'"
    using nb.reachable_inv [OF nb.reachable_run [OF assms(1,2)]] by (simp add: bridge_inv_def)
  ultimately show ?thesis by (simp add: bs_wake bridge_status_def)
qed

section \<open>A second init\<close>

text \<open>
  After a second \<open>geyser_init\<close> without a completed run the isolate has a sink that nothing can
  unregister: every further \<open>geyser_init\<close> fails and every assignment is refused.
\<close>

definition stranded :: "bridge \<Rightarrow> bool" where
  "stranded b \<longleftrightarrow> br_ingress b = None \<and> (\<exists>i < length (br_transports b). br_sink b = Some i)"

lemma init_stranded:
  assumes "br_sink b = Some i" "i < length (br_transports b)" "bridge_init p b = (rc, b')"
  shows "rc = - 1 \<and> stranded b'"
proof -
  define b1 where "b1 = (case p of None \<Rightarrow> b | Some path \<Rightarrow> if path \<noteq> [] then b\<lparr>br_configPath := path\<rparr> else b)"
  have "br_sink b1 = br_sink b" "br_transports b1 = br_transports b" by (simp_all add: b1_def split: option.split)
  with assms show ?thesis
    by (auto simp: bridge_init_def b1_def [symmetric] Let_def hooks_register_def hooks_unregister_def drop_ingress_def
        stranded_def)
qed

lemma stranded_step: "bridge_step x ev y \<Longrightarrow> stranded (snd x) \<Longrightarrow> stranded (snd y)"
proof (induction rule: bridge_step.induct)
  case (bs_init p b rc b')
  then show ?case using init_stranded by (auto simp: stranded_def)
qed (auto simp: stranded_def run_finally_def drop_ingress_def bridge_shutdown_def setIngressCallbacks_def
    assignVerifiedIngress_def hook_opened_def hook_closed_def split: option.splits)

interpretation ns: invariant_system "\<lambda>x. stranded (snd x)" bridge_step "\<lambda>x. stranded (snd x)"
  by unfold_locales (assumption, rule stranded_step)

text \<open>
  A second \<open>geyser_init\<close> while a transport is registered returns -1, and from then on, whatever is
  called, every \<open>geyser_init\<close> returns -1 and every assignment is refused as a wrong connection state.
\<close>

theorem second_init_disables_ingress:
  assumes "reachable (\<lambda>x. x = (R_Idle, new_bridge)) bridge_step (R_Idle, b)" "br_sink b \<noteq> None"
    and "bridge_init p b = (rc, b1)" "run bridge_step (R_Idle, b1) es (pc, b2)"
  shows "rc = - 1 \<and> fst (bridge_init q b2) = - 1 \<and>
    fst (assignVerifiedIngress n1 n2 n3 h c e b2) = AssignmentWrongConnectionState abi_v1"
proof -
  obtain i where i: "br_sink b = Some i" "i < length (br_transports b)"
    using nb.reachable_inv [OF assms(1)] assms(2) by (auto simp: bridge_inv_def)
  have b1: "rc = - 1" "stranded b1" using init_stranded [OF i assms(3)] by auto
  then have "stranded b2" using ns.run_inv [OF assms(4)] by simp
  moreover from this obtain j where "br_sink b2 = Some j" "j < length (br_transports b2)" by (auto simp: stranded_def)
  then have "fst (bridge_init q b2) = - 1" using init_stranded by (metis prod.collapse)
  ultimately show ?thesis using b1 by (simp add: stranded_def assignVerifiedIngress_def)
qed

end
